(* ===== verification/Go_Base.thy ===== *)
theory Go_Base
  imports Main "HOL-Library.Word"
begin

text \<open>
  The prelude: what the proxy uses of Go and of its standard library.

  \<^item> A byte is a \<^typ>\<open>char\<close> (eight bits), a byte string a \<^typ>\<open>string\<close>.
  \<^item> A Go slice \<open>[]byte\<close> can be \<open>nil\<close>, and the code tests for it (\<open>resp.BulkString\<close>),
    so a slice is a \<open>bytes option\<close>: \<open>None\<close> is the nil slice and \<open>Some []\<close>
    the empty slice that is not nil; \<open>sl\<close> reads the contents of either. Two
    idioms of the code lose the difference: \<open>append([]byte(nil), x...)\<close> is nil for an
    empty \<open>x\<close> (\<open>append_nil\<close>).
  \<^item> A call returns a value, an error, or panics: \<open>'a res\<close>.
  \<^item> \<open>int\<close> and \<open>int64\<close> are 64-bit; additions and products that can overflow go through
    \<open>wrap64\<close>.
  \<^item> \<open>strings.ToLower\<close>, \<open>strings.ToUpper\<close> and \<open>bytes.EqualFold\<close> act on
    ASCII letters and leave every other byte alone (Unicode case folding of bytes above
    127 is outside the model).
\<close>

section \<open>Bytes, slices and results\<close>

type_synonym bytes = string
type_synonym slice = "bytes option"
type_synonym argv = "slice list"

text \<open>Facts the component proofs use as simplification sets.\<close>

named_theorems go_string \<open>byte-string functions of the standard library\<close>
named_theorems go_bound \<open>bounds on indexes, slots and machine integers\<close>

primrec sl :: "slice \<Rightarrow> bytes" where
  "sl None = []"
| "sl (Some b) = b"

definition append_nil :: "bytes \<Rightarrow> slice" where
  "append_nil b = (if b = [] then None else Some b)"

lemma sl_append_nil [simp]: "sl (append_nil b) = b"
  by (simp add: append_nil_def)

lemma append_nil_None [simp]: "append_nil b = None \<longleftrightarrow> b = []"
  by (simp add: append_nil_def)

text \<open>
  Errors: the sentinels the code compares with, network errors with their
  \<open>Timeout()\<close> flag, and every other error as its message.
\<close>

datatype gerr =
    ErrIncomplete
  | ErrProtocol
  | EOF
  | ErrUnexpectedEOF
  | NetErr string bool
  | GoErr string

fun err_string :: "gerr \<Rightarrow> string" where
  "err_string ErrIncomplete = ''resp: incomplete''"
| "err_string ErrProtocol = ''resp: protocol error''"
| "err_string EOF = ''EOF''"
| "err_string ErrUnexpectedEOF = ''unexpected EOF''"
| "err_string (NetErr m t) = m"
| "err_string (GoErr m) = m"

datatype 'a res = Ok 'a | Err gerr | Panic

primrec res_bind :: "'a res \<Rightarrow> ('a \<Rightarrow> 'b res) \<Rightarrow> 'b res" where
  "res_bind (Ok a) f = f a"
| "res_bind (Err e) f = Err e"
| "res_bind Panic f = Panic"

lemma res_bind_eq_Ok: "res_bind r f = Ok b \<longleftrightarrow> (\<exists>a. r = Ok a \<and> f a = Ok b)"
  by (cases r) auto

lemma res_bind_eq_Panic: "res_bind r f = Panic \<longleftrightarrow> r = Panic \<or> (\<exists>a. r = Ok a \<and> f a = Panic)"
  by (cases r) auto

section \<open>Machine integers\<close>

text \<open>Two's complement wrap-around of \<open>int64\<close> (and of \<open>int\<close> on a 64-bit host).\<close>

definition wrap64 :: "int \<Rightarrow> int" where
  "wrap64 n = (n + 2 ^ 63) mod 2 ^ 64 - 2 ^ 63"

definition int64 :: "int \<Rightarrow> bool" where
  "int64 n \<longleftrightarrow> - (2 ^ 63) \<le> n \<and> n < 2 ^ 63"

lemma wrap64_int64 [simp, go_bound]: "int64 (wrap64 n)"
proof -
  have "0 \<le> (n + 2 ^ 63) mod 2 ^ 64" and "(n + 2 ^ 63) mod 2 ^ 64 < (2 ^ 64 :: int)"
    by simp_all
  then show ?thesis by (simp add: int64_def wrap64_def)
qed

lemma wrap64_id [simp]: "int64 n \<Longrightarrow> wrap64 n = n"
  by (simp add: int64_def wrap64_def)

lemma wrap64_wrap64_add [simp]: "wrap64 (wrap64 a + b) = wrap64 (a + b)"
proof -
  have "((a + 2 ^ 63) mod 2 ^ 64 - 2 ^ 63 + b + 2 ^ 63) mod 2 ^ 64
      = ((a + 2 ^ 63) mod 2 ^ 64 + b) mod (2 ^ 64 :: int)"
    by (simp add: algebra_simps)
  also have "\<dots> = (a + 2 ^ 63 + b) mod 2 ^ 64"
    by (rule mod_add_left_eq)
  finally show ?thesis
    by (simp add: wrap64_def algebra_simps)
qed

section \<open>Byte strings\<close>

abbreviation byte_val :: "char \<Rightarrow> nat" where
  "byte_val c \<equiv> of_char c"

abbreviation (input) CR :: char where
  "CR \<equiv> CHR 0x0D"

abbreviation (input) LF :: char where
  "LF \<equiv> CHR 0x0A"

abbreviation (input) CRLF :: bytes where
  "CRLF \<equiv> [CR, LF]"

definition HasPrefix :: "bytes \<Rightarrow> bytes \<Rightarrow> bool" where
  "HasPrefix s p \<longleftrightarrow> take (length p) s = p"

lemma HasPrefix_append [simp, go_string]: "HasPrefix (p @ s) p"
  by (simp add: HasPrefix_def)

lemma HasPrefixE:
  assumes "HasPrefix s p"
  obtains t where "s = p @ t"
proof -
  have "s = p @ drop (length p) s"
    using assms append_take_drop_id [of "length p" s] by (simp add: HasPrefix_def)
  then show thesis by (rule that)
qed

lemma HasPrefix_iff [go_string]: "HasPrefix s p \<longleftrightarrow> (\<exists>t. s = p @ t)"
  by (auto elim: HasPrefixE)

fun Contains :: "bytes \<Rightarrow> bytes \<Rightarrow> bool" where
  "Contains [] p = (p = [])"
| "Contains (c # s) p = (HasPrefix (c # s) p \<or> Contains s p)"

lemma Contains_iff [go_string]: "Contains s p \<longleftrightarrow> (\<exists>u t. s = u @ p @ t)"
proof (induction s)
  case Nil
  show ?case by simp
next
  case (Cons c s)
  note IH = Cons.IH
  show ?case
  proof
    assume "Contains (c # s) p"
    then show "\<exists>u t. c # s = u @ p @ t"
      using IH by (metis Contains.simps(2) HasPrefix_iff append_Cons append_Nil)
  next
    assume "\<exists>u t. c # s = u @ p @ t"
    then obtain u t where "c # s = u @ p @ t" by blast
    show "Contains (c # s) p"
    proof (cases u)
      case Nil
      with \<open>c # s = u @ p @ t\<close> have "HasPrefix (c # s) p" by simp
      then show ?thesis by simp
    next
      case (Cons d v)
      with \<open>c # s = u @ p @ t\<close> show ?thesis using IH by auto
    qed
  qed
qed

text \<open>\<open>bytes.IndexByte\<close>, with \<open>None\<close> for -1.\<close>

fun IndexByte :: "bytes \<Rightarrow> char \<Rightarrow> nat option" where
  "IndexByte [] c = None"
| "IndexByte (x # xs) c = (if x = c then Some 0 else map_option Suc (IndexByte xs c))"

lemma IndexByte_None: "IndexByte s c = None \<longleftrightarrow> c \<notin> set s"
  by (induction s) auto

lemma IndexByte_append [simp]: "c \<notin> set s \<Longrightarrow> IndexByte (s @ c # t) c = Some (length s)"
  by (induction s) auto

lemma IndexByte_SomeD: "IndexByte s c = Some i \<Longrightarrow>
    i < length s \<and> s ! i = c \<and> c \<notin> set (take i s)"
  by (induction s arbitrary: i) (auto split: if_splits)

lemma IndexByte_take:
  "IndexByte (take b s) c =
     (case IndexByte s c of None \<Rightarrow> None | Some i \<Rightarrow> if i < b then Some i else None)"
proof (induction s arbitrary: b)
  case Nil
  show ?case by simp
next
  case (Cons x s)
  then show ?case by (cases b) (auto split: option.splits)
qed

lemma IndexByte_drop:
  "c \<notin> set (take b s) \<Longrightarrow> IndexByte (drop b s) c = map_option (\<lambda>i. i - b) (IndexByte s c)"
proof (induction s arbitrary: b)
  case Nil
  show ?case by simp
next
  case (Cons x s)
  then show ?case by (cases b) (auto simp: option.map_comp comp_def option.map_ident)
qed

lemma IndexByte_Some_iff:
  "IndexByte s c = Some i \<longleftrightarrow> i < length s \<and> s ! i = c \<and> c \<notin> set (take i s)"
proof
  assume r: "i < length s \<and> s ! i = c \<and> c \<notin> set (take i s)"
  then have "s = take i s @ c # drop (Suc i) s"
    using id_take_nth_drop [of i s] by simp
  then have "IndexByte s c = Some (length (take i s))"
    using r by (metis IndexByte_append)
  then show "IndexByte s c = Some i" using r by simp
qed (rule IndexByte_SomeD)

text \<open>ASCII letter case, byte by byte.\<close>

definition upper_byte :: "char \<Rightarrow> char" where
  "upper_byte c =
     (if 97 \<le> byte_val c \<and> byte_val c \<le> 122 then char_of (byte_val c - 32) else c)"

definition lower_byte :: "char \<Rightarrow> char" where
  "lower_byte c =
     (if 65 \<le> byte_val c \<and> byte_val c \<le> 90 then char_of (byte_val c + 32) else c)"

definition ToLower :: "bytes \<Rightarrow> bytes" where
  "ToLower s = map lower_byte s"

definition ToUpper :: "bytes \<Rightarrow> bytes" where
  "ToUpper s = map upper_byte s"

lemma byte_val_less [simp, go_bound]: "byte_val c < 256"
  by (metis char_of_char of_char_of mod_less_divisor zero_less_numeral)

lemma byte_val_eq_iff: "byte_val c = byte_val d \<longleftrightarrow> c = d"
  by (metis char_of_char)

lemma byte_val_upper_byte:
  "byte_val (upper_byte c) =
     (if 97 \<le> byte_val c \<and> byte_val c \<le> 122 then byte_val c - 32 else byte_val c)"
  by (auto simp: upper_byte_def)

lemma byte_val_lower_byte:
  "byte_val (lower_byte c) =
     (if 65 \<le> byte_val c \<and> byte_val c \<le> 90 then byte_val c + 32 else byte_val c)"
  by (simp add: lower_byte_def)

lemma upper_byte_idem [simp]: "upper_byte (upper_byte c) = upper_byte c"
  by (auto simp: byte_val_eq_iff [symmetric] byte_val_upper_byte)

lemma lower_byte_idem [simp]: "lower_byte (lower_byte c) = lower_byte c"
  by (auto simp: byte_val_eq_iff [symmetric] byte_val_lower_byte)

lemma upper_lower_byte [simp]: "upper_byte (lower_byte c) = upper_byte c"
  by (auto simp: byte_val_eq_iff [symmetric] byte_val_upper_byte byte_val_lower_byte)

lemma lower_upper_byte [simp]: "lower_byte (upper_byte c) = lower_byte c"
  by (auto simp: byte_val_eq_iff [symmetric] byte_val_upper_byte byte_val_lower_byte)

lemma lower_eq_iff_upper_eq: "lower_byte c = lower_byte d \<longleftrightarrow> upper_byte c = upper_byte d"
  by (metis lower_upper_byte upper_lower_byte)

end
