(* ===== verification/Go_Strconv.thy ===== *)
theory Go_Strconv
  imports Go_Base
begin

text \<open>
  Decimal numbers as \<open>strconv\<close> writes and reads them: \<open>AppendInt\<close>, \<open>ParseInt\<close>
  (base 10, 64 bits, an optional sign) and \<open>Atoi\<close>, which agrees with it. The callers
  only test whether an error is returned, so a reading is an \<open>int option\<close>. The main
  facts are the two round trips and that a written number holds only digits and a sign.
\<close>

section \<open>Writing\<close>

definition digit_char :: "nat \<Rightarrow> char" where
  "digit_char d = ''0123456789'' ! d"

definition is_digit :: "char \<Rightarrow> bool" where
  "is_digit c \<longleftrightarrow> 48 \<le> byte_val c \<and> byte_val c \<le> 57"

fun nat_dec :: "nat \<Rightarrow> bytes" where
  "nat_dec n = (if n < 10 then [digit_char n] else nat_dec (n div 10) @ [digit_char (n mod 10)])"

declare nat_dec.simps [simp del]

definition AppendInt :: "int \<Rightarrow> bytes" where
  "AppendInt n = (if n < 0 then CHR ''-'' # nat_dec (nat (- n)) else nat_dec (nat n))"

lemma less_10_cases:
  "(d::nat) < 10 \<Longrightarrow> d = 0 \<or> d = 1 \<or> d = 2 \<or> d = 3 \<or> d = 4 \<or> d = 5 \<or> d = 6 \<or> d = 7 \<or> d = 8 \<or> d = 9"
  by arith

lemma byte_val_digit_char: "d < 10 \<Longrightarrow> byte_val (digit_char d) = 48 + d"
  using less_10_cases [of d] by (auto simp: digit_char_def)

lemma is_digit_digit_char [simp]: "d < 10 \<Longrightarrow> is_digit (digit_char d)"
  by (simp add: is_digit_def byte_val_digit_char)

lemma nat_dec_digits: "\<forall>c \<in> set (nat_dec n). is_digit c"
proof (induction n rule: nat_dec.induct)
  case (1 n)
  then show ?case
    by (cases "n < 10") (auto simp: nat_dec.simps [of n])
qed

lemma nat_dec_not_Nil [simp]: "nat_dec n \<noteq> []"
  by (subst nat_dec.simps) simp

lemma is_digit_neq:
  assumes "is_digit c"
  shows "c \<noteq> CHR ''-''" "c \<noteq> CHR ''+''" "c \<noteq> CHR '':''" "c \<noteq> CR" "c \<noteq> LF" "c \<noteq> CHR '' ''"
    "c \<noteq> CHR ''{''" "c \<noteq> CHR ''}''"
  using assms by (auto simp: is_digit_def)

lemma AppendInt_not_Nil [simp]: "AppendInt n \<noteq> []"
  by (simp add: AppendInt_def)

lemma AppendInt_set: "set (AppendInt n) \<subseteq> insert (CHR ''-'') {c. is_digit c}"
  using nat_dec_digits by (auto simp: AppendInt_def)

lemma AppendInt_no_CR [simp]: "CR \<notin> set (AppendInt n)"
  and AppendInt_no_LF [simp]: "LF \<notin> set (AppendInt n)"
  using AppendInt_set [of n] by (auto simp: is_digit_def)

section \<open>Reading\<close>

fun dec_acc :: "nat \<Rightarrow> bytes \<Rightarrow> nat option" where
  "dec_acc n [] = Some n"
| "dec_acc n (c # cs) = (if is_digit c then dec_acc (n * 10 + (byte_val c - 48)) cs else None)"

definition ParseUint :: "bytes \<Rightarrow> nat option" where
  "ParseUint s = (if s = [] then None else dec_acc 0 s)"

definition ParseInt :: "bytes \<Rightarrow> int option" where
  "ParseInt s =
     (case s of
        [] \<Rightarrow> None
      | c # cs \<Rightarrow>
          (let neg = (c = CHR ''-'');
               body = (if c = CHR ''-'' \<or> c = CHR ''+'' then cs else s)
           in (case ParseUint body of
                 None \<Rightarrow> None
               | Some u \<Rightarrow>
                   (if \<not> neg \<and> u \<ge> 2 ^ 63 then None
                    else if neg \<and> u > 2 ^ 63 then None
                    else Some (if neg then - int u else int u)))))"

definition Atoi :: "bytes \<Rightarrow> int option" where
  "Atoi s = ParseInt s"

lemma dec_acc_append: "dec_acc n (s @ t) = Option.bind (dec_acc n s) (\<lambda>m. dec_acc m t)"
  by (induction s arbitrary: n) auto

lemma dec_acc_nat_dec: "dec_acc 0 (nat_dec n) = Some n"
proof (induction n rule: nat_dec.induct)
  case (1 n)
  show ?case
  proof (cases "n < 10")
    case True
    then show ?thesis by (simp add: nat_dec.simps [of n] byte_val_digit_char)
  next
    case False
    with "1" have "dec_acc 0 (nat_dec (n div 10)) = Some (n div 10)" by simp
    with False show ?thesis
      by (simp add: nat_dec.simps [of n] dec_acc_append byte_val_digit_char)
  qed
qed

lemma ParseUint_nat_dec [simp]: "ParseUint (nat_dec n) = Some n"
  by (simp add: ParseUint_def dec_acc_nat_dec)

lemma hd_nat_dec: "is_digit (hd (nat_dec n))"
  using nat_dec_digits [of n] hd_in_set [OF nat_dec_not_Nil] by blast

lemma ParseInt_nat_dec: "n < 2 ^ 63 \<Longrightarrow> ParseInt (nat_dec n) = Some (int n)"
proof -
  assume n: "n < 2 ^ 63"
  obtain c cs where eq: "nat_dec n = c # cs"
    by (cases "nat_dec n") auto
  with hd_nat_dec [of n] have "is_digit c" by simp
  then have "c \<noteq> CHR ''-''" and "c \<noteq> CHR ''+''" by (rule is_digit_neq)+
  moreover have "ParseUint (c # cs) = Some n"
    using ParseUint_nat_dec [of n] eq by simp
  ultimately show ?thesis using n by (simp add: ParseInt_def eq Let_def)
qed

lemma ParseInt_AppendInt [simp]: "int64 n \<Longrightarrow> ParseInt (AppendInt n) = Some n"
proof (cases "n < 0")
  case True
  assume "int64 n"
  with True have "nat (- n) \<le> 2 ^ 63" by (simp add: int64_def)
  with True show ?thesis by (simp add: AppendInt_def ParseInt_def Let_def)
next
  case False
  assume "int64 n"
  with False have "nat n < 2 ^ 63" by (simp add: int64_def)
  with False show ?thesis by (simp add: AppendInt_def ParseInt_nat_dec)
qed

lemma ParseInt_int64: "ParseInt s = Some n \<Longrightarrow> int64 n"
  by (auto simp: ParseInt_def int64_def Let_def split: list.splits option.splits if_splits)

lemma nat_dec_inject: "nat_dec m = nat_dec n \<longleftrightarrow> m = n"
  by (metis ParseUint_nat_dec option.inject)

lemma AppendInt_inject: "int64 m \<Longrightarrow> int64 n \<Longrightarrow> AppendInt m = AppendInt n \<longleftrightarrow> m = n"
  by (metis ParseInt_AppendInt option.inject)

end
