(* ===== verification/Resp_Value.thy ===== *)
theory Resp_Value
  imports Go_Strconv
begin

text \<open>
  \<open>internal/resp/value.go\<close>: the RESP value, its constructors and the encoder. A
  \<open>Type\<close> is the prefix byte itself, as in the source. \<open>Raw\<close> is only tested for being
  empty, so it is a plain byte string; \<open>Str\<close> is a slice, because
  \<open>BulkString\<close> tells the nil slice from the empty one.
\<close>

section \<open>Values\<close>

abbreviation (input) TypeSimpleString :: char where "TypeSimpleString \<equiv> CHR ''+''"
abbreviation (input) TypeError :: char where "TypeError \<equiv> CHR ''-''"
abbreviation (input) TypeInteger :: char where "TypeInteger \<equiv> CHR '':''"
abbreviation (input) TypeBulkString :: char where "TypeBulkString \<equiv> CHR ''$''"
abbreviation (input) TypeArray :: char where "TypeArray \<equiv> CHR ''*''"
abbreviation (input) TypeNull :: char where "TypeNull \<equiv> CHR ''_''"
abbreviation (input) TypeBoolean :: char where "TypeBoolean \<equiv> CHR ''#''"
abbreviation (input) TypeDouble :: char where "TypeDouble \<equiv> CHR '',''"
abbreviation (input) TypeBigNumber :: char where "TypeBigNumber \<equiv> CHR ''(''"
abbreviation (input) TypeBlobError :: char where "TypeBlobError \<equiv> CHR ''!''"
abbreviation (input) TypeVerbatim :: char where "TypeVerbatim \<equiv> CHR ''=''"
abbreviation (input) TypeMap :: char where "TypeMap \<equiv> CHR ''%''"
abbreviation (input) TypeSet :: char where "TypeSet \<equiv> CHR ''~''"
abbreviation (input) TypePush :: char where "TypePush \<equiv> CHR ''>''"
abbreviation (input) TypeAttribute :: char where "TypeAttribute \<equiv> CHR ''|''"

datatype Value =
  Value (vType: char) (vStr: slice) (vInt: int) (vValues: "Value list") (vRaw: bytes) (vNull: bool)

text \<open>\<open>Value{}\<close>, and \<open>Value{Type: t}\<close> with one more field.\<close>

definition zeroValue :: Value where
  "zeroValue = Value (char_of (0::nat)) None 0 [] [] False"

abbreviation strValue :: "char \<Rightarrow> slice \<Rightarrow> Value" where
  "strValue t s \<equiv> Value t s 0 [] [] False"

abbreviation intValue :: "char \<Rightarrow> int \<Rightarrow> Value" where
  "intValue t n \<equiv> Value t None n [] [] False"

abbreviation aggValue :: "char \<Rightarrow> Value list \<Rightarrow> Value" where
  "aggValue t vs \<equiv> Value t None 0 vs [] False"

abbreviation nullValue :: "char \<Rightarrow> Value" where
  "nullValue t \<equiv> Value t None 0 [] [] True"

primrec setRaw :: "Value \<Rightarrow> bytes \<Rightarrow> Value" where
  "setRaw (Value t s n vs r z) raw = Value t s n vs raw z"

primrec putStr :: "Value \<Rightarrow> slice \<Rightarrow> Value" where
  "putStr (Value t s n vs r z) str = Value t str n vs r z"

primrec setValues :: "Value \<Rightarrow> Value list \<Rightarrow> Value" where
  "setValues (Value t s n vs r z) ws = Value t s n ws r z"

lemma setRaw_sel [simp]:
  "vType (setRaw v r) = vType v" "vStr (setRaw v r) = vStr v" "vInt (setRaw v r) = vInt v"
  "vValues (setRaw v r) = vValues v" "vRaw (setRaw v r) = r" "vNull (setRaw v r) = vNull v"
  by (cases v; simp)+

definition IsError :: "Value \<Rightarrow> bool" where
  "IsError v \<longleftrightarrow> vType v = TypeError \<or> vType v = TypeBlobError"

definition ErrorBytes :: "Value \<Rightarrow> slice" where
  "ErrorBytes v = vStr v"

definition ErrorKind :: "Value \<Rightarrow> slice" where
  "ErrorKind v =
     (if \<not> IsError v then None
      else (case IndexByte (sl (vStr v)) (CHR '' '') of
              None \<Rightarrow> vStr v
            | Some i \<Rightarrow> Some (take i (sl (vStr v)))))"

definition EqualKind :: "Value \<Rightarrow> bytes \<Rightarrow> bool" where
  "EqualKind v name \<longleftrightarrow> sl (ErrorKind v) = name"

definition BulkString :: "slice \<Rightarrow> Value" where
  "BulkString s = (case s of None \<Rightarrow> nullValue TypeBulkString | Some b \<Rightarrow> strValue TypeBulkString (Some b))"

definition SimpleString :: "bytes \<Rightarrow> Value" where
  "SimpleString s = strValue TypeSimpleString (Some s)"

definition Error :: "bytes \<Rightarrow> Value" where
  "Error s = strValue TypeError (Some s)"

definition Integer :: "int \<Rightarrow> Value" where
  "Integer n = intValue TypeInteger n"

definition Array :: "Value list \<Rightarrow> Value" where
  "Array items = aggValue TypeArray items"

definition NullArray :: Value where
  "NullArray = nullValue TypeArray"

definition NullBulk :: Value where
  "NullBulk = nullValue TypeBulkString"

definition CommandArray :: "argv \<Rightarrow> Value" where
  "CommandArray a = Array (map BulkString a)"

lemmas value_defs =
  BulkString_def SimpleString_def Error_def Integer_def Array_def NullArray_def NullBulk_def

section \<open>Encoding\<close>

definition appendCRLF :: "bytes \<Rightarrow> bytes" where
  "appendCRLF buf = buf @ CRLF"

function Encode :: "bytes \<Rightarrow> Value \<Rightarrow> bytes" where
  "Encode buf v =
     (if vRaw v \<noteq> [] then buf @ vRaw v
      else if vType v = TypeSimpleString then
        appendCRLF (buf @ ''+'' @ sl (vStr v))
      else if vType v = TypeError then
        appendCRLF (buf @ ''-'' @ sl (vStr v))
      else if vType v = TypeInteger then
        appendCRLF (buf @ '':'' @ AppendInt (vInt v))
      else if vType v = TypeBulkString then
        (if vNull v then buf @ ''$-1'' @ CRLF
         else appendCRLF (appendCRLF (buf @ ''$'' @ AppendInt (int (length (sl (vStr v)))))
                @ sl (vStr v)))
      else if vType v = TypeArray \<or> vType v = TypePush then
        (if vNull v then buf @ [vType v] @ ''-1'' @ CRLF
         else fold (\<lambda>w b. Encode b w) (vValues v)
                (appendCRLF (buf @ [vType v] @ AppendInt (int (length (vValues v))))))
      else if vType v = TypeNull then buf @ ''_'' @ CRLF
      else if vType v = TypeBoolean then
        (if vInt v \<noteq> 0 then buf @ ''#t'' @ CRLF else buf @ ''#f'' @ CRLF)
      else if vType v = TypeMap \<or> vType v = TypeSet then
        (let n = length (vValues v);
             n = (if vType v = TypeMap then n div 2 else n)
         in fold (\<lambda>w b. Encode b w) (vValues v)
              (appendCRLF (buf @ [vType v] @ AppendInt (int n))))
      else appendCRLF (buf @ [vType v] @ sl (vStr v)))"
  by pat_completeness auto
termination
proof (relation "measure (\<lambda>(buf, v). size v)", goal_cases)
  case 1
  show ?case by simp
next
  case (2 buf v w b)
  then show ?case by (cases v) (simp add: size_list_estimation' less_Suc_eq_le)
next
  case (3 buf v x xa w b)
  then show ?case by (cases v) (simp add: size_list_estimation' less_Suc_eq_le)
qed

declare Encode.simps [simp del]

definition EncodeCommand :: "bytes \<Rightarrow> argv \<Rightarrow> bytes" where
  "EncodeCommand buf a = Encode buf (CommandArray a)"


text \<open>
  The encoder appends: what is already in the buffer is kept, and the bytes it adds do not
  depend on it. Everything below is stated over \<open>enc\<close>, the bytes one value adds.
\<close>

abbreviation enc :: "Value \<Rightarrow> bytes" where
  "enc v \<equiv> Encode [] v"

abbreviation encs :: "Value list \<Rightarrow> bytes" where
  "encs vs \<equiv> concat (map (Encode []) vs)"

lemma fold_append_map:
  "(\<And>w b. w \<in> set vs \<Longrightarrow> f w b = b @ g w) \<Longrightarrow> fold f vs b = b @ concat (map g vs)"
  by (induction vs arbitrary: b) auto

lemma Encode_append: "Encode buf v = buf @ enc v"
proof (induction v arbitrary: buf)
  case (Value t s n vs r z)
  have fold_encs: "fold (\<lambda>w b. Encode b w) vs b = b @ encs vs" for b
    by (rule fold_append_map) (rule Value.IH)
  show ?case
    by (simp add: Encode.simps [of buf "Value t s n vs r z"] Encode.simps [of "[]" "Value t s n vs r z"]
        fold_encs appendCRLF_def Let_def)
qed

lemma fold_Encode: "fold (\<lambda>w b. Encode b w) vs b = b @ encs vs"
  by (rule fold_append_map) (rule Encode_append)

lemma enc_raw: "vRaw v \<noteq> [] \<Longrightarrow> enc v = vRaw v"
  by (simp add: Encode.simps [of "[]" v])

lemma enc_unfold:
  "enc (Value t s n vs [] z) =
     (if t = TypeSimpleString \<or> t = TypeError then t # sl s @ CRLF
      else if t = TypeInteger then '':'' @ AppendInt n @ CRLF
      else if t = TypeBulkString then
        (if z then ''$-1'' @ CRLF
         else ''$'' @ AppendInt (int (length (sl s))) @ CRLF @ sl s @ CRLF)
      else if t = TypeArray \<or> t = TypePush then
        (if z then t # ''-1'' @ CRLF
         else t # AppendInt (int (length vs)) @ CRLF @ encs vs)
      else if t = TypeNull then ''_'' @ CRLF
      else if t = TypeBoolean then (if n \<noteq> 0 then ''#t'' @ CRLF else ''#f'' @ CRLF)
      else if t = TypeMap \<or> t = TypeSet then
        t # AppendInt (int (if t = TypeMap then length vs div 2 else length vs)) @ CRLF @ encs vs
      else t # sl s @ CRLF)"
  by (simp add: Encode.simps [of "[]" "Value t s n vs [] z"] fold_Encode appendCRLF_def Let_def)

lemma enc_BulkString:
  "enc (BulkString (Some b)) = ''$'' @ AppendInt (int (length b)) @ CRLF @ b @ CRLF"
  "enc (BulkString None) = ''$-1'' @ CRLF"
  by (simp_all add: BulkString_def enc_unfold)

lemma EncodeCommand_append:
  "EncodeCommand buf a =
     buf @ ''*'' @ AppendInt (int (length a)) @ CRLF @ concat (map (enc \<circ> BulkString) a)"
  by (simp add: EncodeCommand_def CommandArray_def Array_def Encode_append [of buf] enc_unfold)

end
