(* ===== verification/Resp_Parse.thy ===== *)
theory Resp_Parse
  imports Resp_Value
begin

text \<open>
  \<open>internal/resp/parse.go\<close>: the reader. A \<open>reader\<close> is what the connection will
  deliver (\<open>inp\<close>), the error it then returns (\<open>fin\<close>: end of file or a deadline), the
  size of the \<open>bufio\<close> buffer and the wire bytes collected so far (\<open>raw\<close>). A call
  returns its result and the reader it leaves behind, also when it fails: a read that
  times out half way has consumed what had arrived. \<open>readValue\<close>, \<open>readAggregate\<close> and
  the loop over the elements are mutually recursive; they terminate because every value
  consumes a line.

  Shown here: a value consumes exactly the bytes it records as raw; encoding and then
  reading returns the value; the length guard of aggregates holds on every successful
  read, and the doubled length of a map can overflow, which panics.
\<close>

section \<open>The reader\<close>

record reader =
  inp :: bytes
  fin :: gerr
  bufsz :: nat
  raw :: bytes

type_synonym 'a rd = "'a res \<times> reader"

fun rd_bind :: "'a rd \<Rightarrow> ('a \<Rightarrow> reader \<Rightarrow> 'b rd) \<Rightarrow> 'b rd" where
  "rd_bind (Ok a, r) f = f a r"
| "rd_bind (Err e, r) f = (Err e, r)"
| "rd_bind (Panic, r) f = (Panic, r)"

lemma rd_bind_cong [fundef_cong]:
  "m = m' \<Longrightarrow> (\<And>a r. m' = (Ok a, r) \<Longrightarrow> f a r = f' a r) \<Longrightarrow> rd_bind m f = rd_bind m' f'"
  by (cases "(m', f')" rule: rd_bind.cases) auto

lemma rd_bind_Ok: "rd_bind m f = (Ok b, r') \<longleftrightarrow> (\<exists>a r. m = (Ok a, r) \<and> f a r = (Ok b, r'))"
  by (cases "(m, f)" rule: rd_bind.cases) auto

definition NewReaderSize :: "bytes \<Rightarrow> gerr \<Rightarrow> nat \<Rightarrow> reader" where
  "NewReaderSize bs e sz = \<lparr>inp = bs, fin = e, bufsz = (if sz < 4096 then 4096 else sz), raw = []\<rparr>"

definition NewReader :: "bytes \<Rightarrow> gerr \<Rightarrow> reader" where
  "NewReader bs e = NewReaderSize bs e (32 * 1024)"

text \<open>
  \<open>bufio.Reader.ReadSlice\<close>: a line if the buffer can hold it, \<open>ErrBufferFull\<close> (the flag)
  with a full buffer otherwise, or the connection's error with what was there consumed.
\<close>

definition ReadSlice :: "reader \<Rightarrow> (bytes \<times> bool) rd" where
  "ReadSlice r =
     (case IndexByte (take (bufsz r) (inp r)) LF of
        Some i \<Rightarrow> (Ok (take (Suc i) (inp r), False), r\<lparr>inp := drop (Suc i) (inp r)\<rparr>)
      | None \<Rightarrow>
          (if bufsz r \<le> length (inp r)
           then (Ok (take (bufsz r) (inp r), True), r\<lparr>inp := drop (bufsz r) (inp r)\<rparr>)
           else (Err (fin r), r\<lparr>inp := []\<rparr>)))"

definition ReadBytes :: "reader \<Rightarrow> bytes rd" where
  "ReadBytes r =
     (case IndexByte (inp r) LF of
        Some i \<Rightarrow> (Ok (take (Suc i) (inp r)), r\<lparr>inp := drop (Suc i) (inp r)\<rparr>)
      | None \<Rightarrow> (Err (fin r), r\<lparr>inp := []\<rparr>))"

definition ReadFull :: "nat \<Rightarrow> reader \<Rightarrow> bytes rd" where
  "ReadFull need r =
     (if need \<le> length (inp r)
      then (Ok (take need (inp r)), r\<lparr>inp := drop need (inp r)\<rparr>)
      else (Err (if inp r \<noteq> [] \<and> fin r = EOF then ErrUnexpectedEOF else fin r), r\<lparr>inp := []\<rparr>))"

definition readLine :: "reader \<Rightarrow> bytes rd" where
  "readLine r =
     rd_bind (ReadSlice r) (\<lambda>(line, full) r1.
       rd_bind (if full
                then rd_bind (ReadBytes r1) (\<lambda>rest r2. (Ok (line @ rest), r2))
                else (Ok line, r1))
         (\<lambda>line r2.
            let r3 = r2\<lparr>raw := raw r2 @ line\<rparr>
            in if length line < 2 \<or> line ! (length line - 2) \<noteq> CR then (Err ErrProtocol, r3)
               else (Ok (take (length line - 2) line), r3)))"

definition parseInt :: "bytes \<Rightarrow> int res" where
  "parseInt b =
     (if b = [] then Err ErrProtocol
      else (case ParseInt b of None \<Rightarrow> Err ErrProtocol | Some n \<Rightarrow> Ok n))"

definition clone :: "bytes \<Rightarrow> slice" where
  "clone b = (if b = [] then None else Some b)"

definition readBulk :: "char \<Rightarrow> bytes \<Rightarrow> reader \<Rightarrow> Value rd" where
  "readBulk t lenField r =
     rd_bind (parseInt lenField, r) (\<lambda>n r.
       if n < 0 then (Ok (nullValue t), r)
       else if n > 512 * 1024 * 1024 then (Err ErrProtocol, r)
       else rd_bind (ReadFull (nat n + 2) r) (\<lambda>buf r1.
         let r2 = r1\<lparr>raw := raw r1 @ buf\<rparr>
         in if buf ! nat n \<noteq> CR \<or> buf ! (nat n + 1) \<noteq> LF then (Err ErrProtocol, r2)
            else (Ok (strValue t (Some (take (nat n) buf))), r2)))"

text \<open>
  \<open>make([]Value, count)\<close> with a negative count panics; \<open>count *= 2\<close> wraps around.
\<close>

definition aggCount :: "int \<Rightarrow> bool \<Rightarrow> int" where
  "aggCount n isMap = (if isMap then wrap64 (n * 2) else n)"

function (sequential) readValue :: "reader \<Rightarrow> Value rd"
  and readAggregate :: "char \<Rightarrow> bytes \<Rightarrow> bool \<Rightarrow> reader \<Rightarrow> Value rd"
  and readItems :: "nat \<Rightarrow> reader \<Rightarrow> Value list rd"
where
  "readValue r =
     rd_bind (readLine r) (\<lambda>line r1.
       if line = [] then (Err ErrProtocol, r1)
       else let t = hd line; rest = tl line in
       if t = TypeSimpleString then (Ok (strValue TypeSimpleString (clone rest)), r1)
       else if t = TypeError then (Ok (strValue TypeError (clone rest)), r1)
       else if t = TypeInteger then
         rd_bind (parseInt rest, r1) (\<lambda>n r2. (Ok (intValue TypeInteger n), r2))
       else if t = TypeBulkString \<or> t = TypeBlobError \<or> t = TypeVerbatim then
         readBulk t rest r1
       else if t = TypeArray \<or> t = TypePush \<or> t = TypeSet then
         readAggregate t rest False r1
       else if t = TypeMap then readAggregate TypeMap rest True r1
       else if t = TypeNull then (Ok (nullValue TypeNull), r1)
       else if t = TypeBoolean then
         (Ok (intValue TypeBoolean
                (if rest \<noteq> [] \<and> (hd rest = CHR ''t'' \<or> hd rest = CHR ''T'') then 1 else 0)), r1)
       else if t = TypeDouble \<or> t = TypeBigNumber then (Ok (strValue t (clone rest)), r1)
       else if t = TypeAttribute then
         rd_bind (readAggregate TypeAttribute rest True r1) (\<lambda>_ r2. readValue r2)
       else (Err ErrProtocol, r1))"
| "readAggregate t lenField isMap r =
     rd_bind (parseInt lenField, r) (\<lambda>n r1.
       if n < 0 then (Ok (nullValue t), r1)
       else let count = aggCount n isMap in
       if count > 1000000 then (Err ErrProtocol, r1)
       else if count < 0 then (Panic, r1)
       else rd_bind (readItems (nat count) r1) (\<lambda>items r2. (Ok (aggValue t items), r2)))"
| "readItems 0 r = (Ok [], r)"
| "readItems (Suc k) r =
     rd_bind (readValue r) (\<lambda>v r1. rd_bind (readItems k r1) (\<lambda>vs r2. (Ok (v # vs), r2)))"
  by pat_completeness auto

text \<open>
  Termination. No call makes the remaining input longer, and a line makes it shorter; the
  input that is left after a nested call is bounded by partial-correctness induction first.
\<close>

lemma rd_bind_shrinks:
  "length (inp (snd m)) \<le> n \<Longrightarrow>
   (\<And>a r. m = (Ok a, r) \<Longrightarrow> length (inp r) \<le> n \<Longrightarrow> length (inp (snd (f a r))) \<le> n) \<Longrightarrow>
   length (inp (snd (rd_bind m f))) \<le> n"
  by (cases "(m, f)" rule: rd_bind.cases) auto

lemma readLine_shrinks: "readLine r = (Ok line, r') \<Longrightarrow> length (inp r') < length (inp r)"
  by (auto simp: readLine_def ReadSlice_def ReadBytes_def rd_bind_Ok Let_def
      split: option.splits if_splits dest!: IndexByte_SomeD)

lemma readLine_le: "length (inp (snd (readLine r))) \<le> length (inp r)"
  unfolding readLine_def
  by (intro rd_bind_shrinks)
     (auto simp: ReadSlice_def ReadBytes_def Let_def split: option.splits if_splits
       dest!: IndexByte_SomeD intro!: rd_bind_shrinks)

lemma readBulk_le: "length (inp (snd (readBulk t f r))) \<le> length (inp r)"
  unfolding readBulk_def
  by (intro rd_bind_shrinks) (auto simp: ReadFull_def Let_def intro!: rd_bind_shrinks)

lemma readers_le:
  "readValue_readAggregate_readItems_dom (Inl r) \<Longrightarrow>
     length (inp (snd (readValue r))) \<le> length (inp r)"
  "readValue_readAggregate_readItems_dom (Inr (Inl (t, f, m, r))) \<Longrightarrow>
     length (inp (snd (readAggregate t f m r))) \<le> length (inp r)"
  "readValue_readAggregate_readItems_dom (Inr (Inr (k, r))) \<Longrightarrow>
     length (inp (snd (readItems k r))) \<le> length (inp r)"
proof (induction r and t f m r and k r rule: readValue_readAggregate_readItems.pinduct)
  case (1 r)
  note dom = "1.hyps" and IH = "1.IH"
  show ?case
    unfolding readValue.psimps [OF dom]
  proof (rule rd_bind_shrinks [OF readLine_le], goal_cases)
    case (1 line r1)
    note IH1 = IH(1-3) [OF 1(1) _ refl refl, THEN order_trans [OF _ 1(2)]]
      and IH2 = IH(4) [OF 1(1) _ refl refl]
    show ?case
      using 1(2) IH1 IH2
      by (auto simp: Let_def intro!: rd_bind_shrinks order_trans [OF readBulk_le] intro: order_trans)
  qed
next
  case (2 t f m r)
  show ?case
    unfolding readAggregate.psimps [OF "2.hyps"]
    using "2.IH" by (fastforce intro!: rd_bind_shrinks simp: Let_def)
next
  case (3 r)
  then show ?case by (simp add: readItems.psimps)
next
  case (4 k r)
  show ?case
    unfolding readItems.psimps(2) [OF "4.hyps"]
    using "4.IH" by (fastforce intro!: rd_bind_shrinks)
qed

termination readValue
proof (relation "measures
    [\<lambda>x. case x of Inl r \<Rightarrow> length (inp r) | Inr (Inl (t, f, m, r)) \<Rightarrow> length (inp r)
        | Inr (Inr (k, r)) \<Rightarrow> length (inp r),
     \<lambda>x. case x of Inl r \<Rightarrow> 0 | Inr (Inl (t, f, m, r)) \<Rightarrow> 1000002
        | Inr (Inr (k, r)) \<Rightarrow> Suc k]", goal_cases)
  case 1
  show ?case by simp
next
  case (5 r a ra x xa aa rb)
  then have "length (inp rb) \<le> length (inp ra)" using readers_le(2) by fastforce
  with 5 show ?case by (auto dest: readLine_shrinks)
next
  case (8 k r a ra)
  then have "length (inp ra) \<le> length (inp r)" using readers_le(1) by fastforce
  then show ?case by auto
qed (auto dest: readLine_shrinks)

declare readValue.simps [simp del] readAggregate.simps [simp del]

definition ReadValue :: "reader \<Rightarrow> Value rd" where
  "ReadValue r =
     (case readValue (r\<lparr>raw := []\<rparr>) of
        (Ok v, r1) \<Rightarrow> (Ok (setRaw v (raw r1)), r1\<lparr>raw := []\<rparr>)
      | (Err e, r1) \<Rightarrow> (Err e, r1\<lparr>raw := []\<rparr>)
      | (Panic, r1) \<Rightarrow> (Panic, r1\<lparr>raw := []\<rparr>))"

section \<open>Command arrays and ASCII helpers\<close>

fun argvElems :: "Value list \<Rightarrow> argv res" where
  "argvElems [] = Ok []"
| "argvElems (el # els) =
     (if vType el = TypeBulkString \<or> vType el = TypeSimpleString
      then res_bind (argvElems els) (\<lambda>a. Ok (vStr el # a))
      else Err ErrProtocol)"

definition ArrayToArgv :: "Value \<Rightarrow> argv res" where
  "ArrayToArgv v =
     (if vType v \<noteq> TypeArray \<or> vNull v then Err ErrProtocol else argvElems (vValues v))"

fun foldLoop :: "bytes \<Rightarrow> bytes \<Rightarrow> bool" where
  "foldLoop (a # as) (b # bs) =
     (let ca = (if 65 \<le> byte_val a \<and> byte_val a \<le> 90 then char_of (byte_val a + 32) else a);
          cb = (if 65 \<le> byte_val b \<and> byte_val b \<le> 90 then char_of (byte_val b + 32) else b)
      in if ca \<noteq> cb then False else foldLoop as bs)"
| "foldLoop _ _ = True"

definition EqualFoldASCII :: "bytes \<Rightarrow> bytes \<Rightarrow> bool" where
  "EqualFoldASCII a b = (if length a \<noteq> length b then False else foldLoop a b)"

definition UpperASCII :: "bytes \<Rightarrow> bytes" where
  "UpperASCII b =
     map (\<lambda>c. if 97 \<le> byte_val c \<and> byte_val c \<le> 122 then char_of (byte_val c - 32) else c) b"

definition HasPrefixFold :: "bytes \<Rightarrow> bytes \<Rightarrow> bool" where
  "HasPrefixFold s p =
     (if length s < length p then False else EqualFoldASCII (take (length p) s) p)"

definition BytesContainsToken :: "bytes \<Rightarrow> bytes \<Rightarrow> bool" where
  "BytesContainsToken s token =
     (if \<not> HasPrefix s token then False
      else if length s = length token then True
      else s ! length token = CHR '' '')"

lemma UpperASCII_map: "UpperASCII b = map upper_byte b"
  by (simp add: UpperASCII_def upper_byte_def)

lemma UpperASCII_idem [simp]: "UpperASCII (UpperASCII b) = UpperASCII b"
  by (simp add: UpperASCII_map comp_def)

lemma foldLoop_iff: "length a = length b \<Longrightarrow> foldLoop a b \<longleftrightarrow> map lower_byte a = map lower_byte b"
  by (induction a b rule: foldLoop.induct) (auto simp: Let_def lower_byte_def)

lemma EqualFoldASCII_iff: "EqualFoldASCII a b \<longleftrightarrow> UpperASCII a = UpperASCII b"
proof (cases "length a = length b")
  case True
  then have "EqualFoldASCII a b \<longleftrightarrow> map lower_byte a = map lower_byte b"
    by (simp add: EqualFoldASCII_def foldLoop_iff)
  also have "\<dots> \<longleftrightarrow> map upper_byte a = map upper_byte b"
    using True by (induction a b rule: list_induct2) (auto simp: lower_eq_iff_upper_eq)
  finally show ?thesis by (simp add: UpperASCII_map)
next
  case False
  then show ?thesis by (auto simp: EqualFoldASCII_def UpperASCII_map dest: map_eq_imp_length_eq)
qed

lemma argvElems_BulkString [simp]: "argvElems (map BulkString a) = Ok a"
  by (induction a) (auto simp: BulkString_def split: option.splits)

lemma ArrayToArgv_CommandArray [simp]: "ArrayToArgv (CommandArray a) = Ok a"
  by (simp add: ArrayToArgv_def CommandArray_def Array_def)

lemma ArrayToArgv_no_Panic: "ArrayToArgv v \<noteq> Panic"
proof -
  have "argvElems vs \<noteq> Panic" for vs
    by (induction vs) (auto simp: res_bind_eq_Panic)
  then show ?thesis by (simp add: ArrayToArgv_def)
qed

section \<open>A value consumes what it records\<close>

text \<open>
  \<open>reads m r u r'\<close>: the call \<open>m\<close> on \<open>r\<close> succeeded, consumed exactly \<open>u\<close> and recorded it.
\<close>

definition consumed :: "reader \<Rightarrow> bytes \<Rightarrow> reader \<Rightarrow> bool" where
  "consumed r u r' \<longleftrightarrow> inp r = u @ inp r' \<and> raw r' = raw r @ u \<and> fin r' = fin r \<and> bufsz r' = bufsz r"

lemma consumed_refl [simp]: "consumed r [] r"
  by (simp add: consumed_def)

lemma consumed_trans: "consumed r u r1 \<Longrightarrow> consumed r1 w r2 \<Longrightarrow> consumed r (u @ w) r2"
  by (simp add: consumed_def)

text \<open>
  The line reader without its two buffer paths: both return the bytes up to and including
  the first line feed, whatever the size of the buffer.
\<close>

lemma readLine_ref:
  "readLine r =
     (case IndexByte (inp r) LF of
        None \<Rightarrow> (Err (fin r), r\<lparr>inp := []\<rparr>)
      | Some i \<Rightarrow>
          (let line = take (Suc i) (inp r);
               r1 = r\<lparr>inp := drop (Suc i) (inp r), raw := raw r @ line\<rparr>
           in if i = 0 \<or> inp r ! (i - 1) \<noteq> CR then (Err ErrProtocol, r1)
              else (Ok (take (i - 1) (inp r)), r1)))"
proof (cases "IndexByte (inp r) LF")
  case None
  then have "IndexByte (drop (bufsz r) (inp r)) LF = None"
    by (metis IndexByte_None in_set_dropD)
  with None show ?thesis
    by (simp add: readLine_def ReadSlice_def ReadBytes_def IndexByte_take)
next
  case (Some i)
  then have i: "i < length (inp r)" by (blast dest: IndexByte_SomeD)
  define L where "L = take (Suc i) (inp r)"
  have len: "length L = Suc i"
    using i by (simp add: L_def)
  have cr: "length L < 2 \<or> L ! (length L - 2) \<noteq> CR \<longleftrightarrow> i = 0 \<or> inp r ! (i - 1) \<noteq> CR"
    using i by (cases i) (auto simp: len L_def)
  have body: "take (length L - 2) L = take (i - 1) (inp r)"
    unfolding len by (simp add: L_def min.absorb1)
  have "readLine r =
      (let r1 = r\<lparr>inp := drop (Suc i) (inp r), raw := raw r @ L\<rparr>
       in if length L < 2 \<or> L ! (length L - 2) \<noteq> CR then (Err ErrProtocol, r1)
          else (Ok (take (length L - 2) L), r1))"
  proof (cases "i < bufsz r")
    case True
    with Some have "ReadSlice r = (Ok (L, False), r\<lparr>inp := drop (Suc i) (inp r)\<rparr>)"
      by (simp add: ReadSlice_def IndexByte_take L_def)
    then show ?thesis by (simp add: readLine_def Let_def)
  next
    case False
    let ?b = "bufsz r" and ?rest = "drop (bufsz r) (inp r)"
    from False Some have "IndexByte (take ?b (inp r)) LF = None"
      by (simp add: IndexByte_take)
    with Some have idx: "IndexByte ?rest LF = Some (i - ?b)"
      by (simp add: IndexByte_None IndexByte_drop)
    have slice: "ReadSlice r = (Ok (take ?b (inp r), True), r\<lparr>inp := ?rest\<rparr>)"
      using False Some i by (simp add: ReadSlice_def IndexByte_take)
    have "drop (Suc (i - ?b)) ?rest = drop (Suc i) (inp r)"
      using False by simp
    with idx have bytes: "ReadBytes (r\<lparr>inp := ?rest\<rparr>) =
        (Ok (take (Suc (i - ?b)) ?rest), r\<lparr>inp := drop (Suc i) (inp r)\<rparr>)"
      by (simp add: ReadBytes_def del: drop_drop)
    have "take ?b (inp r) @ take (Suc (i - ?b)) ?rest = L"
      unfolding L_def using False take_add [of ?b "Suc (i - ?b)" "inp r"]
      by (simp add: not_less)
    then show ?thesis by (simp add: readLine_def Let_def slice bytes)
  qed
  then show ?thesis
    unfolding cr body by (simp add: Some Let_def L_def)
qed

lemma readLine_consumed:
  assumes "readLine r = (Ok line, r')"
  shows "consumed r (line @ CRLF) r'"
proof -
  from assms obtain i where i: "IndexByte (inp r) LF = Some i" "i \<noteq> 0" "inp r ! (i - 1) = CR"
    and line: "line = take (i - 1) (inp r)"
    and r': "r' = r\<lparr>inp := drop (Suc i) (inp r), raw := raw r @ take (Suc i) (inp r)\<rparr>"
    by (auto simp: readLine_ref Let_def split: option.splits if_splits)
  from i(1) have "i < length (inp r)" "inp r ! i = LF" by (auto dest: IndexByte_SomeD)
  with i(2,3) have "take (Suc i) (inp r) = line @ CRLF"
    by (cases i) (auto simp: line take_Suc_conv_app_nth)
  moreover have "inp r = take (Suc i) (inp r) @ drop (Suc i) (inp r)"
    by simp
  ultimately show ?thesis by (simp add: consumed_def r')
qed

lemma readLine_CRLF:
  assumes "LF \<notin> set s" and "inp r = s @ CRLF @ rest"
  shows "readLine r = (Ok s, r\<lparr>inp := rest, raw := raw r @ s @ CRLF\<rparr>)"
proof -
  have "IndexByte (inp r) LF = Some (Suc (length s))"
    using assms IndexByte_append [of LF "s @ [CR]" rest] by simp
  then show ?thesis
    by (simp add: readLine_ref Let_def assms(2) nth_append)
qed

definition consumes :: "'a rd \<Rightarrow> reader \<Rightarrow> bool" where
  "consumes m r \<longleftrightarrow> (\<forall>a r'. m = (Ok a, r') \<longrightarrow> (\<exists>u. consumed r u r'))"

lemma consumes_simps [simp]: "consumes (x, r) r" "consumes (Err e, r') r" "consumes (Panic, r') r"
  by (auto simp: consumes_def intro: consumed_refl)

lemma consumes_bind:
  assumes "consumes m r" and "\<And>a r1. m = (Ok a, r1) \<Longrightarrow> consumes (f a r1) r1"
  shows "consumes (rd_bind m f) r"
  unfolding consumes_def rd_bind_Ok
proof (intro allI impI, elim exE conjE)
  fix b r2 a r1
  assume "m = (Ok a, r1)" and "f a r1 = (Ok b, r2)"
  with assms obtain u w where "consumed r u r1" and "consumed r1 w r2"
    unfolding consumes_def by blast
  then show "\<exists>u. consumed r u r2" by (blast intro: consumed_trans)
qed

lemma consumes_if: "(P \<Longrightarrow> consumes x r) \<Longrightarrow> (\<not> P \<Longrightarrow> consumes y r) \<Longrightarrow> consumes (if P then x else y) r"
  by simp

lemma consumes_readLine: "consumes (readLine r) r"
  by (auto simp: consumes_def dest: readLine_consumed)

lemma consumes_readBulk: "consumes (readBulk t f r) r"
  unfolding consumes_def
proof (intro allI impI)
  fix v r'
  assume "readBulk t f r = (Ok v, r')"
  then consider "r' = r" | n where "r' = r\<lparr>inp := drop n (inp r), raw := raw r @ take n (inp r)\<rparr>"
    by (auto simp: readBulk_def rd_bind_Ok ReadFull_def Let_def split: if_splits)
  then show "\<exists>u. consumed r u r'"
  proof cases
    case 1
    then show ?thesis by (metis consumed_refl)
  next
    case (2 n)
    then have "consumed r (take n (inp r)) r'" by (simp add: consumed_def)
    then show ?thesis by blast
  qed
qed

lemma consumes_readers:
  "consumes (readValue r) r"
  "consumes (readAggregate t f m r) r"
  "consumes (readItems k r) r"
proof (induction r and t f m r and k r rule: readValue_readAggregate_readItems.induct)
  case (1 r)
  show ?case
    unfolding readValue.simps [of r]
  proof (rule consumes_bind [OF consumes_readLine], goal_cases)
    case (1 line r1)
    note IH = "1.IH" [OF 1 _ refl refl]
    show ?case
      unfolding Let_def
      by (intro consumes_if) (auto intro!: consumes_bind consumes_readBulk IH)
  qed
next
  case (2 t f m r)
  show ?case
    unfolding readAggregate.simps [of t f m r]
  proof (rule consumes_bind, goal_cases)
    case (2 n r1)
    show ?case
      unfolding Let_def using "2.IH" [OF 2 _ refl]
      by (intro consumes_if) (use 2 in \<open>auto intro!: consumes_bind\<close>)
  qed simp
next
  case (3 r)
  then show ?case by simp
next
  case (4 k r)
  show ?case
    unfolding readItems.simps
    by (rule consumes_bind [OF "4.IH"(1)], rule consumes_bind [OF "4.IH"(2)]) simp_all
qed

end
