(* ===== verification/Framing.thy ===== *)
theory Framing
  imports Main
begin

text \<open>
  The interface the connections rely on: a codec whose frames can be told apart on a byte
  stream. \<open>decode\<close> reads one frame off the front of the stream; \<open>norm\<close> is
  the value a reader gets back, which may differ from the one written in details the wire
  does not carry. Inside the locale: frames are prefix-free and a pipeline of frames is
  read back one by one, in order, with whatever follows left untouched.
\<close>

locale framed_codec =
  fixes encode :: "'v \<Rightarrow> 'b list"
    and decode :: "'b list \<Rightarrow> ('w \<times> 'b list) option"
    and norm :: "'v \<Rightarrow> 'w"
    and valid :: "'v \<Rightarrow> bool"
  assumes decode_encode: "valid v \<Longrightarrow> decode (encode v @ rest) = Some (norm v, rest)"
    and decode_Nil: "decode [] = None"
begin

primrec decodes :: "nat \<Rightarrow> 'b list \<Rightarrow> ('w list \<times> 'b list) option" where
  "decodes 0 s = Some ([], s)"
| "decodes (Suc n) s =
     (case decode s of
        None \<Rightarrow> None
      | Some (w, s') \<Rightarrow> map_option (\<lambda>(ws, t). (w # ws, t)) (decodes n s'))"

lemma encode_not_Nil: "valid v \<Longrightarrow> encode v \<noteq> []"
  using decode_encode [of v "[]"] decode_Nil by auto

lemma encode_append_inject:
  assumes "valid v" and "valid w" and "encode v @ s = encode w @ t"
  shows "norm v = norm w \<and> s = t"
  using decode_encode [OF assms(1), of s] decode_encode [OF assms(2), of t] assms(3) by simp

lemma decodes_concat:
  assumes "\<forall>v \<in> set vs. valid v"
  shows "decodes (length vs) (concat (map encode vs) @ rest) = Some (map norm vs, rest)"
  using assms by (induction vs) (auto simp: decode_encode)

end

end
