(* ===== verification/Resp_Codec.thy ===== *)
theory Resp_Codec
  imports Resp_Parse Framing
begin

text \<open>
  The codec as a whole: \<open>Encode\<close> of \<open>value.go\<close> against \<open>ReadValue\<close> of
  \<open>parse.go\<close>. \<open>wireable\<close> are the values the encoder writes in a form the reader
  accepts; \<open>canon\<close> is what it reads back (fields a type does not use are cleared, an
  empty line is the nil slice). The two interpretations of \<open>framed_codec\<close> are the
  replies the proxy reads and the commands it writes.
\<close>

section \<open>What can be written and read back\<close>

definition line_type :: "char \<Rightarrow> bool" where
  "line_type t \<longleftrightarrow> t \<in> {TypeSimpleString, TypeError, TypeDouble, TypeBigNumber}"

function wireable :: "Value \<Rightarrow> bool" where
  "wireable (Value t s n vs r z) \<longleftrightarrow>
     r = [] \<and>
     (if line_type t then LF \<notin> set (sl s)
      else if t = TypeInteger then int64 n
      else if t = TypeBulkString then z \<or> length (sl s) \<le> 512 * 1024 * 1024
      else if t = TypeArray \<or> t = TypePush then
        z \<or> (length vs \<le> 1000000 \<and> (\<forall>v \<in> set vs. wireable v))
      else if t = TypeMap then
        even (length vs) \<and> length vs \<le> 1000000 \<and> (\<forall>v \<in> set vs. wireable v)
      else if t = TypeSet then length vs \<le> 1000000 \<and> (\<forall>v \<in> set vs. wireable v)
      else t = TypeNull \<or> t = TypeBoolean)"
  by pat_completeness auto
termination
  by (relation "measure size") (auto simp: size_list_estimation' less_Suc_eq_le)

function canon :: "Value \<Rightarrow> Value" where
  "canon (Value t s n vs r z) =
     (if line_type t then strValue t (clone (sl s))
      else if t = TypeInteger then intValue t n
      else if t = TypeBulkString then (if z then nullValue t else strValue t (Some (sl s)))
      else if t = TypeArray \<or> t = TypePush then
        (if z then nullValue t else aggValue t (map canon vs))
      else if t = TypeMap \<or> t = TypeSet then aggValue t (map canon vs)
      else if t = TypeNull then nullValue t
      else intValue t (if n \<noteq> 0 then 1 else 0))"
  by pat_completeness auto
termination
  by (relation "measure size") (auto simp: size_list_estimation' less_Suc_eq_le)

declare wireable.simps [simp del] canon.simps [simp del]

definition after :: "reader \<Rightarrow> bytes \<Rightarrow> bytes \<Rightarrow> reader" where
  "after r u rest = r\<lparr>inp := rest, raw := raw r @ u\<rparr>"

lemma after_sel [simp]:
  "inp (after r u rest) = rest" "raw (after r u rest) = raw r @ u"
  "fin (after r u rest) = fin r" "bufsz (after r u rest) = bufsz r"
  by (simp_all add: after_def)

lemma after_after [simp]: "after (after r u x) w y = after r (u @ w) y"
  by (simp add: after_def)

lemma readLine_after:
  "LF \<notin> set s \<Longrightarrow> inp r = s @ CRLF @ rest \<Longrightarrow> readLine r = (Ok s, after r (s @ CRLF) rest)"
  by (simp add: readLine_CRLF after_def)

lemma parseInt_AppendInt [simp]: "int64 n \<Longrightarrow> parseInt (AppendInt n) = Ok n"
  by (simp add: parseInt_def)

lemma readBulk_after:
  assumes "length b \<le> 512 * 1024 * 1024" and "inp r = b @ CRLF @ rest"
  shows "readBulk t (AppendInt (int (length b))) r =
    (Ok (strValue t (Some b)), after r (b @ CRLF) rest)"
proof -
  have "int64 (int (length b))" using assms(1) by (simp add: int64_def)
  then show ?thesis using assms
    by (simp add: readBulk_def ReadFull_def Let_def nth_append after_def)
qed

lemma readAggregate_after:
  assumes items: "readItems (length vs) r = (Ok ws, r')"
    and len: "length vs \<le> 1000000" and even: "m \<Longrightarrow> even (length vs)"
  shows "readAggregate t (AppendInt (int (if m then length vs div 2 else length vs))) m r =
    (Ok (aggValue t ws), r')"
proof -
  let ?n = "int (if m then length vs div 2 else length vs)"
  have n: "int64 ?n" using len by (auto simp: int64_def)
  have "int64 (int (length vs))" using len by (simp add: int64_def)
  moreover have "m \<Longrightarrow> ?n * 2 = int (length vs)" using even by auto
  ultimately have "aggCount ?n m = int (length vs)"
    by (cases m) (simp_all add: aggCount_def)
  then show ?thesis using n len items by (simp add: readAggregate.simps Let_def)
qed

lemma readItems_after:
  assumes "\<And>v r rest. v \<in> set vs \<Longrightarrow> inp r = enc v @ rest \<Longrightarrow>
      readValue r = (Ok (canon v), after r (enc v) rest)"
    and "inp r = encs vs @ rest"
  shows "readItems (length vs) r = (Ok (map canon vs), after r (encs vs) rest)"
  using assms
proof (induction vs arbitrary: r)
  case Nil
  then show ?case by (simp add: after_def)
next
  case (Cons v vs)
  from Cons.prems have "readValue r = (Ok (canon v), after r (enc v) (encs vs @ rest))"
    by simp
  moreover have "readItems (length vs) (after r (enc v) (encs vs @ rest)) =
      (Ok (map canon vs), after r (enc v @ encs vs) rest)"
    using Cons.IH [of "after r (enc v) (encs vs @ rest)"] Cons.prems by simp
  ultimately show ?case by simp
qed


lemma readValue_head:
  assumes "readLine r = (Ok (t # body), r1)"
  shows "readValue r =
     (if line_type t then (Ok (strValue t (clone body)), r1)
      else if t = TypeInteger then
        rd_bind (parseInt body, r1) (\<lambda>n r2. (Ok (intValue TypeInteger n), r2))
      else if t = TypeBulkString \<or> t = TypeBlobError \<or> t = TypeVerbatim then
        readBulk t body r1
      else if t = TypeArray \<or> t = TypePush \<or> t = TypeSet then
        readAggregate t body False r1
      else if t = TypeMap then readAggregate TypeMap body True r1
      else if t = TypeNull then (Ok (nullValue TypeNull), r1)
      else if t = TypeBoolean then
        (Ok (intValue TypeBoolean
               (if body \<noteq> [] \<and> (hd body = CHR ''t'' \<or> hd body = CHR ''T'') then 1 else 0)), r1)
      else if t = TypeAttribute then
        rd_bind (readAggregate TypeAttribute body True r1) (\<lambda>_ r2. readValue r2)
      else (Err ErrProtocol, r1))"
  using assms by (simp add: readValue.simps [of r] Let_def line_type_def)

lemma readLine_header:
  assumes "inp r = enc v @ rest" and "enc v = (t # h) @ CRLF @ b" and "LF \<notin> set (t # h)"
  shows "readLine r = (Ok (t # h), after r (t # h @ CRLF) (b @ rest))"
  using readLine_after [of "t # h" r "b @ rest"] assms by simp

lemmas header = readValue_head [OF readLine_header]

lemma AppendInt_m1: "AppendInt (- 1) = ''-1''"
  by (simp add: AppendInt_def nat_dec.simps digit_char_def)

text \<open>Types without elements, by what follows the prefix byte.\<close>

lemma readValue_enc_line:
  assumes "line_type t" and "LF \<notin> set (sl s)" and inp: "inp r = enc (Value t s n vs [] z) @ rest"
  shows "readValue r = (Ok (strValue t (clone (sl s))), after r (enc (Value t s n vs [] z)) rest)"
proof -
  have e: "enc (Value t s n vs [] z) = (t # sl s) @ CRLF @ []"
    using assms(1) by (auto simp: enc_unfold line_type_def)
  have "LF \<notin> set (t # sl s)" using assms(1,2) by (auto simp: line_type_def)
  from header [OF inp e this] e assms(1) show ?thesis by simp
qed

lemma readValue_enc_int:
  assumes "int64 n" and inp: "inp r = enc (Value TypeInteger s n vs [] z) @ rest"
  shows "readValue r = (Ok (intValue TypeInteger n), after r (enc (Value TypeInteger s n vs [] z)) rest)"
proof -
  have e: "enc (Value TypeInteger s n vs [] z) = (TypeInteger # AppendInt n) @ CRLF @ []"
    by (simp add: enc_unfold)
  from header [OF inp e] e assms(1) show ?thesis by (simp add: line_type_def)
qed

lemma readValue_enc_null:
  assumes t: "t \<in> {TypeBulkString, TypeArray, TypePush}"
    and inp: "inp r = enc (Value t s n vs [] True) @ rest"
  shows "readValue r = (Ok (nullValue t), after r (enc (Value t s n vs [] True)) rest)"
proof -
  have e: "enc (Value t s n vs [] True) = (t # AppendInt (- 1)) @ CRLF @ []"
    using t by (auto simp: enc_unfold AppendInt_m1)
  have "LF \<notin> set (t # AppendInt (- 1))" using t by auto
  from header [OF inp e this] e t show ?thesis
    by (auto simp: line_type_def readBulk_def readAggregate.simps int64_def)
qed

lemma readValue_enc_bulk:
  assumes "length (sl s) \<le> 512 * 1024 * 1024"
    and inp: "inp r = enc (Value TypeBulkString s n vs [] False) @ rest"
  shows "readValue r = (Ok (strValue TypeBulkString (Some (sl s))),
    after r (enc (Value TypeBulkString s n vs [] False)) rest)"
proof -
  have e: "enc (Value TypeBulkString s n vs [] False) =
      (TypeBulkString # AppendInt (int (length (sl s)))) @ CRLF @ sl s @ CRLF"
    by (simp add: enc_unfold)
  from header [OF inp e] e assms(1) show ?thesis
    by (simp add: line_type_def readBulk_after)
qed

lemma readValue_enc_const:
  assumes t: "t \<in> {TypeNull, TypeBoolean}" and inp: "inp r = enc (Value t s n vs [] z) @ rest"
  shows "readValue r =
    (Ok (if t = TypeNull then nullValue t else intValue t (if n \<noteq> 0 then 1 else 0)),
     after r (enc (Value t s n vs [] z)) rest)"
proof -
  let ?h = "if t = TypeNull then [] else if n \<noteq> 0 then ''t'' else ''f''"
  have e: "enc (Value t s n vs [] z) = (t # ?h) @ CRLF @ []"
    using t by (auto simp: enc_unfold)
  have "LF \<notin> set (t # ?h)" using t by auto
  from header [OF inp e this] e t show ?thesis by (auto simp: line_type_def)
qed

text \<open>Aggregates, once their elements are known to be read back.\<close>

lemma readValue_enc_agg:
  assumes t: "t \<in> {TypeArray, TypePush, TypeMap, TypeSet}" and z: "t \<in> {TypeArray, TypePush} \<Longrightarrow> \<not> z"
    and len: "length vs \<le> 1000000" and even: "t = TypeMap \<Longrightarrow> even (length vs)"
    and inp: "inp r = enc (Value t s n vs [] z) @ rest"
    and items: "\<And>r1. inp r1 = encs vs @ rest \<Longrightarrow>
      readItems (length vs) r1 = (Ok (map canon vs), after r1 (encs vs) rest)"
  shows "readValue r = (Ok (aggValue t (map canon vs)), after r (enc (Value t s n vs [] z)) rest)"
proof -
  let ?h = "AppendInt (int (if t = TypeMap then length vs div 2 else length vs))"
  let ?r1 = "after r (t # ?h @ CRLF) (encs vs @ rest)"
  have e: "enc (Value t s n vs [] z) = (t # ?h) @ CRLF @ encs vs"
    using t z by (auto simp: enc_unfold)
  have lf: "LF \<notin> set (t # ?h)" using t by auto
  have "readItems (length vs) ?r1 = (Ok (map canon vs), after ?r1 (encs vs) rest)"
    by (rule items) simp
  from readAggregate_after [OF this len even]
  have agg: "readAggregate t ?h (t = TypeMap) ?r1 = (Ok (aggValue t (map canon vs)), after ?r1 (encs vs) rest)" .
  have "readValue r = readAggregate t ?h (t = TypeMap) ?r1"
    unfolding header [OF inp e lf] using t by (auto simp: line_type_def)
  with agg e show ?thesis by simp
qed

lemma readValue_enc:
  "wireable v \<Longrightarrow> inp r = enc v @ rest \<Longrightarrow> readValue r = (Ok (canon v), after r (enc v) rest)"
proof (induction v arbitrary: r rest)
  case (Value t s n vs ra z)
  note wf = Value.prems(1) [unfolded wireable.simps]
  then have raw: "ra = []" by simp
  note inp = Value.prems(2) [unfolded raw]
  have items: "readItems (length vs) r1 = (Ok (map canon vs), after r1 (encs vs) rest)"
    if "\<forall>v \<in> set vs. wireable v" and "inp r1 = encs vs @ rest" for r1
    by (rule readItems_after) (use that Value.IH in auto)
  consider "line_type t" | "t = TypeInteger" | "t = TypeBulkString" "\<not> z"
    | "t \<in> {TypeBulkString, TypeArray, TypePush}" "z" | "t \<in> {TypeArray, TypePush}" "\<not> z"
    | "t \<in> {TypeMap, TypeSet}" | "t \<in> {TypeNull, TypeBoolean}"
    using wf by (auto split: if_splits)
  then show ?case
  proof cases
    case 1
    then show ?thesis using readValue_enc_line [OF 1 _ inp] wf by (simp add: raw canon.simps)
  next
    case 2
    then show ?thesis using readValue_enc_int inp wf by (simp add: raw canon.simps line_type_def)
  next
    case 3
    then show ?thesis using readValue_enc_bulk inp wf by (simp add: raw canon.simps line_type_def)
  next
    case 4
    then show ?thesis using readValue_enc_null [of t] inp by (auto simp: raw canon.simps line_type_def)
  next
    case 5
    then have wfs: "\<forall>v \<in> set vs. wireable v" "length vs \<le> 1000000"
      using wf by (auto simp: line_type_def)
    show ?thesis
      unfolding raw by (subst readValue_enc_agg [OF _ _ wfs(2) _ inp items [OF wfs(1)]])
        (use 5 in \<open>auto simp: canon.simps line_type_def\<close>)
  next
    case 6
    then have wfs: "\<forall>v \<in> set vs. wireable v" "length vs \<le> 1000000" "t = TypeMap \<Longrightarrow> even (length vs)"
      using wf by (auto simp: line_type_def)
    show ?thesis
      unfolding raw by (subst readValue_enc_agg [OF _ _ wfs(2) wfs(3) inp items [OF wfs(1)]])
        (use 6 in \<open>auto simp: canon.simps line_type_def\<close>)
  next
    case 7
    then show ?thesis using readValue_enc_const [OF 7 inp] by (auto simp: raw canon.simps line_type_def)
  qed
qed

end
