(* ===== verification/Resp_Frames.thy ===== *)
theory Resp_Frames
  imports Resp_Codec
begin

text \<open>
  \<open>ReadValue\<close> on the stream: what a call consumes, the two framings the connections use
  (replies and commands) as interpretations of \<open>framed_codec\<close>, and when the reader panics.
\<close>

section \<open>\<open>ReadValue\<close>\<close>

lemma ReadValue_Ok_iff:
  "ReadValue r = (Ok v, r') \<longleftrightarrow>
     (\<exists>w r1. readValue (r\<lparr>raw := []\<rparr>) = (Ok w, r1) \<and> v = setRaw w (raw r1) \<and> r' = r1\<lparr>raw := []\<rparr>)"
  by (auto simp: ReadValue_def split: prod.splits res.splits)

lemma readValue_consumed:
  assumes "readValue r = (Ok v, r')"
  shows "\<exists>u. u \<noteq> [] \<and> consumed r u r'"
proof -
  obtain line r1 where line: "readLine r = (Ok line, r1)"
    using assms unfolding readValue.simps [of r] rd_bind_Ok by blast
  have "line \<noteq> []"
    using assms line by (auto simp: readValue.simps [of r])
  with line obtain t body where l: "readLine r = (Ok (t # body), r1)"
    by (cases line) auto
  have "consumes (readValue r) r1"
    unfolding readValue_head [OF l]
    by (intro consumes_if consumes_bind consumes_readers consumes_readBulk) simp_all
  then obtain w where "consumed r1 w r'"
    by (auto simp: consumes_def assms)
  from consumed_trans [OF readLine_consumed [OF l] this] show ?thesis
    by auto
qed

lemma ReadValue_raw:
  assumes "ReadValue r = (Ok v, r')"
  shows "inp r = vRaw v @ inp r' \<and> vRaw v \<noteq> []"
proof -
  from assms obtain w r1 where w: "readValue (r\<lparr>raw := []\<rparr>) = (Ok w, r1)"
    and v: "v = setRaw w (raw r1)" "r' = r1\<lparr>raw := []\<rparr>"
    by (auto simp: ReadValue_Ok_iff)
  from readValue_consumed [OF w] show ?thesis by (auto simp: v consumed_def)
qed

lemma ReadValue_enc:
  assumes "wireable v" and "inp r = enc v @ rest"
  shows "ReadValue r = (Ok (setRaw (canon v) (enc v)), r\<lparr>inp := rest, raw := []\<rparr>)"
  using readValue_enc [OF assms(1), of "r\<lparr>raw := []\<rparr>" rest] assms(2)
  by (simp add: ReadValue_def after_def)

definition wf_argv :: "argv \<Rightarrow> bool" where
  "wf_argv a \<longleftrightarrow> length a \<le> 1000000 \<and> (\<forall>x \<in> set a. length (sl x) \<le> 512 * 1024 * 1024)"

lemma wireable_CommandArray: "wf_argv a \<Longrightarrow> wireable (CommandArray a)"
  by (auto simp: CommandArray_def Array_def wf_argv_def wireable.simps line_type_def BulkString_def
      split: option.splits)

lemma canon_CommandArray: "canon (CommandArray a) = CommandArray a"
  by (auto simp: CommandArray_def Array_def canon.simps line_type_def BulkString_def
      split: option.splits)

lemma ArrayToArgv_setRaw [simp]: "ArrayToArgv (setRaw v b) = ArrayToArgv v"
  by (simp add: ArrayToArgv_def)


lemma ReadValue_EncodeCommand:
  assumes "wf_argv a" and "inp r = EncodeCommand [] a @ rest"
  shows "ReadValue r =
    (Ok (setRaw (CommandArray a) (EncodeCommand [] a)), r\<lparr>inp := rest, raw := []\<rparr>)"
  using ReadValue_enc [OF wireable_CommandArray [OF assms(1)]] assms(2)
  by (simp add: canon_CommandArray EncodeCommand_def)

section \<open>The two framings\<close>

definition decodeValue :: "bytes \<Rightarrow> (Value \<times> bytes) option" where
  "decodeValue bs =
     (case ReadValue (NewReader bs EOF) of (Ok v, r) \<Rightarrow> Some (v, inp r) | _ \<Rightarrow> None)"

definition decodeCommand :: "bytes \<Rightarrow> (argv \<times> bytes) option" where
  "decodeCommand bs =
     (case ReadValue (NewReader bs EOF) of
        (Ok v, r) \<Rightarrow> (case ArrayToArgv v of Ok a \<Rightarrow> Some (a, inp r) | _ \<Rightarrow> None)
      | _ \<Rightarrow> None)"

lemma ReadValue_NewReader_Nil: "\<exists>e r. ReadValue (NewReader [] EOF) = (Err e, r)"
  by (simp add: ReadValue_def readValue.simps readLine_ref NewReader_def NewReaderSize_def)

interpretation reply: framed_codec enc decodeValue "\<lambda>v. setRaw (canon v) (enc v)" wireable
proof unfold_locales
  fix v rest
  assume "wireable v"
  then show "decodeValue (enc v @ rest) = Some (setRaw (canon v) (enc v), rest)"
    by (simp add: decodeValue_def ReadValue_enc NewReader_def NewReaderSize_def)
next
  show "decodeValue [] = None"
    using ReadValue_NewReader_Nil by (auto simp: decodeValue_def)
qed

interpretation cmd: framed_codec "EncodeCommand []" decodeCommand "\<lambda>a. a" wf_argv
proof unfold_locales
  fix a rest
  assume "wf_argv a"
  then show "decodeCommand (EncodeCommand [] a @ rest) = Some (a, rest)"
    by (simp add: decodeCommand_def ReadValue_EncodeCommand NewReader_def NewReaderSize_def)
next
  show "decodeCommand [] = None"
    using ReadValue_NewReader_Nil by (auto simp: decodeCommand_def)
qed

section \<open>Panics\<close>

lemma aggCount_overflow: "2 ^ 62 \<le> n \<Longrightarrow> n < 2 ^ 63 \<Longrightarrow> aggCount n True < 0"
proof -
  assume "2 ^ 62 \<le> n" and "n < 2 ^ 63"
  have "(n * 2 + 2 ^ 63) mod 2 ^ 64 = ((n * 2 - 2 ^ 63) + 2 ^ 64) mod (2 ^ 64 :: int)"
    by (simp add: add.commute)
  also have "\<dots> = n * 2 - 2 ^ 63"
    unfolding mod_add_self2 using \<open>2 ^ 62 \<le> n\<close> \<open>n < 2 ^ 63\<close> by (intro mod_pos_pos_trivial) auto
  finally have "(n * 2 + 2 ^ 63) mod 2 ^ 64 = n * 2 - (2 ^ 63 :: int)" .
  with \<open>n < 2 ^ 63\<close> show ?thesis by (simp add: aggCount_def wrap64_def)
qed

definition no_map :: "bytes \<Rightarrow> bool" where
  "no_map s \<longleftrightarrow> TypeMap \<notin> set s \<and> TypeAttribute \<notin> set s"

lemma no_map_consumes: "consumes m r \<Longrightarrow> m = (Ok a, r') \<Longrightarrow> no_map (inp r) \<Longrightarrow> no_map (inp r')"
  by (auto simp: consumes_def consumed_def no_map_def)

lemma rd_bind_no_panic:
  "fst m \<noteq> Panic \<Longrightarrow> (\<And>a r. m = (Ok a, r) \<Longrightarrow> fst (f a r) \<noteq> Panic) \<Longrightarrow> fst (rd_bind m f) \<noteq> Panic"
  by (cases "(m, f)" rule: rd_bind.cases) auto


lemma readLine_no_panic: "fst (readLine r) \<noteq> Panic"
  by (auto simp: readLine_ref Let_def split: option.splits)

lemma parseInt_no_panic: "parseInt b \<noteq> Panic"
  by (auto simp: parseInt_def split: option.splits)

lemma readBulk_no_panic: "fst (readBulk t f r) \<noteq> Panic"
  unfolding readBulk_def
  by (intro rd_bind_no_panic) (auto simp: parseInt_no_panic ReadFull_def Let_def intro!: rd_bind_no_panic)

lemma no_panic_if: "(P \<Longrightarrow> fst x \<noteq> Panic) \<Longrightarrow> (\<not> P \<Longrightarrow> fst y \<noteq> Panic) \<Longrightarrow> fst (if P then x else y) \<noteq> Panic"
  by simp

lemma readers_no_panic:
  "no_map (inp r) \<Longrightarrow> fst (readValue r) \<noteq> Panic"
  "no_map (inp r) \<Longrightarrow> m = False \<Longrightarrow> fst (readAggregate t f m r) \<noteq> Panic"
  "no_map (inp r) \<Longrightarrow> fst (readItems k r) \<noteq> Panic"
proof (induction r and t f m r and k r rule: readValue_readAggregate_readItems.induct)
  case (1 r)
  show ?case
    unfolding readValue.simps [of r]
  proof (rule rd_bind_no_panic [OF readLine_no_panic], goal_cases)
    case (1 line r1)
    then have "consumed r (line @ CRLF) r1" by (rule readLine_consumed)
    with "1.prems" have nm: "no_map (inp r1)" "line \<noteq> [] \<Longrightarrow> hd line \<noteq> TypeMap \<and> hd line \<noteq> TypeAttribute"
      by (cases line; auto simp: consumed_def no_map_def)+
    note IH = "1.IH"(1) [OF 1 _ refl refl _ _ _ _ _ nm(1) refl]
    show ?case
      unfolding Let_def
      by (intro no_panic_if rd_bind_no_panic readBulk_no_panic IH)
         (use nm(2) in \<open>auto simp: parseInt_no_panic\<close>)
  qed
next
  case (2 t f m r)
  show ?case
    unfolding readAggregate.simps [of t f m r] Let_def
  proof (rule rd_bind_no_panic, goal_cases)
    case (2 n r1)
    note IH = "2.IH" [OF 2 _ refl]
    show ?case
      by (intro no_panic_if rd_bind_no_panic IH) (use 2 "2.prems" in \<open>auto simp: aggCount_def\<close>)
  qed (simp add: parseInt_no_panic)
next
  case (3 r)
  then show ?case by simp
next
  case (4 k r)
  show ?case
    unfolding readItems.simps
    by (rule rd_bind_no_panic [OF "4.IH"(1) [OF "4.prems"]], rule rd_bind_no_panic [OF "4.IH"(2)])
       (auto intro: no_map_consumes [OF consumes_readers(1) _ "4.prems"])
qed


section \<open>Properties\<close>

lemmas read_eval =
  ReadValue_def readValue.simps readAggregate.simps readLine_ref readBulk_def ReadFull_def
  NewReader_def NewReaderSize_def parseInt_def ParseInt_def ParseUint_def is_digit_def clone_def
  aggCount_def

text \<open>
  C18. Transparent forwarding. When \<open>ReadValue\<close> returns a value, the bytes taken off the
  stream are exactly the value's \<open>Raw\<close>, which is never empty, and encoding the value again
  appends exactly these bytes: a reply that is passed on unchanged is passed on byte for byte.
\<close>

theorem ReadValue_forwards_wire_bytes:
  assumes "ReadValue r = (Ok v, r')"
  shows "inp r = vRaw v @ inp r' \<and> vRaw v \<noteq> [] \<and> Encode buf v = buf @ vRaw v"
  using ReadValue_raw [OF assms] Encode_append [of buf v] enc_raw [of v] by simp

theorem ReadValue_forwards_wire_bytes_witness:
  "\<exists>v r'. ReadValue (NewReader (''+OK'' @ CRLF @ '':7'' @ CRLF) EOF) = (Ok v, r')
     \<and> Encode ''x'' v = ''x+OK'' @ CRLF"
proof -
  let ?r = "NewReader (''+OK'' @ CRLF @ '':7'' @ CRLF) EOF"
  obtain v r' where v: "ReadValue ?r = (Ok v, r')" and raw: "vRaw v = ''+OK'' @ CRLF"
    by (simp add: read_eval)
  from ReadValue_forwards_wire_bytes [OF v, of "''x''"] raw v show ?thesis by simp
qed

text \<open>
  C19. Commands survive the wire, pipelined. Writing any number of commands back to back
  with \<open>EncodeCommand\<close> and reading them with \<open>ReadValue\<close> and \<open>ArrayToArgv\<close> returns the same
  commands in the same order, nil arguments told from empty ones, and leaves what follows on
  the stream. The only limits are the reader's: a million arguments, 512 MB each.
\<close>

theorem commands_survive_pipelining:
  assumes "\<forall>a \<in> set cmds. wf_argv a"
  shows "cmd.decodes (length cmds) (concat (map (EncodeCommand []) cmds) @ rest) = Some (cmds, rest)"
  using cmd.decodes_concat [OF assms, of rest] by simp

theorem commands_survive_pipelining_witness:
  "cmd.decodes 2 (EncodeCommand [] [Some ''GET'', Some ''k''] @ EncodeCommand [] [Some ''PING'', None] @ ''x'')
     = Some ([[Some ''GET'', Some ''k''], [Some ''PING'', None]], ''x'')"
  using commands_survive_pipelining [of "[[Some ''GET'', Some ''k''], [Some ''PING'', None]]" "''x''"]
  by (simp add: wf_argv_def numeral_2_eq_2)

text \<open>
  C20. Replies survive re-encoding. A value the proxy builds or takes apart (no \<open>Raw\<close>) is read
  back from its encoding as the same value up to unused fields, for every type the encoder
  writes with its length: strings and errors of one line, integers, bulk strings, arrays,
  pushes, maps, sets, nulls, booleans, doubles and big numbers, nested to any depth, whatever
  the size of the read buffer.
\<close>

theorem reply_roundtrip:
  assumes "wireable v" and "inp r = Encode [] v @ rest"
  shows "ReadValue r = (Ok (setRaw (canon v) (Encode [] v)), r\<lparr>inp := rest, raw := []\<rparr>)"
  using assms by (rule ReadValue_enc)

theorem reply_roundtrip_witness:
  "ReadValue (NewReader (Encode [] (Array [Integer 5, NullBulk, BulkString (Some ''ab'')]) @ ''z'') EOF) =
     (Ok (setRaw (Array [Integer 5, NullBulk, BulkString (Some ''ab'')])
            (Encode [] (Array [Integer 5, NullBulk, BulkString (Some ''ab'')]))),
      NewReader ''z'' EOF)"
proof -
  let ?v = "Array [Integer 5, NullBulk, BulkString (Some ''ab'')]"
  have w: "wireable ?v"
    by (simp add: value_defs wireable.simps line_type_def int64_def)
  have c: "canon ?v = ?v"
    by (simp add: value_defs canon.simps line_type_def)
  show ?thesis
    using reply_roundtrip [OF w, of "NewReader (Encode [] ?v @ ''z'') EOF" "''z''"] c
    by (simp add: NewReader_def NewReaderSize_def)
qed

text \<open>
  C21. A map or attribute header can crash the process. The doubled length of a header
  announcing \<open>2^62\<close> to \<open>2^63 - 1\<close> pairs wraps around to a negative number, which passes the
  guard of one million elements, and allocating a slice of negative length panics: any client
  can send such a header as its first bytes.
\<close>

theorem map_header_overflow_panics:
  assumes "2 ^ 62 \<le> n" and "n < 2 ^ 63" and "t = TypeMap \<or> t = TypeAttribute"
    and "inp r = t # AppendInt n @ CRLF @ rest"
  shows "fst (ReadValue r) = Panic"
proof -
  let ?r = "r\<lparr>raw := []\<rparr>"
  have i: "int64 n" using assms(1,2) by (simp add: int64_def)
  have l: "readLine ?r = (Ok (t # AppendInt n), after ?r ((t # AppendInt n) @ CRLF) rest)"
    by (rule readLine_after) (use assms(3,4) in auto)
  have "fst (readValue ?r) = Panic"
    unfolding readValue_head [OF l]
    using assms(1,2,3) aggCount_overflow [OF assms(1,2)] i
    by (auto simp: line_type_def readAggregate.simps)
  then show ?thesis by (auto simp: ReadValue_def split: prod.splits res.splits)
qed

theorem map_header_overflow_panics_witness:
  "fst (ReadValue (NewReader (CHR ''%'' # AppendInt (2 ^ 62) @ CRLF) EOF)) = Panic"
  by (rule map_header_overflow_panics [of "2 ^ 62" "CHR ''%''" _ "[]"])
     (simp_all add: NewReader_def NewReaderSize_def)

text \<open>
  C22. Nothing else in the reader panics. On a stream without the two prefix bytes of maps and
  attributes, whatever the bytes are, \<open>ReadValue\<close> returns a value or an error.
\<close>

theorem ReadValue_no_panic:
  assumes "TypeMap \<notin> set (inp r)" and "TypeAttribute \<notin> set (inp r)"
  shows "fst (ReadValue r) \<noteq> Panic"
proof -
  have "fst (readValue (r\<lparr>raw := []\<rparr>)) \<noteq> Panic"
    by (rule readers_no_panic) (use assms in \<open>simp add: no_map_def\<close>)
  then show ?thesis by (auto simp: ReadValue_def split: prod.splits res.splits)
qed

theorem ReadValue_no_panic_witness: "fst (ReadValue (NewReader ''*3$$-x'' EOF)) \<noteq> Panic"
  by (rule ReadValue_no_panic) (simp_all add: NewReader_def NewReaderSize_def)

text \<open>
  A verbatim string (and in the same way a blob error) that lost its \<open>Raw\<close>, as an element of
  a rebuilt array has, is written without its length, and the reader rejects it.
\<close>

lemma verbatim_reencoding_rejected:
  "fst (ReadValue (NewReader (Encode [] (strValue TypeVerbatim (Some ''txt:hi''))) EOF)) = Err ErrProtocol"
  by (simp add: enc_unfold read_eval)

end
