(* ===== verification/Command_Table.thy ===== *)
theory Command_Table
  imports Resp_Parse
begin

text \<open>
  The static command table (\<open>internal/command/table.go\<close> and the types of
  \<open>internal/command/command.go\<close>). The Go map literal is the association list \<open>table\<close>, in
  the groups of the source; an entry with no \<open>Keys\<close> has the zero \<open>KeySpec\<close>. The
  well-formedness lemma states what the routing code relies on: names are
  upper case and equal to the map key, and every key position is positive.
\<close>

datatype Kind =
    KindUnknown | KindRead | KindWrite | KindBlock | KindPubSub | KindTxn | KindScript
  | KindConnection | KindAdmin

datatype Fanout = FanoutNone | FanoutSum | FanoutMGet | FanoutMSet

record KeySpec =
  First :: int
  Last :: int
  Step :: int

record Meta =
  mName :: string
  mKind :: Kind
  mKeys :: KeySpec
  mFanout :: Fanout

definition spec :: "int \<Rightarrow> int \<Rightarrow> int \<Rightarrow> KeySpec" where
  "spec f l st = \<lparr>First = f, Last = l, Step = st\<rparr>"

abbreviation meta :: "string \<Rightarrow> Kind \<Rightarrow> KeySpec \<Rightarrow> Fanout \<Rightarrow> Meta" where
  "meta n k s f \<equiv> \<lparr>mName = n, mKind = k, mKeys = s, mFanout = f\<rparr>"

definition table_strings :: "(string \<times> Meta) list" where
  "table_strings = [
     (''GET'', meta ''GET'' KindRead (spec 1 1 1) FanoutNone),
     (''SET'', meta ''SET'' KindWrite (spec 1 1 1) FanoutNone),
     (''SETNX'', meta ''SETNX'' KindWrite (spec 1 1 1) FanoutNone),
     (''SETEX'', meta ''SETEX'' KindWrite (spec 1 1 1) FanoutNone),
     (''PSETEX'', meta ''PSETEX'' KindWrite (spec 1 1 1) FanoutNone),
     (''GETSET'', meta ''GETSET'' KindWrite (spec 1 1 1) FanoutNone),
     (''GETDEL'', meta ''GETDEL'' KindWrite (spec 1 1 1) FanoutNone),
     (''GETEX'', meta ''GETEX'' KindWrite (spec 1 1 1) FanoutNone),
     (''MGET'', meta ''MGET'' KindRead (spec 1 (-1) 1) FanoutMGet),
     (''MSET'', meta ''MSET'' KindWrite (spec 1 (-1) 2) FanoutMSet),
     (''MSETNX'', meta ''MSETNX'' KindWrite (spec 1 (-1) 2) FanoutNone),
     (''APPEND'', meta ''APPEND'' KindWrite (spec 1 1 1) FanoutNone),
     (''STRLEN'', meta ''STRLEN'' KindRead (spec 1 1 1) FanoutNone),
     (''INCR'', meta ''INCR'' KindWrite (spec 1 1 1) FanoutNone),
     (''DECR'', meta ''DECR'' KindWrite (spec 1 1 1) FanoutNone),
     (''INCRBY'', meta ''INCRBY'' KindWrite (spec 1 1 1) FanoutNone),
     (''DECRBY'', meta ''DECRBY'' KindWrite (spec 1 1 1) FanoutNone),
     (''INCRBYFLOAT'', meta ''INCRBYFLOAT'' KindWrite (spec 1 1 1) FanoutNone),
     (''GETRANGE'', meta ''GETRANGE'' KindRead (spec 1 1 1) FanoutNone),
     (''SETRANGE'', meta ''SETRANGE'' KindWrite (spec 1 1 1) FanoutNone),
     (''SETBIT'', meta ''SETBIT'' KindWrite (spec 1 1 1) FanoutNone),
     (''GETBIT'', meta ''GETBIT'' KindRead (spec 1 1 1) FanoutNone),
     (''BITCOUNT'', meta ''BITCOUNT'' KindRead (spec 1 1 1) FanoutNone),
     (''BITPOS'', meta ''BITPOS'' KindRead (spec 1 1 1) FanoutNone),
     (''BITOP'', meta ''BITOP'' KindWrite (spec 2 (-1) 1) FanoutNone),
     (''BITFIELD'', meta ''BITFIELD'' KindWrite (spec 1 1 1) FanoutNone),
     (''SUBSTR'', meta ''SUBSTR'' KindRead (spec 1 1 1) FanoutNone)]"

definition table_keys :: "(string \<times> Meta) list" where
  "table_keys = [
     (''DEL'', meta ''DEL'' KindWrite (spec 1 (-1) 1) FanoutSum),
     (''UNLINK'', meta ''UNLINK'' KindWrite (spec 1 (-1) 1) FanoutSum),
     (''EXISTS'', meta ''EXISTS'' KindRead (spec 1 (-1) 1) FanoutSum),
     (''EXPIRE'', meta ''EXPIRE'' KindWrite (spec 1 1 1) FanoutNone),
     (''EXPIREAT'', meta ''EXPIREAT'' KindWrite (spec 1 1 1) FanoutNone),
     (''PEXPIRE'', meta ''PEXPIRE'' KindWrite (spec 1 1 1) FanoutNone),
     (''PEXPIREAT'', meta ''PEXPIREAT'' KindWrite (spec 1 1 1) FanoutNone),
     (''TTL'', meta ''TTL'' KindRead (spec 1 1 1) FanoutNone),
     (''PTTL'', meta ''PTTL'' KindRead (spec 1 1 1) FanoutNone),
     (''TYPE'', meta ''TYPE'' KindRead (spec 1 1 1) FanoutNone),
     (''PERSIST'', meta ''PERSIST'' KindWrite (spec 1 1 1) FanoutNone),
     (''RENAME'', meta ''RENAME'' KindWrite (spec 1 2 1) FanoutNone),
     (''RENAMENX'', meta ''RENAMENX'' KindWrite (spec 1 2 1) FanoutNone),
     (''DUMP'', meta ''DUMP'' KindRead (spec 1 1 1) FanoutNone),
     (''RESTORE'', meta ''RESTORE'' KindWrite (spec 1 1 1) FanoutNone),
     (''TOUCH'', meta ''TOUCH'' KindWrite (spec 1 (-1) 1) FanoutSum),
     (''COPY'', meta ''COPY'' KindWrite (spec 1 2 1) FanoutNone),
     (''MOVE'', meta ''MOVE'' KindWrite (spec 1 1 1) FanoutNone),
     (''OBJECT'', meta ''OBJECT'' KindRead (spec 2 2 1) FanoutNone),
     (''EXPIRETIME'', meta ''EXPIRETIME'' KindRead (spec 1 1 1) FanoutNone),
     (''PEXPIRETIME'', meta ''PEXPIRETIME'' KindRead (spec 1 1 1) FanoutNone)]"

definition table_hashes :: "(string \<times> Meta) list" where
  "table_hashes = [
     (''HGET'', meta ''HGET'' KindRead (spec 1 1 1) FanoutNone),
     (''HSET'', meta ''HSET'' KindWrite (spec 1 1 1) FanoutNone),
     (''HSETNX'', meta ''HSETNX'' KindWrite (spec 1 1 1) FanoutNone),
     (''HMGET'', meta ''HMGET'' KindRead (spec 1 1 1) FanoutNone),
     (''HMSET'', meta ''HMSET'' KindWrite (spec 1 1 1) FanoutNone),
     (''HDEL'', meta ''HDEL'' KindWrite (spec 1 1 1) FanoutNone),
     (''HEXISTS'', meta ''HEXISTS'' KindRead (spec 1 1 1) FanoutNone),
     (''HGETALL'', meta ''HGETALL'' KindRead (spec 1 1 1) FanoutNone),
     (''HINCRBY'', meta ''HINCRBY'' KindWrite (spec 1 1 1) FanoutNone),
     (''HINCRBYFLOAT'', meta ''HINCRBYFLOAT'' KindWrite (spec 1 1 1) FanoutNone),
     (''HKEYS'', meta ''HKEYS'' KindRead (spec 1 1 1) FanoutNone),
     (''HVALS'', meta ''HVALS'' KindRead (spec 1 1 1) FanoutNone),
     (''HLEN'', meta ''HLEN'' KindRead (spec 1 1 1) FanoutNone),
     (''HSCAN'', meta ''HSCAN'' KindRead (spec 1 1 1) FanoutNone),
     (''HSTRLEN'', meta ''HSTRLEN'' KindRead (spec 1 1 1) FanoutNone),
     (''HRANDFIELD'', meta ''HRANDFIELD'' KindRead (spec 1 1 1) FanoutNone)]"

definition table_lists :: "(string \<times> Meta) list" where
  "table_lists = [
     (''LPUSH'', meta ''LPUSH'' KindWrite (spec 1 1 1) FanoutNone),
     (''RPUSH'', meta ''RPUSH'' KindWrite (spec 1 1 1) FanoutNone),
     (''LPUSHX'', meta ''LPUSHX'' KindWrite (spec 1 1 1) FanoutNone),
     (''RPUSHX'', meta ''RPUSHX'' KindWrite (spec 1 1 1) FanoutNone),
     (''LPOP'', meta ''LPOP'' KindWrite (spec 1 1 1) FanoutNone),
     (''RPOP'', meta ''RPOP'' KindWrite (spec 1 1 1) FanoutNone),
     (''LLEN'', meta ''LLEN'' KindRead (spec 1 1 1) FanoutNone),
     (''LINDEX'', meta ''LINDEX'' KindRead (spec 1 1 1) FanoutNone),
     (''LRANGE'', meta ''LRANGE'' KindRead (spec 1 1 1) FanoutNone),
     (''LSET'', meta ''LSET'' KindWrite (spec 1 1 1) FanoutNone),
     (''LTRIM'', meta ''LTRIM'' KindWrite (spec 1 1 1) FanoutNone),
     (''LREM'', meta ''LREM'' KindWrite (spec 1 1 1) FanoutNone),
     (''LINSERT'', meta ''LINSERT'' KindWrite (spec 1 1 1) FanoutNone),
     (''LMOVE'', meta ''LMOVE'' KindWrite (spec 1 2 1) FanoutNone),
     (''RPOPLPUSH'', meta ''RPOPLPUSH'' KindWrite (spec 1 2 1) FanoutNone),
     (''LMPOP'', meta ''LMPOP'' KindWrite (spec 0 0 0) FanoutNone),
     (''BLPOP'', meta ''BLPOP'' KindBlock (spec 1 (-2) 1) FanoutNone),
     (''BRPOP'', meta ''BRPOP'' KindBlock (spec 1 (-2) 1) FanoutNone),
     (''BRPOPLPUSH'', meta ''BRPOPLPUSH'' KindBlock (spec 1 2 1) FanoutNone),
     (''BLMOVE'', meta ''BLMOVE'' KindBlock (spec 1 2 1) FanoutNone),
     (''BLMPOP'', meta ''BLMPOP'' KindBlock (spec 0 0 0) FanoutNone),
     (''LPOS'', meta ''LPOS'' KindRead (spec 1 1 1) FanoutNone)]"

definition table_sets :: "(string \<times> Meta) list" where
  "table_sets = [
     (''SADD'', meta ''SADD'' KindWrite (spec 1 1 1) FanoutNone),
     (''SREM'', meta ''SREM'' KindWrite (spec 1 1 1) FanoutNone),
     (''SMEMBERS'', meta ''SMEMBERS'' KindRead (spec 1 1 1) FanoutNone),
     (''SISMEMBER'', meta ''SISMEMBER'' KindRead (spec 1 1 1) FanoutNone),
     (''SMISMEMBER'', meta ''SMISMEMBER'' KindRead (spec 1 1 1) FanoutNone),
     (''SCARD'', meta ''SCARD'' KindRead (spec 1 1 1) FanoutNone),
     (''SPOP'', meta ''SPOP'' KindWrite (spec 1 1 1) FanoutNone),
     (''SRANDMEMBER'', meta ''SRANDMEMBER'' KindRead (spec 1 1 1) FanoutNone),
     (''SMOVE'', meta ''SMOVE'' KindWrite (spec 1 2 1) FanoutNone),
     (''SINTER'', meta ''SINTER'' KindRead (spec 1 (-1) 1) FanoutNone),
     (''SINTERSTORE'', meta ''SINTERSTORE'' KindWrite (spec 1 (-1) 1) FanoutNone),
     (''SUNION'', meta ''SUNION'' KindRead (spec 1 (-1) 1) FanoutNone),
     (''SUNIONSTORE'', meta ''SUNIONSTORE'' KindWrite (spec 1 (-1) 1) FanoutNone),
     (''SDIFF'', meta ''SDIFF'' KindRead (spec 1 (-1) 1) FanoutNone),
     (''SDIFFSTORE'', meta ''SDIFFSTORE'' KindWrite (spec 1 (-1) 1) FanoutNone),
     (''SSCAN'', meta ''SSCAN'' KindRead (spec 1 1 1) FanoutNone),
     (''SINTERCARD'', meta ''SINTERCARD'' KindRead (spec 0 0 0) FanoutNone)]"

definition table_zsets :: "(string \<times> Meta) list" where
  "table_zsets = [
     (''ZADD'', meta ''ZADD'' KindWrite (spec 1 1 1) FanoutNone),
     (''ZREM'', meta ''ZREM'' KindWrite (spec 1 1 1) FanoutNone),
     (''ZSCORE'', meta ''ZSCORE'' KindRead (spec 1 1 1) FanoutNone),
     (''ZINCRBY'', meta ''ZINCRBY'' KindWrite (spec 1 1 1) FanoutNone),
     (''ZCARD'', meta ''ZCARD'' KindRead (spec 1 1 1) FanoutNone),
     (''ZCOUNT'', meta ''ZCOUNT'' KindRead (spec 1 1 1) FanoutNone),
     (''ZRANGE'', meta ''ZRANGE'' KindRead (spec 1 1 1) FanoutNone),
     (''ZREVRANGE'', meta ''ZREVRANGE'' KindRead (spec 1 1 1) FanoutNone),
     (''ZRANGEBYSCORE'', meta ''ZRANGEBYSCORE'' KindRead (spec 1 1 1) FanoutNone),
     (''ZREVRANGEBYSCORE'', meta ''ZREVRANGEBYSCORE'' KindRead (spec 1 1 1) FanoutNone),
     (''ZRANK'', meta ''ZRANK'' KindRead (spec 1 1 1) FanoutNone),
     (''ZREVRANK'', meta ''ZREVRANK'' KindRead (spec 1 1 1) FanoutNone),
     (''ZRANGEBYLEX'', meta ''ZRANGEBYLEX'' KindRead (spec 1 1 1) FanoutNone),
     (''ZREVRANGEBYLEX'', meta ''ZREVRANGEBYLEX'' KindRead (spec 1 1 1) FanoutNone),
     (''ZLEXCOUNT'', meta ''ZLEXCOUNT'' KindRead (spec 1 1 1) FanoutNone),
     (''ZREMRANGEBYRANK'', meta ''ZREMRANGEBYRANK'' KindWrite (spec 1 1 1) FanoutNone),
     (''ZREMRANGEBYSCORE'', meta ''ZREMRANGEBYSCORE'' KindWrite (spec 1 1 1) FanoutNone),
     (''ZREMRANGEBYLEX'', meta ''ZREMRANGEBYLEX'' KindWrite (spec 1 1 1) FanoutNone),
     (''ZPOPMIN'', meta ''ZPOPMIN'' KindWrite (spec 1 1 1) FanoutNone),
     (''ZPOPMAX'', meta ''ZPOPMAX'' KindWrite (spec 1 1 1) FanoutNone),
     (''BZPOPMIN'', meta ''BZPOPMIN'' KindBlock (spec 1 (-2) 1) FanoutNone),
     (''BZPOPMAX'', meta ''BZPOPMAX'' KindBlock (spec 1 (-2) 1) FanoutNone),
     (''BZMPOP'', meta ''BZMPOP'' KindBlock (spec 0 0 0) FanoutNone),
     (''ZMPOP'', meta ''ZMPOP'' KindWrite (spec 0 0 0) FanoutNone),
     (''ZUNIONSTORE'', meta ''ZUNIONSTORE'' KindWrite (spec 1 1 1) FanoutNone),
     (''ZINTERSTORE'', meta ''ZINTERSTORE'' KindWrite (spec 1 1 1) FanoutNone),
     (''ZDIFFSTORE'', meta ''ZDIFFSTORE'' KindWrite (spec 1 1 1) FanoutNone),
     (''ZUNION'', meta ''ZUNION'' KindRead (spec 0 0 0) FanoutNone),
     (''ZINTER'', meta ''ZINTER'' KindRead (spec 0 0 0) FanoutNone),
     (''ZDIFF'', meta ''ZDIFF'' KindRead (spec 0 0 0) FanoutNone),
     (''ZSCAN'', meta ''ZSCAN'' KindRead (spec 1 1 1) FanoutNone),
     (''ZMSCORE'', meta ''ZMSCORE'' KindRead (spec 1 1 1) FanoutNone),
     (''ZRANDMEMBER'', meta ''ZRANDMEMBER'' KindRead (spec 1 1 1) FanoutNone)]"

definition table_streams :: "(string \<times> Meta) list" where
  "table_streams = [
     (''XADD'', meta ''XADD'' KindWrite (spec 1 1 1) FanoutNone),
     (''XLEN'', meta ''XLEN'' KindRead (spec 1 1 1) FanoutNone),
     (''XRANGE'', meta ''XRANGE'' KindRead (spec 1 1 1) FanoutNone),
     (''XREVRANGE'', meta ''XREVRANGE'' KindRead (spec 1 1 1) FanoutNone),
     (''XREAD'', meta ''XREAD'' KindRead (spec 0 0 0) FanoutNone),
     (''XREADGROUP'', meta ''XREADGROUP'' KindRead (spec 0 0 0) FanoutNone),
     (''XACK'', meta ''XACK'' KindWrite (spec 1 1 1) FanoutNone),
     (''XDEL'', meta ''XDEL'' KindWrite (spec 1 1 1) FanoutNone),
     (''XGROUP'', meta ''XGROUP'' KindWrite (spec 2 2 1) FanoutNone),
     (''XINFO'', meta ''XINFO'' KindRead (spec 2 2 1) FanoutNone),
     (''XPENDING'', meta ''XPENDING'' KindRead (spec 1 1 1) FanoutNone),
     (''XCLAIM'', meta ''XCLAIM'' KindWrite (spec 1 1 1) FanoutNone),
     (''XAUTOCLAIM'', meta ''XAUTOCLAIM'' KindWrite (spec 1 1 1) FanoutNone),
     (''XTRIM'', meta ''XTRIM'' KindWrite (spec 1 1 1) FanoutNone)]"

definition table_misc :: "(string \<times> Meta) list" where
  "table_misc = [
     (''PFADD'', meta ''PFADD'' KindWrite (spec 1 1 1) FanoutNone),
     (''PFCOUNT'', meta ''PFCOUNT'' KindRead (spec 1 (-1) 1) FanoutNone),
     (''PFMERGE'', meta ''PFMERGE'' KindWrite (spec 1 (-1) 1) FanoutNone),
     (''GEOADD'', meta ''GEOADD'' KindWrite (spec 1 1 1) FanoutNone),
     (''GEODIST'', meta ''GEODIST'' KindRead (spec 1 1 1) FanoutNone),
     (''GEOHASH'', meta ''GEOHASH'' KindRead (spec 1 1 1) FanoutNone),
     (''GEOPOS'', meta ''GEOPOS'' KindRead (spec 1 1 1) FanoutNone),
     (''GEORADIUS'', meta ''GEORADIUS'' KindRead (spec 1 1 1) FanoutNone),
     (''GEORADIUSBYMEMBER'', meta ''GEORADIUSBYMEMBER'' KindRead (spec 1 1 1) FanoutNone),
     (''GEOSEARCH'', meta ''GEOSEARCH'' KindRead (spec 1 1 1) FanoutNone),
     (''GEOSEARCHSTORE'', meta ''GEOSEARCHSTORE'' KindWrite (spec 1 2 1) FanoutNone)]"

definition table_scripts :: "(string \<times> Meta) list" where
  "table_scripts = [
     (''EVAL'', meta ''EVAL'' KindScript (spec 0 0 0) FanoutNone),
     (''EVALSHA'', meta ''EVALSHA'' KindScript (spec 0 0 0) FanoutNone),
     (''EVAL_RO'', meta ''EVAL_RO'' KindScript (spec 0 0 0) FanoutNone),
     (''EVALSHA_RO'', meta ''EVALSHA_RO'' KindScript (spec 0 0 0) FanoutNone),
     (''SCRIPT'', meta ''SCRIPT'' KindAdmin (spec 0 0 0) FanoutNone)]"

definition table_txn :: "(string \<times> Meta) list" where
  "table_txn = [
     (''MULTI'', meta ''MULTI'' KindTxn (spec 0 0 0) FanoutNone),
     (''EXEC'', meta ''EXEC'' KindTxn (spec 0 0 0) FanoutNone),
     (''DISCARD'', meta ''DISCARD'' KindTxn (spec 0 0 0) FanoutNone),
     (''WATCH'', meta ''WATCH'' KindTxn (spec 1 (-1) 1) FanoutNone),
     (''UNWATCH'', meta ''UNWATCH'' KindTxn (spec 0 0 0) FanoutNone)]"

definition table_pubsub :: "(string \<times> Meta) list" where
  "table_pubsub = [
     (''PUBLISH'', meta ''PUBLISH'' KindPubSub (spec 0 0 0) FanoutNone),
     (''SPUBLISH'', meta ''SPUBLISH'' KindPubSub (spec 0 0 0) FanoutNone),
     (''SUBSCRIBE'', meta ''SUBSCRIBE'' KindPubSub (spec 0 0 0) FanoutNone),
     (''SSUBSCRIBE'', meta ''SSUBSCRIBE'' KindPubSub (spec 0 0 0) FanoutNone),
     (''UNSUBSCRIBE'', meta ''UNSUBSCRIBE'' KindPubSub (spec 0 0 0) FanoutNone),
     (''SUNSUBSCRIBE'', meta ''SUNSUBSCRIBE'' KindPubSub (spec 0 0 0) FanoutNone),
     (''PSUBSCRIBE'', meta ''PSUBSCRIBE'' KindPubSub (spec 0 0 0) FanoutNone),
     (''PUNSUBSCRIBE'', meta ''PUNSUBSCRIBE'' KindPubSub (spec 0 0 0) FanoutNone),
     (''PUBSUB'', meta ''PUBSUB'' KindPubSub (spec 0 0 0) FanoutNone)]"

definition table_admin :: "(string \<times> Meta) list" where
  "table_admin = [
     (''PING'', meta ''PING'' KindConnection (spec 0 0 0) FanoutNone),
     (''ECHO'', meta ''ECHO'' KindConnection (spec 0 0 0) FanoutNone),
     (''AUTH'', meta ''AUTH'' KindConnection (spec 0 0 0) FanoutNone),
     (''QUIT'', meta ''QUIT'' KindConnection (spec 0 0 0) FanoutNone),
     (''SELECT'', meta ''SELECT'' KindConnection (spec 0 0 0) FanoutNone),
     (''HELLO'', meta ''HELLO'' KindConnection (spec 0 0 0) FanoutNone),
     (''CLIENT'', meta ''CLIENT'' KindConnection (spec 0 0 0) FanoutNone),
     (''RESET'', meta ''RESET'' KindConnection (spec 0 0 0) FanoutNone),
     (''INFO'', meta ''INFO'' KindAdmin (spec 0 0 0) FanoutNone),
     (''CLUSTER'', meta ''CLUSTER'' KindAdmin (spec 0 0 0) FanoutNone),
     (''COMMAND'', meta ''COMMAND'' KindAdmin (spec 0 0 0) FanoutNone),
     (''CONFIG'', meta ''CONFIG'' KindAdmin (spec 0 0 0) FanoutNone),
     (''DBSIZE'', meta ''DBSIZE'' KindAdmin (spec 0 0 0) FanoutNone),
     (''FLUSHDB'', meta ''FLUSHDB'' KindAdmin (spec 0 0 0) FanoutNone),
     (''FLUSHALL'', meta ''FLUSHALL'' KindAdmin (spec 0 0 0) FanoutNone),
     (''TIME'', meta ''TIME'' KindAdmin (spec 0 0 0) FanoutNone),
     (''READONLY'', meta ''READONLY'' KindAdmin (spec 0 0 0) FanoutNone),
     (''READWRITE'', meta ''READWRITE'' KindAdmin (spec 0 0 0) FanoutNone),
     (''SCAN'', meta ''SCAN'' KindAdmin (spec 0 0 0) FanoutNone),
     (''KEYS'', meta ''KEYS'' KindAdmin (spec 0 0 0) FanoutNone),
     (''RANDOMKEY'', meta ''RANDOMKEY'' KindAdmin (spec 0 0 0) FanoutNone),
     (''MEMORY'', meta ''MEMORY'' KindAdmin (spec 0 0 0) FanoutNone),
     (''LATENCY'', meta ''LATENCY'' KindAdmin (spec 0 0 0) FanoutNone),
     (''ROLE'', meta ''ROLE'' KindAdmin (spec 0 0 0) FanoutNone),
     (''LOLWUT'', meta ''LOLWUT'' KindAdmin (spec 0 0 0) FanoutNone),
     (''REPLICAOF'', meta ''REPLICAOF'' KindAdmin (spec 0 0 0) FanoutNone),
     (''SLAVEOF'', meta ''SLAVEOF'' KindAdmin (spec 0 0 0) FanoutNone),
     (''WAIT'', meta ''WAIT'' KindAdmin (spec 0 0 0) FanoutNone),
     (''JSON.GET'', meta ''JSON.GET'' KindRead (spec 1 1 1) FanoutNone),
     (''JSON.SET'', meta ''JSON.SET'' KindWrite (spec 1 1 1) FanoutNone),
     (''JSON.DEL'', meta ''JSON.DEL'' KindWrite (spec 1 1 1) FanoutNone)]"

definition table :: "(string \<times> Meta) list" where
  "table = table_strings @ table_keys @ table_hashes @ table_lists @ table_sets @ table_zsets @ table_streams @ table_misc @ table_scripts @ table_txn @ table_pubsub @ table_admin"

lemmas table_defs = table_strings_def
  table_keys_def
  table_hashes_def
  table_lists_def
  table_sets_def
  table_zsets_def
  table_streams_def
  table_misc_def
  table_scripts_def
  table_txn_def
  table_pubsub_def
  table_admin_def

text \<open>A Go map literal looked up by key.\<close>

fun assoc :: "('k \<times> 'v) list \<Rightarrow> 'k \<Rightarrow> 'v option" where
  "assoc [] k = None"
| "assoc ((x, v) # xs) k = (if x = k then Some v else assoc xs k)"

lemma assoc_SomeD: "assoc xs k = Some v \<Longrightarrow> (k, v) \<in> set xs"
  by (induction xs k rule: assoc.induct) (auto split: if_splits)

lemma assoc_append: "assoc (xs @ ys) k = (case assoc xs k of None \<Rightarrow> assoc ys k | Some v \<Rightarrow> Some v)"
  by (induction xs k rule: assoc.induct) auto

definition Lookup :: "bytes \<Rightarrow> Meta option" where
  "Lookup upperName = assoc table upperName"

text \<open>\<open>NameUpper\<close> writes into a reused buffer; only its contents are used.\<close>

definition NameUpper :: "bytes \<Rightarrow> bytes" where
  "NameUpper argv0 = UpperASCII argv0"

lemmas Lookup_groups = Lookup_def [unfolded table_def assoc_append]

lemmas lookup_eval = Lookup_groups table_defs

section \<open>Well-formedness of the table\<close>

definition entry_ok :: "string \<times> Meta \<Rightarrow> bool" where
  "entry_ok e \<longleftrightarrow>
     mName (snd e) = fst e \<and> UpperASCII (fst e) = fst e \<and> fst e \<noteq> [] \<and>
     0 \<le> First (mKeys (snd e)) \<and> (First (mKeys (snd e)) = 0 \<longrightarrow> mFanout (snd e) = FanoutNone) \<and>
     (0 < First (mKeys (snd e)) \<longrightarrow> 0 < Step (mKeys (snd e))) \<and>
     (mFanout (snd e) = FanoutMSet \<longrightarrow> mKeys (snd e) = spec 1 (-1) 2) \<and>
     (mFanout (snd e) = FanoutMGet \<or> mFanout (snd e) = FanoutSum \<longrightarrow> mKeys (snd e) = spec 1 (-1) 1)"

lemma table_strings_ok: "list_all entry_ok table_strings"
  by (simp add: table_strings_def entry_ok_def UpperASCII_def spec_def)

lemma table_keys_ok: "list_all entry_ok table_keys"
  by (simp add: table_keys_def entry_ok_def UpperASCII_def spec_def)

lemma table_hashes_ok: "list_all entry_ok table_hashes"
  by (simp add: table_hashes_def entry_ok_def UpperASCII_def spec_def)

lemma table_lists_ok: "list_all entry_ok table_lists"
  by (simp add: table_lists_def entry_ok_def UpperASCII_def spec_def)

lemma table_sets_ok: "list_all entry_ok table_sets"
  by (simp add: table_sets_def entry_ok_def UpperASCII_def spec_def)

lemma table_zsets_ok: "list_all entry_ok table_zsets"
  by (simp add: table_zsets_def entry_ok_def UpperASCII_def spec_def)

lemma table_streams_ok: "list_all entry_ok table_streams"
  by (simp add: table_streams_def entry_ok_def UpperASCII_def spec_def)

lemma table_misc_ok: "list_all entry_ok table_misc"
  by (simp add: table_misc_def entry_ok_def UpperASCII_def spec_def)

lemma table_scripts_ok: "list_all entry_ok table_scripts"
  by (simp add: table_scripts_def entry_ok_def UpperASCII_def spec_def)

lemma table_txn_ok: "list_all entry_ok table_txn"
  by (simp add: table_txn_def entry_ok_def UpperASCII_def spec_def)

lemma table_pubsub_ok: "list_all entry_ok table_pubsub"
  by (simp add: table_pubsub_def entry_ok_def UpperASCII_def spec_def)

lemma table_admin_ok: "list_all entry_ok table_admin"
  by (simp add: table_admin_def entry_ok_def UpperASCII_def spec_def)

lemma table_ok: "list_all entry_ok table"
  by (simp add: table_def table_strings_ok table_keys_ok table_hashes_ok table_lists_ok table_sets_ok table_zsets_ok table_streams_ok table_misc_ok table_scripts_ok table_txn_ok table_pubsub_ok table_admin_ok)

lemma Lookup_ok: "Lookup n = Some m \<Longrightarrow> entry_ok (n, m)"
  using table_ok by (auto simp: Lookup_def list_all_iff dest: assoc_SomeD)

lemma Lookup_name: "Lookup n = Some m \<Longrightarrow> mName m = n \<and> UpperASCII n = n"
  by (auto dest!: Lookup_ok simp: entry_ok_def)


end
