(* ===== verification/Command_Keys.thy ===== *)
theory Command_Keys
  imports Command_Table
begin

text \<open>
  \<open>internal/command/command.go\<close>: where the keys of a command are. The functions read
  the bytes of the arguments and never whether a slice is nil, so they take the list of contents
  (\<open>args argv\<close>). A result \<open>nil\<close> and an empty slice are used alike and both are the
  empty list.

  \<open>make([]int, 0, c)\<close> panics when \<open>c\<close> is negative or its elements of eight bytes do
  not fit in the 48-bit address space of the allocator; the one capacity that
  does not come from the length of \<open>argv\<close> is that of \<open>numkeysIdx\<close>.
\<close>

abbreviation args :: "argv \<Rightarrow> bytes list" where
  "args a \<equiv> map sl a"

section \<open>Key positions\<close>

function stepIdx :: "int \<Rightarrow> int \<Rightarrow> int \<Rightarrow> nat list" where
  "stepIdx i lst step = (if i > lst \<or> step \<le> 0 then [] else nat i # stepIdx (i + step) lst step)"
  by pat_completeness auto
termination stepIdx
  by (relation "measure (\<lambda>(i, lst, step). nat (lst + 1 - i))") auto

declare stepIdx.simps [simp del]

definition indexesBySpec :: "bytes list \<Rightarrow> KeySpec \<Rightarrow> nat list" where
  "indexesBySpec a ks =
     (if First ks \<le> 0 then []
      else
        let step = (if Step ks \<le> 0 then 1 else Step ks);
            first = First ks;
            last0 = (if Last ks = 0 then first else Last ks);
            last1 = (if last0 < 0 then int (length a) + last0 else last0)
        in if first \<ge> int (length a) \<or> last1 < first then []
           else let lst = (if last1 \<ge> int (length a) then int (length a) - 1 else last1)
                in if (lst - first) div step + 1 \<le> 0 then [] else stepIdx first lst step)"

definition evalKeyIdx :: "bytes list \<Rightarrow> nat list" where
  "evalKeyIdx a =
     (if length a < 3 then []
      else (case Atoi (a ! 2) of
              None \<Rightarrow> []
            | Some n \<Rightarrow>
                if n < 0 then []
                else let end0 = wrap64 (3 + n);
                         end1 = (if end0 > int (length a) then int (length a) else end0)
                     in if 3 \<ge> end1 then [] else [3..<nat end1]))"

definition xreadKeyIdx :: "bytes list \<Rightarrow> nat list" where
  "xreadKeyIdx a =
     (case find (\<lambda>i. EqualFoldASCII (a ! i) ''STREAMS'') [1..<length a] of
        None \<Rightarrow> []
      | Some i \<Rightarrow>
          let rest = length a - (i + 1)
          in if rest < 2 \<or> rest mod 2 \<noteq> 0 then [] else map (\<lambda>j. i + 1 + j) [0..<rest div 2])"

definition migrateKeyIdx :: "bytes list \<Rightarrow> nat list" where
  "migrateKeyIdx a =
     (if length a < 6 then []
      else (case find (\<lambda>i. EqualFoldASCII (a ! i) ''KEYS'') [6..<length a] of
              Some i \<Rightarrow> if i + 1 \<ge> length a then [] else [i + 1..<length a]
            | None \<Rightarrow> if a ! 3 \<noteq> [] then [3] else []))"

definition maxInts :: int where
  "maxInts = 2 ^ 45"

definition numkeysIdx :: "bytes list \<Rightarrow> nat \<Rightarrow> nat list res" where
  "numkeysIdx a numkeysAt =
     (if numkeysAt \<ge> length a then Ok []
      else (case Atoi (a ! numkeysAt) of
              None \<Rightarrow> Ok []
            | Some n \<Rightarrow>
                if n < 0 then Ok []
                else let start = numkeysAt + 1; end0 = wrap64 (int start + n)
                     in if start \<ge> length a then Ok []
                        else let end1 = (if end0 > int (length a) then int (length a) else end0);
                                 c = wrap64 (end1 - int start)
                             in if c < 0 \<or> c > maxInts then Panic
                                else Ok [start..<nat end1]))"

definition destNumkeysIdx :: "bytes list \<Rightarrow> nat list res" where
  "destNumkeysIdx a =
     (if length a < 3 then (if length a \<ge> 2 then Ok [1] else Ok [])
      else res_bind (numkeysIdx a 2) (\<lambda>idx. Ok (1 # idx)))"

definition scanMatchIdx :: "bytes list \<Rightarrow> nat list" where
  "scanMatchIdx a =
     (case find (\<lambda>i. EqualFoldASCII (a ! i) ''MATCH'') [2..<length a - 1] of
        None \<Rightarrow> [] | Some i \<Rightarrow> [i + 1])"

function sortScan :: "bytes list \<Rightarrow> nat \<Rightarrow> nat list" where
  "sortScan a i =
     (if \<not> i + 1 < length a then []
      else if EqualFoldASCII (a ! i) ''BY'' then
        (if \<not> EqualFoldASCII (a ! (i + 1)) ''nosort'' then [i + 1] else []) @ sortScan a (i + 2)
      else if EqualFoldASCII (a ! i) ''GET'' then
        (if a ! (i + 1) \<noteq> ''#'' then [i + 1] else []) @ sortScan a (i + 2)
      else if EqualFoldASCII (a ! i) ''STORE'' then (i + 1) # sortScan a (i + 2)
      else sortScan a (i + 1))"
  by pat_completeness auto
termination sortScan
  by (relation "measure (\<lambda>(a, i). length a - i)") auto

declare sortScan.simps [simp del]

definition sortKeyIdx :: "bytes list \<Rightarrow> nat list" where
  "sortKeyIdx a = (if length a \<ge> 2 then [1] else []) @ sortScan a 2"

definition storeOptionIdx :: "bytes list \<Rightarrow> nat list" where
  "storeOptionIdx a =
     map Suc (filter (\<lambda>i. EqualFoldASCII (a ! i) ''STORE'' \<or> EqualFoldASCII (a ! i) ''STOREDIST'')
                     [1..<length a - 1])"

definition keysOf :: "bytes \<Rightarrow> KeySpec" where
  "keysOf name = (case Lookup name of Some m \<Rightarrow> mKeys m | None \<Rightarrow> spec 0 0 0)"

text \<open>The switch of \<open>KeyIndexes\<close> on the command name.\<close>

definition keyRule :: "bytes \<Rightarrow> bytes list \<Rightarrow> nat list res" where
  "keyRule name =
     (if name \<in> {''EVAL'', ''EVALSHA'', ''EVAL_RO'', ''EVALSHA_RO''} then (\<lambda>a. Ok (evalKeyIdx a))
      else if name \<in> {''XREAD'', ''XREADGROUP''} then (\<lambda>a. Ok (xreadKeyIdx a))
      else if name = ''MIGRATE'' then (\<lambda>a. Ok (migrateKeyIdx a))
      else if name \<in> {''LMPOP'', ''ZMPOP'', ''SINTERCARD''} then (\<lambda>a. numkeysIdx a 1)
      else if name \<in> {''BLMPOP'', ''BZMPOP''} then (\<lambda>a. numkeysIdx a 2)
      else if name \<in> {''ZUNIONSTORE'', ''ZINTERSTORE'', ''ZDIFFSTORE''} then destNumkeysIdx
      else if name \<in> {''ZUNION'', ''ZINTER'', ''ZDIFF''} then (\<lambda>a. numkeysIdx a 1)
      else if name = ''MEMORY'' then
        (\<lambda>a. if length a \<ge> 3 \<and> EqualFoldASCII (a ! 1) ''USAGE'' then Ok [2] else Ok [])
      else if name = ''KEYS'' then (\<lambda>a. if length a \<ge> 2 then Ok [1] else Ok [])
      else if name = ''SCAN'' then (\<lambda>a. Ok (scanMatchIdx a))
      else if name = ''SORT'' then (\<lambda>a. Ok (sortKeyIdx a))
      else if name \<in> {''GEORADIUS'', ''GEORADIUSBYMEMBER''} then
        (\<lambda>a. Ok (indexesBySpec a (keysOf name) @ storeOptionIdx a))
      else (case Lookup name of
              None \<Rightarrow> (\<lambda>a. Ok [])
            | Some m \<Rightarrow> if First (mKeys m) = 0 then (\<lambda>a. Ok []) else (\<lambda>a. Ok (indexesBySpec a (mKeys m)))))"

definition KeyIndexes :: "bytes list \<Rightarrow> nat list res" where
  "KeyIndexes a = (if a = [] then Ok [] else keyRule (UpperASCII (a ! 0)) a)"

definition ExtractKeys :: "argv \<Rightarrow> argv res" where
  "ExtractKeys a = res_bind (KeyIndexes (args a)) (\<lambda>idx. Ok (map (\<lambda>j. a ! j) idx))"

section \<open>Classification\<close>

definition IsBlocking :: "bytes list \<Rightarrow> bool" where
  "IsBlocking a =
     (if a = [] then False
      else
        let name = UpperASCII (a ! 0) in
        if (case Lookup name of Some m \<Rightarrow> mKind m = KindBlock | None \<Rightarrow> False) then True
        else if name \<in> {''XREAD'', ''XREADGROUP''} then
          list_ex (\<lambda>i. EqualFoldASCII (a ! i) ''BLOCK'') [1..<length a]
        else False)"

datatype PubSubOp =
    PubSubNone | PubSubSubscribe | PubSubUnsubscribe | PubSubPSubscribe | PubSubPUnsubscribe
  | PubSubSSubscribe | PubSubSUnsubscribe | PubSubPublish | PubSubSPublish | PubSubPubSub

definition ClassifyPubSub :: "bytes \<Rightarrow> PubSubOp" where
  "ClassifyPubSub argv0 =
     (let name = UpperASCII argv0 in
      if name = ''SUBSCRIBE'' then PubSubSubscribe
      else if name = ''UNSUBSCRIBE'' then PubSubUnsubscribe
      else if name = ''PSUBSCRIBE'' then PubSubPSubscribe
      else if name = ''PUNSUBSCRIBE'' then PubSubPUnsubscribe
      else if name = ''SSUBSCRIBE'' then PubSubSSubscribe
      else if name = ''SUNSUBSCRIBE'' then PubSubSUnsubscribe
      else if name = ''PUBLISH'' then PubSubPublish
      else if name = ''SPUBLISH'' then PubSubSPublish
      else if name = ''PUBSUB'' then PubSubPubSub
      else PubSubNone)"

definition FanoutOf :: "bytes list \<Rightarrow> Fanout" where
  "FanoutOf a =
     (if a = [] then FanoutNone
      else (case Lookup (UpperASCII (a ! 0)) of Some m \<Rightarrow> mFanout m | None \<Rightarrow> FanoutNone))"

definition KindOf :: "bytes \<Rightarrow> Kind" where
  "KindOf argv0 = (case Lookup (UpperASCII argv0) of Some m \<Rightarrow> mKind m | None \<Rightarrow> KindUnknown)"

section \<open>Positions are ordered and in range\<close>

text \<open>\<open>good_idx n is\<close>: strictly increasing argument positions of a command of length \<open>n\<close>.\<close>

definition good_idx :: "nat \<Rightarrow> nat list \<Rightarrow> bool" where
  "good_idx n is \<longleftrightarrow> sorted_wrt (<) is \<and> (\<forall>i \<in> set is. 0 < i \<and> i < n)"

named_theorems good_idx_intros \<open>every index function returns good positions\<close>

lemma good_idx_Nil [simp, good_idx_intros]: "good_idx n []"
  by (simp add: good_idx_def)

lemma good_idx_upt [good_idx_intros]: "0 < k \<Longrightarrow> m \<le> n \<Longrightarrow> good_idx n [k..<m]"
  by (auto simp: good_idx_def)

lemma stepIdx_bounds:
  "0 < i \<Longrightarrow> sorted_wrt (<) (stepIdx i l s) \<and> (\<forall>k \<in> set (stepIdx i l s). i \<le> int k \<and> int k \<le> l)"
proof (induction i l s rule: stepIdx.induct)
  case (1 i l s)
  show ?case
  proof (cases "i > l \<or> s \<le> 0")
    case True
    then show ?thesis by (subst (1 2) stepIdx.simps) simp
  next
    case False
    with 1 have "sorted_wrt (<) (stepIdx (i + s) l s)
        \<and> (\<forall>k \<in> set (stepIdx (i + s) l s). i + s \<le> int k \<and> int k \<le> l)" by simp
    moreover have "nat i < k \<and> i \<le> int k" if "k \<in> set (stepIdx (i + s) l s)" for k
    proof -
      from calculation that False have "i < int k" by auto
      with 1(2) show ?thesis by (simp add: nat_less_iff)
    qed
    moreover have "stepIdx i l s = nat i # stepIdx (i + s) l s"
      using False by (simp add: stepIdx.simps [of i])
    ultimately show ?thesis using False 1(2) by auto
  qed
qed

lemma good_idx_indexesBySpec [good_idx_intros]: "good_idx (length a) (indexesBySpec a ks)"
proof -
  have "0 < i \<Longrightarrow> l < int (length a) \<Longrightarrow> good_idx (length a) (stepIdx i l s)" for i l s
    using stepIdx_bounds [of i l s] by (force simp: good_idx_def)
  then show ?thesis
    by (auto simp: indexesBySpec_def Let_def)
qed

lemma good_idx_evalKeyIdx [good_idx_intros]: "good_idx (length a) (evalKeyIdx a)"
  by (simp add: evalKeyIdx_def Let_def good_idx_upt split: option.splits)

lemma find_upt_SomeD:
  assumes "find P [k..<n] = Some i"
  shows "k \<le> i \<and> i < n \<and> P i \<and> (\<forall>j. k \<le> j \<and> j < i \<longrightarrow> \<not> P j)"
proof -
  from assms obtain m where m: "m < n - k" "P (k + m)" "i = k + m" "\<forall>j < m. \<not> P (k + j)"
    by (auto simp: find_Some_iff)
  have "\<not> P j" if "k \<le> j" "j < i" for j
    using m(4) [rule_format, of "j - k"] m(3) that by simp
  with m show ?thesis by auto
qed

lemma good_idx_xreadKeyIdx [good_idx_intros]: "good_idx (length a) (xreadKeyIdx a)"
  by (auto simp: xreadKeyIdx_def Let_def good_idx_def sorted_wrt_map split: option.splits dest!: find_upt_SomeD)

lemma good_idx_migrateKeyIdx [good_idx_intros]: "good_idx (length a) (migrateKeyIdx a)"
  by (auto simp: migrateKeyIdx_def good_idx_def split: option.splits dest!: find_upt_SomeD)

lemma good_idx_scanMatchIdx [good_idx_intros]: "good_idx (length a) (scanMatchIdx a)"
  by (auto simp: scanMatchIdx_def good_idx_def split: option.splits dest!: find_upt_SomeD)

lemma sortScan_bounds:
  "sorted_wrt (<) (sortScan a i) \<and> (\<forall>k \<in> set (sortScan a i). i < k \<and> k < length a)"
proof (induction "length a - i" arbitrary: i rule: less_induct)
  case less
  show ?case
  proof (cases "i + 1 < length a")
    case False
    then show ?thesis by (simp add: sortScan.simps [of a i])
  next
    case True
    have one: "sorted_wrt (<) (sortScan a (i + 1))"
        "\<And>k. k \<in> set (sortScan a (i + 1)) \<Longrightarrow> i < k \<and> k < length a"
      using less [of "i + 1"] True by force+
    have two: "sorted_wrt (<) (sortScan a (i + 2))"
        "\<And>k. k \<in> set (sortScan a (i + 2)) \<Longrightarrow> i < k \<and> i + 1 < k \<and> k < length a"
      using less [of "i + 2"] True by force+
    show ?thesis
      by (subst (1 2) sortScan.simps) (use one two True in auto)
  qed
qed

lemma good_idx_sortKeyIdx [good_idx_intros]: "good_idx (length a) (sortKeyIdx a)"
  using sortScan_bounds [of a 2]
  by (force simp: sortKeyIdx_def good_idx_def sorted_wrt_append)

lemma numkeysIdx_good: "numkeysIdx a k = Ok is \<Longrightarrow> good_idx (length a) is \<and> (\<forall>i \<in> set is. k < i)"
  by (auto simp: numkeysIdx_def Let_def good_idx_def split: if_splits option.splits)

lemma destNumkeysIdx_good: "destNumkeysIdx a = Ok is \<Longrightarrow> good_idx (length a) is"
  by (force simp: destNumkeysIdx_def res_bind_eq_Ok good_idx_def split: if_splits dest!: numkeysIdx_good)

lemma storeOptionIdx_bounds:
  "sorted_wrt (<) (storeOptionIdx a) \<and> (\<forall>k \<in> set (storeOptionIdx a). 1 < k \<and> k < length a)"
  by (auto simp: storeOptionIdx_def sorted_wrt_map intro: sorted_wrt_filter)

lemma keysOf_geo: "keysOf ''GEORADIUS'' = spec 1 1 1" "keysOf ''GEORADIUSBYMEMBER'' = spec 1 1 1"
  by (simp_all add: keysOf_def lookup_eval)

lemma indexesBySpec_single: "indexesBySpec a (spec 1 1 1) = (if length a \<ge> 2 then [1] else [])"
  by (auto simp: indexesBySpec_def spec_def Let_def stepIdx.simps)

lemma good_idx_geo: "good_idx (length a) (indexesBySpec a (spec 1 1 1) @ storeOptionIdx a)"
  using storeOptionIdx_bounds [of a] by (force simp: indexesBySpec_single good_idx_def sorted_wrt_append)

text \<open>A property of the rules is shown rule by rule, along the switch.\<close>

lemma if_pred: "P x \<Longrightarrow> P y \<Longrightarrow> P (if c then x else y)"
  by simp

definition good_rule :: "(bytes list \<Rightarrow> nat list res) \<Rightarrow> bool" where
  "good_rule r \<longleftrightarrow> (\<forall>a is. r a = Ok is \<longrightarrow> good_idx (length a) is)"

lemma good_rule_Ok: "(\<And>a. good_idx (length a) (f a)) \<Longrightarrow> good_rule (\<lambda>a. Ok (f a))"
  by (auto simp: good_rule_def)

lemma good_rule_numkeys: "good_rule (\<lambda>a. numkeysIdx a k)" "good_rule destNumkeysIdx"
  by (simp_all add: good_rule_def numkeysIdx_good destNumkeysIdx_good)

lemma good_rule_memory:
  "good_rule (\<lambda>a. if length a \<ge> 3 \<and> EqualFoldASCII (a ! 1) ''USAGE'' then Ok [2] else Ok [])"
  "good_rule (\<lambda>a. if length a \<ge> 2 then Ok [1] else Ok [])"
  by (auto simp: good_rule_def good_idx_def split: if_splits)

lemma good_rule_geo:
  "good_rule r \<Longrightarrow> good_rule (if name \<in> {''GEORADIUS'', ''GEORADIUSBYMEMBER''}
     then (\<lambda>a. Ok (indexesBySpec a (keysOf name) @ storeOptionIdx a)) else r)"
  by (auto simp: keysOf_geo good_idx_geo intro: good_rule_Ok)

lemma good_rule_table:
  "good_rule (case Lookup name of None \<Rightarrow> (\<lambda>a. Ok [])
     | Some m \<Rightarrow> if First (mKeys m) = 0 then (\<lambda>a. Ok []) else (\<lambda>a. Ok (indexesBySpec a (mKeys m))))"
  by (auto simp: good_idx_indexesBySpec intro: good_rule_Ok split: option.split)

lemma good_rule_keyRule: "good_rule (keyRule name)"
  unfolding keyRule_def
  by (rule good_rule_geo good_rule_table if_pred [where P = good_rule] good_rule_numkeys good_rule_memory
      good_rule_Ok good_idx_intros)+

lemma KeyIndexes_good: "KeyIndexes a = Ok is \<Longrightarrow> good_idx (length a) is"
  using good_rule_keyRule by (auto simp: KeyIndexes_def good_rule_def split: if_splits)

section \<open>When a key count overflows\<close>

lemma numkeysIdx_no_wrap:
  assumes "Atoi (a ! k) = Some n" and "0 \<le> n" and "k + 1 < length a" and "int k + 1 + n < 2 ^ 63"
    and "int (length a) \<le> maxInts"
  shows "numkeysIdx a k = Ok [k + 1..<nat (min (int (length a)) (int k + 1 + n))]"
proof -
  have "wrap64 (int k + 1 + n) = int k + 1 + n"
    using assms by (intro wrap64_id) (simp add: int64_def)
  moreover have "wrap64 (min (int (length a)) (int k + 1 + n) - (int k + 1))
      = min (int (length a)) (int k + 1 + n) - (int k + 1)"
    using assms by (intro wrap64_id) (auto simp: int64_def maxInts_def min_def)
  ultimately show ?thesis
    using assms by (auto simp: numkeysIdx_def Let_def min_def algebra_simps split: if_splits)
qed

lemma wrap64_sub: "2 ^ 63 \<le> m \<Longrightarrow> m < 2 ^ 64 \<Longrightarrow> wrap64 m = m - 2 ^ 64"
proof -
  assume "2 ^ 63 \<le> m" "m < (2 ^ 64 :: int)"
  then have "(m + 2 ^ 63) mod 2 ^ 64 = m + 2 ^ 63 - 2 ^ 64"
    by (intro int_mod_pos_eq [where q = 1]) auto
  then show ?thesis by (simp add: wrap64_def)
qed

lemma wrap64_shift: "int64 n \<Longrightarrow> wrap64 (n - 2 ^ 64) = n"
proof -
  assume "int64 n"
  moreover have "(n - 2 ^ 64 + 2 ^ 63) mod 2 ^ 64 = (n + 2 ^ 63) mod (2 ^ 64 :: int)"
    using mod_diff_right_eq [of "n + 2 ^ 63" "2 ^ 64" "2 ^ 64 :: int"] by (simp add: algebra_simps)
  ultimately show ?thesis
    using wrap64_id [of n] by (simp add: wrap64_def)
qed

lemma numkeysIdx_eq:
  assumes "Atoi (a ! k) = Some n" and "0 \<le> n" and "k + 1 < length a"
  shows "numkeysIdx a k =
    (let end0 = wrap64 (int (k + 1) + n);
         end1 = (if end0 > int (length a) then int (length a) else end0);
         c = wrap64 (end1 - int (k + 1))
     in if c < 0 \<or> c > maxInts then Panic else Ok [k + 1..<nat end1])"
  using assms by (simp add: numkeysIdx_def Let_def)

lemma numkeysIdx_wrap:
  assumes at: "Atoi (a ! k) = Some n" and k: "k + 1 < length a" and over: "2 ^ 63 \<le> int (k + 1) + n"
    and len: "int (length a) \<le> maxInts"
  shows "numkeysIdx a k = Panic"
proof -
  have n: "int64 n"
    using at by (simp add: Atoi_def ParseInt_int64)
  have small: "int (k + 1) < 2 ^ 45"
    using k len by (simp add: maxInts_def)
  have big: "2 ^ 45 < n" and neg: "int (k + 1) + n - 2 ^ 64 < 0" and pos: "0 \<le> n"
    using small n over by (simp_all add: int64_def del: of_nat_add of_nat_Suc)
  have e: "wrap64 (int (k + 1) + n) = int (k + 1) + n - 2 ^ 64"
    using over neg by (intro wrap64_sub) simp_all
  have c: "wrap64 (int (k + 1) + n - 2 ^ 64 - int (k + 1)) = n"
    using wrap64_shift [OF n] by (simp add: algebra_simps)
  have nlt: "\<not> int (length a) < int (k + 1) + n - 2 ^ 64"
    using neg by linarith
  show ?thesis
    unfolding numkeysIdx_eq [OF at pos k] Let_def e if_not_P [OF nlt] c
    using big by (simp only: maxInts_def) simp
qed

lemma numkeysIdx_panic_iff:
  assumes "int (length a) \<le> maxInts"
  shows "numkeysIdx a k = Panic \<longleftrightarrow>
    k + 1 < length a \<and> (\<exists>n. Atoi (a ! k) = Some n \<and> 2 ^ 63 \<le> int (k + 1) + n)"
proof
  assume p: "numkeysIdx a k = Panic"
  then obtain n where n: "Atoi (a ! k) = Some n" "0 \<le> n" "k + 1 < length a"
    by (auto simp: numkeysIdx_def Let_def split: if_splits option.splits)
  with p numkeysIdx_no_wrap [OF n _ assms] have "\<not> int (k + 1) + n < 2 ^ 63" by auto
  with n show "k + 1 < length a \<and> (\<exists>n. Atoi (a ! k) = Some n \<and> 2 ^ 63 \<le> int (k + 1) + n)" by auto
next
  assume "k + 1 < length a \<and> (\<exists>n. Atoi (a ! k) = Some n \<and> 2 ^ 63 \<le> int (k + 1) + n)"
  then show "numkeysIdx a k = Panic"
    using numkeysIdx_wrap assms by blast
qed

text \<open>The position of the key count in the commands that have one.\<close>

definition numkeysPos :: "bytes \<Rightarrow> nat option" where
  "numkeysPos name =
     (if name \<in> {''LMPOP'', ''ZMPOP'', ''SINTERCARD'', ''ZUNION'', ''ZINTER'', ''ZDIFF''} then Some 1
      else if name \<in> {''BLMPOP'', ''BZMPOP'', ''ZUNIONSTORE'', ''ZINTERSTORE'', ''ZDIFFSTORE''} then Some 2
      else None)"

lemma KeyIndexes_Panic_numkeys:
  assumes "a \<noteq> []"
  shows "KeyIndexes a = Panic \<longleftrightarrow>
    (\<exists>k. numkeysPos (UpperASCII (a ! 0)) = Some k \<and> numkeysIdx a k = Panic)"
proof -
  have short: "numkeysIdx a 2 = Panic \<Longrightarrow> \<not> length a < 3"
    by (auto simp: numkeysIdx_def)
  have dest: "destNumkeysIdx a = Panic \<longleftrightarrow> numkeysIdx a 2 = Panic"
    using short by (auto simp: destNumkeysIdx_def res_bind_eq_Panic)
  have other: "(case Lookup n of None \<Rightarrow> (\<lambda>a. Ok [])
     | Some m \<Rightarrow> if First (mKeys m) = 0 then (\<lambda>a. Ok []) else (\<lambda>a. Ok (indexesBySpec a (mKeys m)))) a \<noteq> Panic" for n
    by (simp split: option.split)
  show ?thesis
    using assms unfolding KeyIndexes_def keyRule_def numkeysPos_def by (simp add: dest other)
qed

section \<open>Properties\<close>

text \<open>
  C27. The key positions \<open>KeyIndexes\<close> returns are strictly increasing, never the command name and
  always inside \<open>argv\<close>, for every command and every argument list: \<open>ExtractKeys\<close> and the rewriting
  loops never index out of range.\<close>

theorem KeyIndexes_in_range:
  assumes "KeyIndexes a = Ok is"
  shows "sorted_wrt (<) is \<and> (\<forall>i \<in> set is. 0 < i \<and> i < length a)"
  using KeyIndexes_good [OF assms] by (simp add: good_idx_def)

theorem KeyIndexes_in_range_witness:
  "KeyIndexes [''eval'', ''s'', ''2'', ''a'', ''b'', ''x''] = Ok [3, 4] \<and>
   4 < length [''eval'', ''s'', ''2'', ''a'', ''b'', ''x'']"
proof -
  have "UpperASCII ''eval'' = ''EVAL''"
    by code_simp
  moreover have "Atoi ''2'' = Some 2"
    by (simp add: Atoi_def ParseInt_def ParseUint_def is_digit_def)
  ultimately have "KeyIndexes [''eval'', ''s'', ''2'', ''a'', ''b'', ''x''] = Ok [3, 4]"
    by (simp add: KeyIndexes_def keyRule_def evalKeyIdx_def int64_def upt_rec)
  from this KeyIndexes_in_range [OF this] show ?thesis by simp
qed

text \<open>
  C28. Extracting keys panics exactly when a command with a key count (\<open>LMPOP\<close>, \<open>ZUNIONSTORE\<close>,
  \<open>BLMPOP\<close> and their like) carries a count so large that \<open>start + n\<close> overflows, with at least one
  argument after it: \<open>numkeysIdx\<close> has no upper bound on \<open>n\<close> before the addition. Argument lists longer
  than the address space holds are left out.\<close>

theorem KeyIndexes_panics_iff_count_overflows:
  assumes "int (length a) \<le> maxInts"
  shows "KeyIndexes a = Panic \<longleftrightarrow>
    a \<noteq> [] \<and> (\<exists>k n. numkeysPos (UpperASCII (a ! 0)) = Some k \<and> k + 1 < length a \<and>
       Atoi (a ! k) = Some n \<and> 2 ^ 63 \<le> int (k + 1) + n)"
proof (cases "a = []")
  case True
  then show ?thesis by (simp add: KeyIndexes_def)
next
  case False
  then show ?thesis
    using assms by (auto simp: KeyIndexes_Panic_numkeys numkeysIdx_panic_iff)
qed

theorem KeyIndexes_panics_witness:
  "KeyIndexes [''LMPOP'', ''9223372036854775807'', ''k'', ''LEFT''] = Panic"
proof -
  have "Atoi ''9223372036854775807'' = Some 9223372036854775807"
    by (simp add: Atoi_def ParseInt_def ParseUint_def is_digit_def)
  moreover have "UpperASCII ''LMPOP'' = ''LMPOP''"
    by (simp add: UpperASCII_def)
  ultimately show ?thesis
    by (subst KeyIndexes_panics_iff_count_overflows) (simp_all add: maxInts_def numkeysPos_def)
qed

end
