(* ===== verification/Namespaces.thy ===== *)
theory Namespaces
  imports Main
begin

text \<open>
  The interface of a shared store that holds several name spaces: a client writes
  through the physical name \<open>key d k\<close> of its key \<open>k\<close> in the space \<open>d\<close>. When physical
  names determine the space and the key, writes in one space are invisible in every other.
  The virtual databases of the proxy are an instance.
\<close>

type_synonym ('p, 'v) store = "'p \<Rightarrow> 'v option"

text \<open>Writes and deletions (\<open>None\<close>) applied in order.\<close>

fun applyWrites :: "('p \<times> 'v option) list \<Rightarrow> ('p, 'v) store \<Rightarrow> ('p, 'v) store" where
  "applyWrites [] m = m"
| "applyWrites ((p, v) # ws) m = applyWrites ws (m(p := v))"

lemma applyWrites_other: "p \<notin> fst ` set ws \<Longrightarrow> applyWrites ws m p = m p"
  by (induction ws m rule: applyWrites.induct) auto

locale namespaces =
  fixes key :: "'d \<Rightarrow> 'k \<Rightarrow> 'p" and inSpace :: "'d \<Rightarrow> 'k \<Rightarrow> bool"
  assumes key_inject: "inSpace d k \<Longrightarrow> inSpace e l \<Longrightarrow> key d k = key e l \<Longrightarrow> d = e \<and> k = l"
begin

lemma key_eq_iff: "inSpace d k \<Longrightarrow> inSpace e l \<Longrightarrow> key d k = key e l \<longleftrightarrow> d = e \<and> k = l"
  using key_inject by blast

lemma writes_isolated:
  assumes "d \<noteq> e" and "\<forall>w \<in> set ws. inSpace d (fst w)" and "inSpace e l"
  shows "applyWrites (map (\<lambda>(k, v). (key d k, v)) ws) m (key e l) = m (key e l)"
  using assms by (intro applyWrites_other) (auto dest: key_inject)

lemma writes_visible:
  assumes "inSpace d k" and "\<forall>w \<in> set us. inSpace d (fst w) \<and> fst w \<noteq> k"
  shows "applyWrites (map (\<lambda>(k, v). (key d k, v)) ((k, v) # us)) m (key d k) = v"
proof -
  have "key d k \<notin> fst ` set (map (\<lambda>(k, v). (key d k, v)) us)"
    using assms by (auto dest: key_inject)
  then show ?thesis by (simp add: applyWrites_other)
qed

end

end
