(* ===== verification/Command_DB.thy ===== *)
theory Command_DB
  imports Command_Keys Namespaces
begin

text \<open>
  \<open>internal/command/db.go\<close>: virtual databases. Database \<open>n > 0\<close> is the set of keys that
  start with \<open>db<n>:\<close>; commands are rewritten on the way in and the replies that echo
  keys are stripped on the way out. \<open>cloneBytes\<close> is written with the \<open>nil\<close> it returns
  for an empty argument.
\<close>

section \<open>Prefixes\<close>

definition DBPrefix :: "int \<Rightarrow> bytes" where
  "DBPrefix db = (if db \<le> 0 then [] else ''db'' @ AppendInt db @ '':'')"

definition HasVirtualDBPrefix :: "bytes \<Rightarrow> bool" where
  "HasVirtualDBPrefix key =
     (if \<not> HasPrefix key ''db'' then False
      else if 2 \<ge> length key \<or> \<not> is_digit (key ! 2) then False
      else let rest = dropWhile is_digit (drop 2 key); i = length key - length rest
           in i > 2 \<and> i < length key \<and> key ! i = CHR '':'')"

definition PrefixKey :: "int \<Rightarrow> slice \<Rightarrow> slice" where
  "PrefixKey db key = (let p = DBPrefix db in if p = [] then key else Some (p @ sl key))"

definition StripKey :: "int \<Rightarrow> slice \<Rightarrow> slice" where
  "StripKey db key =
     (let p = DBPrefix db in
      if p = [] \<or> \<not> HasPrefix (sl key) p then key else Some (drop (length p) (sl key)))"

definition errInvalidDB :: gerr where
  "errInvalidDB = GoErr ''invalid DB index''"

definition errDBRange :: gerr where
  "errDBRange = GoErr ''DB index is out of range''"

definition ParseDBIndex :: "bytes \<Rightarrow> int \<Rightarrow> int res" where
  "ParseDBIndex b mx =
     (let m = (if mx \<le> 0 then 16 else mx) in
      case Atoi b of
        None \<Rightarrow> Err errInvalidDB
      | Some n \<Rightarrow> if n < 0 then Err errInvalidDB else if n \<ge> m then Err errDBRange else Ok n)"

definition InvalidDBError :: Value where
  "InvalidDBError = Error ''ERR invalid DB index''"

definition DBRangeError :: Value where
  "DBRangeError = Error ''ERR DB index is out of range''"

definition DBIndexError :: "gerr option \<Rightarrow> Value" where
  "DBIndexError err =
     (case err of None \<Rightarrow> zeroValue
      | Some e \<Rightarrow> if e = errDBRange then DBRangeError else InvalidDBError)"

section \<open>Rewriting commands\<close>

definition noRewrite :: "bytes list" where
  "noRewrite = [''PING'', ''ECHO'', ''AUTH'', ''QUIT'', ''SELECT'', ''HELLO'', ''RESET'',
     ''MULTI'', ''EXEC'', ''DISCARD'', ''UNWATCH'',
     ''CLUSTER'', ''INFO'', ''COMMAND'', ''CONFIG'', ''TIME'', ''ROLE'', ''LOLWUT'',
     ''CLIENT'', ''READONLY'', ''READWRITE'', ''REPLICAOF'', ''SLAVEOF'', ''WAIT'',
     ''LATENCY'', ''FLUSHALL'', ''SWAPDB'',
     ''PUBLISH'', ''SPUBLISH'', ''SUBSCRIBE'', ''SSUBSCRIBE'',
     ''UNSUBSCRIBE'', ''SUNSUBSCRIBE'', ''PSUBSCRIBE'', ''PUNSUBSCRIBE'', ''PUBSUB'']"

definition NeedsDBRewrite :: "bytes list \<Rightarrow> bool" where
  "NeedsDBRewrite a = (if a = [] then False else \<not> List.member noRewrite (UpperASCII (a ! 0)))"

definition cloneBytes :: "slice \<Rightarrow> slice" where
  "cloneBytes b = (case b of None \<Rightarrow> None | Some s \<Rightarrow> append_nil s)"

definition cloneArgv :: "argv \<Rightarrow> argv" where
  "cloneArgv a = map cloneBytes a"

definition prefixAt :: "int \<Rightarrow> nat list \<Rightarrow> argv \<Rightarrow> argv" where
  "prefixAt db idx out =
     foldl (\<lambda>o' i. if 0 < i \<and> i < length o' then o'[i := PrefixKey db (o' ! i)] else o') out idx"

text \<open>The option scan of \<open>COPY\<close>: destination database and \<open>REPLACE\<close>.\<close>

function copyScan :: "argv \<Rightarrow> nat \<Rightarrow> int \<Rightarrow> bool \<Rightarrow> int \<times> bool" where
  "copyScan a i destDB replace =
     (if \<not> i < length a then (destDB, replace)
      else if EqualFoldASCII (sl (a ! i)) ''REPLACE'' then copyScan a (i + 1) destDB True
      else if EqualFoldASCII (sl (a ! i)) ''DB'' \<and> i + 1 < length a then
        copyScan a (i + 2)
          (case Atoi (sl (a ! (i + 1))) of None \<Rightarrow> destDB | Some n \<Rightarrow> if n \<ge> 0 then n else destDB) replace
      else copyScan a (i + 1) destDB replace)"
  by pat_completeness auto
termination copyScan
  by (relation "measure (\<lambda>(a, i, d, r). length a - i)") auto

declare copyScan.simps [simp del]

definition rewriteCOPY :: "argv \<Rightarrow> int \<Rightarrow> argv" where
  "rewriteCOPY a db =
     (if length a < 3 then cloneArgv a
      else let (destDB, replace) = copyScan a 3 db False
           in [cloneBytes (a ! 0), PrefixKey db (a ! 1), PrefixKey destDB (a ! 2)] @
              (if replace then [Some ''REPLACE''] else []))"

definition rewriteSCAN :: "argv \<Rightarrow> int \<Rightarrow> argv" where
  "rewriteSCAN a db =
     (let out = cloneArgv a; p = DBPrefix db in
      if p = [] then out
      else (case find (\<lambda>i. EqualFoldASCII (sl (out ! i)) ''MATCH'') [2..<length out - 1] of
              Some i \<Rightarrow> out[i + 1 := PrefixKey db (out ! (i + 1))]
            | None \<Rightarrow> out @ [Some ''MATCH'', Some (p @ ''*'')]))"

definition rewriteKEYS :: "argv \<Rightarrow> int \<Rightarrow> argv" where
  "rewriteKEYS a db =
     (let out = cloneArgv a in if length out \<ge> 2 then out[1 := PrefixKey db (out ! 1)] else out)"

function sortRewrite :: "int \<Rightarrow> argv \<Rightarrow> nat \<Rightarrow> argv" where
  "sortRewrite db out i =
     (if \<not> i + 1 < length out then out
      else if EqualFoldASCII (sl (out ! i)) ''BY'' then
        sortRewrite db (if \<not> EqualFoldASCII (sl (out ! (i + 1))) ''nosort''
                        then out[i + 1 := PrefixKey db (out ! (i + 1))] else out) (i + 2)
      else if EqualFoldASCII (sl (out ! i)) ''GET'' then
        sortRewrite db (if sl (out ! (i + 1)) \<noteq> ''#''
                        then out[i + 1 := PrefixKey db (out ! (i + 1))] else out) (i + 2)
      else if EqualFoldASCII (sl (out ! i)) ''STORE'' then
        sortRewrite db (out[i + 1 := PrefixKey db (out ! (i + 1))]) (i + 2)
      else sortRewrite db out (i + 1))"
  by pat_completeness auto
termination sortRewrite
  by (relation "measure (\<lambda>(db, out, i). length out - i)") auto

declare sortRewrite.simps [simp del]

definition rewriteSORT :: "argv \<Rightarrow> int \<Rightarrow> argv" where
  "rewriteSORT a db =
     (let out = cloneArgv a;
          out1 = (if length out \<ge> 2 then out[1 := PrefixKey db (out ! 1)] else out)
      in sortRewrite db out1 2)"

definition rewriteMOVE :: "argv \<Rightarrow> int \<Rightarrow> argv" where
  "rewriteMOVE a db =
     (let out = cloneArgv a in if length out \<ge> 2 then out[1 := PrefixKey db (out ! 1)] else out)"

definition RewriteArgv :: "argv \<Rightarrow> int \<Rightarrow> argv res" where
  "RewriteArgv a db =
     (if db \<le> 0 \<or> \<not> NeedsDBRewrite (args a) then Ok a
      else
        let name = UpperASCII (sl (a ! 0)) in
        if name = ''COPY'' then Ok (rewriteCOPY a db)
        else if name = ''SCAN'' then Ok (rewriteSCAN a db)
        else if name = ''KEYS'' then Ok (rewriteKEYS a db)
        else if name = ''SORT'' then Ok (rewriteSORT a db)
        else if name = ''MOVE'' then Ok (rewriteMOVE a db)
        else let out = cloneArgv a
             in res_bind (KeyIndexes (args out)) (\<lambda>idx. Ok (prefixAt db idx out)))"

section \<open>Stripping replies\<close>

definition stripBulk :: "int \<Rightarrow> Value \<Rightarrow> Value" where
  "stripBulk db v =
     (if vNull v \<or> (vType v \<noteq> TypeBulkString \<and> vType v \<noteq> TypeSimpleString) then v
      else BulkString (append_nil (sl (StripKey db (vStr v)))))"

definition stripArrayOfKeys :: "int \<Rightarrow> Value \<Rightarrow> Value" where
  "stripArrayOfKeys db v =
     (if vType v \<noteq> TypeArray \<or> vNull v then v else Array (map (stripBulk db) (vValues v)))"

definition stripFirstArrayKey :: "int \<Rightarrow> Value \<Rightarrow> Value" where
  "stripFirstArrayKey db v =
     (if vType v \<noteq> TypeArray \<or> vNull v \<or> vValues v = [] then v
      else Array ((vValues v)[0 := stripBulk db (vValues v ! 0)]))"

definition stripXRead :: "int \<Rightarrow> Value \<Rightarrow> Value" where
  "stripXRead db v =
     (if vType v \<noteq> TypeArray \<or> vNull v then v
      else Array (map (\<lambda>stream.
             if vType stream = TypeArray \<and> length (vValues stream) \<ge> 1
             then Array ((vValues stream)[0 := stripBulk db (vValues stream ! 0)])
             else stream) (vValues v)))"

definition StripReplyKeys :: "bytes \<Rightarrow> int \<Rightarrow> Value \<Rightarrow> Value" where
  "StripReplyKeys name db v =
     (if db \<le> 0 \<or> IsError v \<or> vNull v then v
      else if name = ''KEYS'' then stripArrayOfKeys db v
      else if name = ''SCAN'' then
        (if vType v = TypeArray \<and> length (vValues v) \<ge> 2
         then Array ((vValues v)[1 := stripArrayOfKeys db (vValues v ! 1)]) else v)
      else if name = ''RANDOMKEY'' then stripBulk db v
      else if name \<in> {''BLPOP'', ''BRPOP'', ''BZPOPMIN'', ''BZPOPMAX'', ''LMPOP'', ''BLMPOP'', ''ZMPOP'', ''BZMPOP''}
        then stripFirstArrayKey db v
      else if name \<in> {''XREAD'', ''XREADGROUP''} then stripXRead db v
      else v)"

section \<open>Lemmas on prefixes\<close>

lemma DBPrefix_Nil [simp]: "DBPrefix db = [] \<longleftrightarrow> db \<le> 0"
  by (simp add: DBPrefix_def)

lemma sl_PrefixKey [simp]: "sl (PrefixKey db k) = DBPrefix db @ sl k"
  by (simp add: PrefixKey_def Let_def)

lemma PrefixKey_pos: "0 < db \<Longrightarrow> PrefixKey db k = Some (DBPrefix db @ sl k)"
  by (simp add: PrefixKey_def)

lemma sl_cloneBytes [simp]: "sl (cloneBytes b) = sl b"
  by (cases b) (simp_all add: cloneBytes_def)

lemma args_cloneArgv [simp]: "args (cloneArgv a) = args a"
  by (simp add: cloneArgv_def)

lemma length_cloneArgv [simp]: "length (cloneArgv a) = length a"
  by (simp add: cloneArgv_def)

lemma nth_cloneArgv [simp]: "i < length a \<Longrightarrow> cloneArgv a ! i = cloneBytes (a ! i)"
  by (simp add: cloneArgv_def)

lemma StripKey_PrefixKey: "sl (StripKey db (PrefixKey db k)) = sl k"
  by (simp add: StripKey_def PrefixKey_def Let_def)

lemma takeWhile_AppendInt: "0 < db \<Longrightarrow> takeWhile is_digit (AppendInt db @ CHR '':'' # k) = AppendInt db"
proof -
  assume "0 < db"
  then have "\<forall>c \<in> set (AppendInt db). is_digit c"
    using nat_dec_digits by (simp add: AppendInt_def)
  moreover have "\<not> is_digit (CHR '':'')"
    by (simp add: is_digit_def)
  ultimately show ?thesis by (simp add: takeWhile_append2)
qed

text \<open>The prefix can be read back from a key, so two databases never share a key.\<close>

lemma PrefixKey_inject:
  assumes "0 < d" "0 < e" "int64 d" "int64 e" "DBPrefix d @ k = DBPrefix e @ l"
  shows "d = e \<and> k = l"
proof -
  from assms have eq: "AppendInt d @ CHR '':'' # k = AppendInt e @ CHR '':'' # l"
    by (simp add: DBPrefix_def)
  then have "AppendInt d = AppendInt e"
    using takeWhile_AppendInt [of d k] takeWhile_AppendInt [of e l] assms by simp
  moreover from this have "d = e"
    using assms AppendInt_inject by blast
  ultimately show ?thesis using eq by simp
qed

lemma HasVirtualDBPrefix_PrefixKey:
  assumes "0 < db"
  shows "HasVirtualDBPrefix (DBPrefix db @ k)"
proof -
  let ?n = "AppendInt db" and ?t = "AppendInt db @ CHR '':'' # k"
  have key: "DBPrefix db @ k = CHR ''d'' # CHR ''b'' # ?t"
    using assms by (simp add: DBPrefix_def)
  have "dropWhile is_digit ?t = CHR '':'' # k"
    using takeWhile_dropWhile_id [of is_digit ?t] takeWhile_AppendInt [OF assms, of k] by simp
  moreover have "is_digit (?t ! 0)"
    using hd_nat_dec [of "nat db"] assms by (simp add: AppendInt_def nth_append hd_conv_nth)
  ultimately show ?thesis
    by (simp add: key HasVirtualDBPrefix_def HasPrefix_def Let_def nth_append)
qed

section \<open>Rewriting puts the prefix on every key and nowhere else\<close>

text \<open>\<open>withPrefix p idx a\<close>: the arguments with \<open>p\<close> in front of those at the positions \<open>idx\<close>.\<close>

definition withPrefix :: "bytes \<Rightarrow> nat list \<Rightarrow> bytes list \<Rightarrow> bytes list" where
  "withPrefix p idx a = map (\<lambda>j. if j \<in> set idx then p @ a ! j else a ! j) [0..<length a]"

lemma length_withPrefix [simp]: "length (withPrefix p idx a) = length a"
  by (simp add: withPrefix_def)

lemma nth_withPrefix: "j < length a \<Longrightarrow> withPrefix p idx a ! j = (if j \<in> set idx then p @ a ! j else a ! j)"
  by (simp add: withPrefix_def)

lemma nth_withPrefix_other [simp]: "j < length a \<Longrightarrow> j \<notin> set idx \<Longrightarrow> withPrefix p idx a ! j = a ! j"
  by (simp add: nth_withPrefix)

lemma withPrefix_eqI:
  "length b = length a \<Longrightarrow> (\<And>j. j < length a \<Longrightarrow> b ! j = (if j \<in> set idx then p @ a ! j else a ! j)) \<Longrightarrow>
   b = withPrefix p idx a"
  by (rule nth_equalityI) (auto simp: nth_withPrefix)

lemma length_prefixAt [simp]: "length (prefixAt db idx out) = length out"
  unfolding prefixAt_def by (induction idx arbitrary: out) auto

lemma prefixAt_Nil [simp]: "prefixAt db [] out = out"
  by (simp add: prefixAt_def)

lemma prefixAt_Cons: "prefixAt db (i # idx) out =
  prefixAt db idx (if 0 < i \<and> i < length out then out[i := PrefixKey db (out ! i)] else out)"
  by (simp add: prefixAt_def)

lemma nth_prefixAt:
  "distinct idx \<Longrightarrow> 0 \<notin> set idx \<Longrightarrow> j < length out \<Longrightarrow>
   prefixAt db idx out ! j = (if j \<in> set idx then PrefixKey db (out ! j) else out ! j)"
  by (induction idx arbitrary: out) (auto simp: prefixAt_Cons nth_list_update)

lemma good_idx_distinct: "good_idx n idx \<Longrightarrow> distinct idx \<and> 0 \<notin> set idx"
  by (auto simp: good_idx_def strict_sorted_iff)

lemma args_prefixAt:
  assumes "good_idx (length out) idx"
  shows "args (prefixAt db idx out) = withPrefix (DBPrefix db) idx (args out)"
  using good_idx_distinct [OF assms] by (intro withPrefix_eqI) (auto simp: nth_prefixAt)

text \<open>\<open>SORT\<close> has its own loop; it prefixes the positions \<open>sortKeyIdx\<close> returns.\<close>

lemma sortScan_cong:
  "length a = length b \<Longrightarrow> (\<And>j. i \<le> j \<Longrightarrow> j < length a \<Longrightarrow> a ! j = b ! j) \<Longrightarrow> sortScan a i = sortScan b i"
proof (induction "length a - i" arbitrary: i rule: less_induct)
  case less
  show ?case
  proof (cases "i + 1 < length a")
    case False
    with less.prems show ?thesis by (simp add: sortScan.simps [of _ i])
  next
    case True
    have "sortScan a (i + 1) = sortScan b (i + 1)" "sortScan a (i + 2) = sortScan b (i + 2)"
      using True less.prems by (intro less.hyps; simp)+
    moreover have "a ! i = b ! i" "a ! (i + 1) = b ! (i + 1)"
      using less.prems True by simp_all
    ultimately show ?thesis
      using less.prems(1) by (subst (1 2) sortScan.simps) simp
  qed
qed

lemma sortScan_update: "sortScan (args (out[i + 1 := x])) (i + 2) = sortScan (args out) (i + 2)"
  by (rule sortScan_cong) (auto simp: nth_list_update map_update)

lemma sortRewrite_prefixAt: "sortRewrite db out i = prefixAt db (sortScan (args out) i) out"
proof (induction "length out - i" arbitrary: out i rule: less_induct)
  case less
  show ?case
  proof (cases "i + 1 < length out")
    case False
    then show ?thesis by (simp add: sortRewrite.simps [of _ _ i] sortScan.simps [of _ i])
  next
    case True
    have one: "sortRewrite db out (i + 1) = prefixAt db (sortScan (args out) (i + 1)) out"
      and two: "sortRewrite db out (i + 2) = prefixAt db (sortScan (args out) (i + 2)) out"
      using True by (intro less.hyps; simp)+
    have upd: "sortRewrite db (out[i + 1 := x]) (i + 2) = prefixAt db (sortScan (args out) (i + 2)) (out[i + 1 := x])" for x
      using less.hyps [of "out[i + 1 := x]" "i + 2"] True sortScan_update [of out i x] by simp
    show ?thesis
      using True
      by (subst sortRewrite.simps, subst sortScan.simps)
        (simp add: one [simplified] two [simplified] upd [simplified] prefixAt_Cons)
  qed
qed

section \<open>The keys of a rewritten command are the prefixed keys\<close>

lemma withPrefix_Nil [simp]: "withPrefix p [] a = a"
  by (rule nth_equalityI) (auto simp: withPrefix_def)

text \<open>What each index function depends on.\<close>

lemma evalKeyIdx_cong:
  assumes "length b = length a" and "2 < length a \<Longrightarrow> b ! 2 = a ! 2"
  shows "evalKeyIdx b = evalKeyIdx a"
  using assms(2) unfolding evalKeyIdx_def assms(1) by (cases "2 < length a") simp_all

lemma numkeysIdx_cong:
  assumes "length b = length a" and "k < length a \<Longrightarrow> b ! k = a ! k"
  shows "numkeysIdx b k = numkeysIdx a k"
  using assms(2) unfolding numkeysIdx_def assms(1) by (cases "k < length a") simp_all

lemma xreadKeyIdx_cong:
  assumes "length b = length a"
    and "find (\<lambda>i. EqualFoldASCII (b ! i) ''STREAMS'') [1..<length a] =
         find (\<lambda>i. EqualFoldASCII (a ! i) ''STREAMS'') [1..<length a]"
  shows "xreadKeyIdx b = xreadKeyIdx a"
  unfolding xreadKeyIdx_def assms ..

lemma scanMatchIdx_cong:
  assumes "length b = length a"
    and "find (\<lambda>i. EqualFoldASCII (b ! i) ''MATCH'') [2..<length a - 1] =
         find (\<lambda>i. EqualFoldASCII (a ! i) ''MATCH'') [2..<length a - 1]"
  shows "scanMatchIdx b = scanMatchIdx a"
  unfolding scanMatchIdx_def assms ..

lemma migrateKeyIdx_cong:
  assumes "length b = length a" and "6 \<le> length a \<Longrightarrow> b ! 3 = [] \<longleftrightarrow> a ! 3 = []"
    and "find (\<lambda>i. EqualFoldASCII (b ! i) ''KEYS'') [6..<length a] =
         find (\<lambda>i. EqualFoldASCII (a ! i) ''KEYS'') [6..<length a]"
  shows "migrateKeyIdx b = migrateKeyIdx a"
  using assms(2) unfolding migrateKeyIdx_def assms(1,3) by (cases "6 \<le> length a") simp_all

lemma evalKeyIdx_ge: "j \<in> set (evalKeyIdx a) \<Longrightarrow> 3 \<le> j"
  by (auto simp: evalKeyIdx_def Let_def split: if_splits option.splits)

lemma evalKeyIdx_withPrefix: "evalKeyIdx (withPrefix p (evalKeyIdx a) a) = evalKeyIdx a"
  by (rule evalKeyIdx_cong) (auto simp: nth_withPrefix dest: evalKeyIdx_ge)

lemma numkeysIdx_withPrefix:
  "numkeysIdx a k = Ok idx \<Longrightarrow> set idx' \<subseteq> {1} \<union> set idx \<Longrightarrow> k \<noteq> 1 \<or> idx' = idx \<Longrightarrow>
   numkeysIdx (withPrefix p idx' a) k = Ok idx"
  using numkeysIdx_good [of a k idx]
  by (subst numkeysIdx_cong [of _ a]) (auto simp: nth_withPrefix)

lemma destNumkeysIdx_withPrefix:
  "destNumkeysIdx a = Ok idx \<Longrightarrow> destNumkeysIdx (withPrefix p idx a) = Ok idx"
  by (auto simp: destNumkeysIdx_def res_bind_eq_Ok numkeysIdx_withPrefix split: if_splits)

lemma find_upt_Some_iff:
  "find P [k..<n] = Some i \<longleftrightarrow> k \<le> i \<and> i < n \<and> P i \<and> (\<forall>j. k \<le> j \<and> j < i \<longrightarrow> \<not> P j)"
proof
  assume r: "k \<le> i \<and> i < n \<and> P i \<and> (\<forall>j. k \<le> j \<and> j < i \<longrightarrow> \<not> P j)"
  then show "find P [k..<n] = Some i"
    by (subst find_Some_iff) (auto intro!: exI [of _ "i - k"])
qed (rule find_upt_SomeD)

lemma xreadKeyIdx_withPrefix: "xreadKeyIdx (withPrefix p (xreadKeyIdx a) a) = xreadKeyIdx a"
proof (cases "find (\<lambda>i. EqualFoldASCII (a ! i) ''STREAMS'') [1..<length a]")
  case None
  then show ?thesis by (simp add: xreadKeyIdx_def)
next
  case (Some i)
  let ?b = "withPrefix p (xreadKeyIdx a) a"
  have ge: "j \<in> set (xreadKeyIdx a) \<Longrightarrow> i < j" for j
    using Some by (auto simp: xreadKeyIdx_def Let_def split: if_splits)
  have "?b ! j = a ! j" if "j \<le> i" for j
    using that ge [of j] find_upt_SomeD [OF Some] by (auto simp: nth_withPrefix)
  then have "find (\<lambda>i. EqualFoldASCII (?b ! i) ''STREAMS'') [1..<length a] = Some i"
    using Some by (auto simp: find_upt_Some_iff)
  with Some show ?thesis
    by (intro xreadKeyIdx_cong) simp_all
qed

lemma scanMatchIdx_withPrefix: "scanMatchIdx (withPrefix p (scanMatchIdx a) a) = scanMatchIdx a"
proof (cases "find (\<lambda>i. EqualFoldASCII (a ! i) ''MATCH'') [2..<length a - 1]")
  case None
  then show ?thesis by (simp add: scanMatchIdx_def)
next
  case (Some i)
  let ?b = "withPrefix p (scanMatchIdx a) a"
  have "?b ! j = a ! j" if "j \<le> i" for j
    using that Some find_upt_SomeD [OF Some] by (auto simp: nth_withPrefix scanMatchIdx_def)
  then have "find (\<lambda>i. EqualFoldASCII (?b ! i) ''MATCH'') [2..<length a - 1] = Some i"
    using Some by (auto simp: find_upt_Some_iff)
  with Some show ?thesis
    by (intro scanMatchIdx_cong) simp_all
qed

lemma migrateKeyIdx_withPrefix:
  assumes "p \<noteq> []"
  shows "migrateKeyIdx (withPrefix p (migrateKeyIdx a) a) = migrateKeyIdx a"
proof (cases "find (\<lambda>i. EqualFoldASCII (a ! i) ''KEYS'') [6..<length a]")
  case None
  let ?b = "withPrefix p (migrateKeyIdx a) a"
  have "?b ! j = a ! j" if "6 \<le> j" "j < length a" for j
    using that None by (auto simp: nth_withPrefix migrateKeyIdx_def)
  then have "find (\<lambda>i. EqualFoldASCII (?b ! i) ''KEYS'') [6..<length a] = None"
    using None by (auto simp: find_None_iff)
  moreover have "?b ! 3 = [] \<longleftrightarrow> a ! 3 = []" if "6 \<le> length a"
    using that assms by (simp add: nth_withPrefix) (simp add: migrateKeyIdx_def None)
  ultimately show ?thesis
    using None by (intro migrateKeyIdx_cong) simp_all
next
  case (Some i)
  let ?b = "withPrefix p (migrateKeyIdx a) a"
  have ge: "j \<in> set (migrateKeyIdx a) \<Longrightarrow> i < j" for j
    using Some by (auto simp: migrateKeyIdx_def split: if_splits)
  have "?b ! j = a ! j" if "j \<le> i" for j
    using that ge [of j] find_upt_SomeD [OF Some] by (auto simp: nth_withPrefix)
  then have "find (\<lambda>i. EqualFoldASCII (?b ! i) ''KEYS'') [6..<length a] = Some i"
    using Some by (auto simp: find_upt_Some_iff)
  moreover have "?b ! 3 = a ! 3"
    using ge [of 3] find_upt_SomeD [OF Some] by (auto simp: nth_withPrefix)
  ultimately show ?thesis
    using Some by (intro migrateKeyIdx_cong) simp_all
qed

text \<open>No prefixed key is the word \<open>nosort\<close> or the pattern \<open>#\<close>.\<close>

lemma prefixed_not_keyword:
  assumes "0 < db"
  shows "\<not> EqualFoldASCII (DBPrefix db @ x) ''nosort''" and "DBPrefix db @ x \<noteq> ''#''"
  using assms by (auto simp: DBPrefix_def EqualFoldASCII_iff UpperASCII_map upper_byte_def)

text \<open>The keys one option of \<open>SORT\<close> contributes, and how far the scan moves on.\<close>

definition sortOpt :: "bytes \<Rightarrow> bytes \<Rightarrow> nat \<Rightarrow> nat list \<times> nat" where
  "sortOpt x y i =
     (if EqualFoldASCII x ''BY'' then (if \<not> EqualFoldASCII y ''nosort'' then [i + 1] else [], i + 2)
      else if EqualFoldASCII x ''GET'' then (if y \<noteq> ''#'' then [i + 1] else [], i + 2)
      else if EqualFoldASCII x ''STORE'' then ([i + 1], i + 2)
      else ([], i + 1))"

lemma sortScan_step:
  "i + 1 < length a \<Longrightarrow>
   sortScan a i = fst (sortOpt (a ! i) (a ! (i + 1)) i) @ sortScan a (snd (sortOpt (a ! i) (a ! (i + 1)) i))"
  by (subst sortScan.simps) (simp add: sortOpt_def)

lemma sortOpt_cases: "(fst (sortOpt x y i) = [] \<and> snd (sortOpt x y i) \<in> {i + 1, i + 2}) \<or>
    (fst (sortOpt x y i) = [i + 1] \<and> snd (sortOpt x y i) = i + 2)"
  by (auto simp: sortOpt_def)

lemma sortOpt_prefixed: "0 < db \<Longrightarrow> fst (sortOpt x y i) = [i + 1] \<Longrightarrow> sortOpt x (DBPrefix db @ y) i = sortOpt x y i"
  using prefixed_not_keyword [of db y] by (auto simp: sortOpt_def split: if_splits)

lemma sortScan_withPrefix:
  assumes "0 < db" and "length b = length a"
    and "\<And>j. i \<le> j \<Longrightarrow> j < length a \<Longrightarrow> b ! j = (if j \<in> set (sortScan a i) then DBPrefix db @ a ! j else a ! j)"
  shows "sortScan b i = sortScan a i"
  using assms(3)
proof (induction "length a - i" arbitrary: i rule: less_induct)
  case less
  note eqs = less.prems
  show ?case
  proof (cases "i + 1 < length a")
    case False
    with assms(2) show ?thesis by (simp add: sortScan.simps [of _ i])
  next
    case True
    have bnd: "k \<in> set (sortScan a m) \<Longrightarrow> m < k" for k m
      using sortScan_bounds [of a m] by blast
    have bi: "b ! i = a ! i"
      using eqs [of i] bnd [of i i] True by auto
    have IH: "sortScan b m = sortScan a m"
      if "i < m" "\<And>j. m \<le> j \<Longrightarrow> j \<in> set (sortScan a i) \<longleftrightarrow> j \<in> set (sortScan a m)" for m
      using that eqs True by (intro less.hyps) auto
    let ?o = "sortOpt (a ! i) (a ! (i + 1)) i"
    have st: "sortScan a i = fst ?o @ sortScan a (snd ?o)"
      using True by (rule sortScan_step)
    have next_eq: "sortScan b (snd ?o) = sortScan a (snd ?o)"
      using sortOpt_cases [of "a ! i" "a ! (i + 1)" i] by (intro IH) (auto simp: st)
    have "i + 1 \<in> set (sortScan a i) \<longleftrightarrow> fst ?o = [i + 1]"
      using sortOpt_cases [of "a ! i" "a ! (i + 1)" i] bnd [of "i + 1" "snd ?o"] st
      by (cases "fst ?o = [i + 1]") (auto dest: bnd)
    then have "sortOpt (b ! i) (b ! (i + 1)) i = ?o"
      using eqs [of "i + 1"] True bi sortOpt_prefixed [OF assms(1), of "a ! i" "a ! (i + 1)" i] by auto
    then show ?thesis
      using sortScan_step [of i b] True assms(2) st next_eq by simp
  qed
qed

lemma sortKeyIdx_withPrefix:
  assumes "0 < db"
  shows "sortKeyIdx (withPrefix (DBPrefix db) (sortKeyIdx a) a) = sortKeyIdx a"
proof -
  have "sortScan (withPrefix (DBPrefix db) (sortKeyIdx a) a) 2 = sortScan a 2"
    by (rule sortScan_withPrefix [OF assms]) (auto simp: nth_withPrefix sortKeyIdx_def)
  then show ?thesis by (simp add: sortKeyIdx_def)
qed

lemma indexesBySpec_withPrefix [simp]: "indexesBySpec (withPrefix p idx a) ks = indexesBySpec a ks"
  unfolding indexesBySpec_def length_withPrefix ..

definition stable :: "bytes \<Rightarrow> (bytes list \<Rightarrow> nat list res) \<Rightarrow> bool" where
  "stable p r \<longleftrightarrow> (\<forall>a idx. r a = Ok idx \<longrightarrow> r (withPrefix p idx a) = Ok idx)"

lemma stable_Ok: "(\<And>a. f (withPrefix p (f a) a) = f a) \<Longrightarrow> stable p (\<lambda>a. Ok (f a))"
  by (simp add: stable_def)

lemma stable_numkeys: "stable p (\<lambda>a. numkeysIdx a k)" "stable p destNumkeysIdx"
  by (auto simp: stable_def intro: numkeysIdx_withPrefix destNumkeysIdx_withPrefix)

lemma stable_memory:
  "stable p (\<lambda>a. if length a \<ge> 3 \<and> EqualFoldASCII (a ! 1) ''USAGE'' then Ok [2] else Ok [])"
  "stable p (\<lambda>a. if length a \<ge> 2 then Ok [1] else Ok [])"
  by (auto simp: stable_def nth_withPrefix split: if_splits)

lemma stable_table:
  "stable p (case Lookup name of None \<Rightarrow> (\<lambda>a. Ok [])
     | Some m \<Rightarrow> if First (mKeys m) = 0 then (\<lambda>a. Ok []) else (\<lambda>a. Ok (indexesBySpec a (mKeys m))))"
  by (auto intro: stable_Ok split: option.split)

lemma stable_not_geo:
  "name \<notin> {''GEORADIUS'', ''GEORADIUSBYMEMBER''} \<Longrightarrow> stable p r \<Longrightarrow>
   stable p (if name \<in> {''GEORADIUS'', ''GEORADIUSBYMEMBER''} then q else r)"
  by simp

lemma stable_keyRule:
  assumes "0 < db" and "name \<notin> {''GEORADIUS'', ''GEORADIUSBYMEMBER''}"
  shows "stable (DBPrefix db) (keyRule name)"
proof -
  have p: "DBPrefix db \<noteq> []"
    using assms by simp
  note stable_not_geo [OF assms(2)] stable_table if_pred [where P = "stable (DBPrefix db)"] stable_numkeys
    stable_memory stable_Ok evalKeyIdx_withPrefix xreadKeyIdx_withPrefix migrateKeyIdx_withPrefix [OF p]
    scanMatchIdx_withPrefix sortKeyIdx_withPrefix [OF assms(1)]
  note rules = this
  show ?thesis
    unfolding keyRule_def by (rule rules)+
qed

lemma KeyIndexes_withPrefix:
  assumes "KeyIndexes a = Ok idx" and "0 < db"
    and "UpperASCII (a ! 0) \<notin> {''GEORADIUS'', ''GEORADIUSBYMEMBER''}"
  shows "KeyIndexes (withPrefix (DBPrefix db) idx a) = Ok idx"
proof (cases "a = []")
  case True
  with assms show ?thesis by (simp add: KeyIndexes_def)
next
  case False
  have "0 \<notin> set idx"
    using KeyIndexes_good [OF assms(1)] by (auto simp: good_idx_def)
  with False have "withPrefix (DBPrefix db) idx a ! 0 = a ! 0" "withPrefix (DBPrefix db) idx a \<noteq> []"
    using length_withPrefix [of "DBPrefix db" idx a] by (auto simp del: length_withPrefix)
  then show ?thesis
    using assms False stable_keyRule [OF assms(2,3)] by (simp add: KeyIndexes_def stable_def)
qed

section \<open>Commands that are not rewritten have no keys\<close>

definition keyless :: "string \<times> Meta \<Rightarrow> bool" where
  "keyless e \<longleftrightarrow> First (mKeys (snd e)) = 0 \<or> \<not> List.member noRewrite (fst e)"

lemma keyless_strings: "list_all keyless table_strings"
  by (simp add: table_strings_def keyless_def noRewrite_def spec_def)

lemma keyless_keys: "list_all keyless table_keys"
  by (simp add: table_keys_def keyless_def noRewrite_def spec_def)

lemma keyless_hashes: "list_all keyless table_hashes"
  by (simp add: table_hashes_def keyless_def noRewrite_def spec_def)

lemma keyless_lists: "list_all keyless table_lists"
  by (simp add: table_lists_def keyless_def noRewrite_def spec_def)

lemma keyless_sets: "list_all keyless table_sets"
  by (simp add: table_sets_def keyless_def noRewrite_def spec_def)

lemma keyless_zsets: "list_all keyless table_zsets"
  by (simp add: table_zsets_def keyless_def noRewrite_def spec_def)

lemma keyless_streams: "list_all keyless table_streams"
  by (simp add: table_streams_def keyless_def noRewrite_def spec_def)

lemma keyless_misc: "list_all keyless table_misc"
  by (simp add: table_misc_def keyless_def noRewrite_def spec_def)

lemma keyless_scripts: "list_all keyless table_scripts"
  by (simp add: table_scripts_def keyless_def noRewrite_def spec_def)

lemma keyless_txn: "list_all keyless table_txn"
  by (simp add: table_txn_def keyless_def noRewrite_def spec_def)

lemma keyless_pubsub: "list_all keyless table_pubsub"
  by (simp add: table_pubsub_def keyless_def noRewrite_def spec_def)

lemma keyless_admin: "list_all keyless table_admin"
  by (simp add: table_admin_def keyless_def noRewrite_def spec_def)

lemma noRewrite_keyless:
  assumes "List.member noRewrite name" "Lookup name = Some m"
  shows "First (mKeys m) = 0"
proof -
  have "list_all keyless table"
    by (simp add: table_def keyless_strings keyless_keys keyless_hashes keyless_lists keyless_sets keyless_zsets keyless_streams keyless_misc keyless_scripts keyless_txn keyless_pubsub keyless_admin)
  with assms show ?thesis
    by (auto simp: Lookup_def list_all_iff keyless_def dest!: assoc_SomeD)
qed

text \<open>The names \<open>KeyIndexes\<close> handles before it reads the table.\<close>

definition keySpecial :: "bytes list" where
  "keySpecial = [''EVAL'', ''EVALSHA'', ''EVAL_RO'', ''EVALSHA_RO'', ''XREAD'', ''XREADGROUP'', ''MIGRATE'',
     ''LMPOP'', ''ZMPOP'', ''SINTERCARD'', ''BLMPOP'', ''BZMPOP'', ''ZUNIONSTORE'', ''ZINTERSTORE'', ''ZDIFFSTORE'',
     ''ZUNION'', ''ZINTER'', ''ZDIFF'', ''MEMORY'', ''KEYS'', ''SCAN'', ''SORT'', ''GEORADIUS'', ''GEORADIUSBYMEMBER'']"

lemma KeyIndexes_default:
  "a \<noteq> [] \<Longrightarrow> UpperASCII (a ! 0) \<notin> set keySpecial \<Longrightarrow>
   KeyIndexes a = (case Lookup (UpperASCII (a ! 0)) of None \<Rightarrow> Ok []
     | Some m \<Rightarrow> if First (mKeys m) = 0 then Ok [] else Ok (indexesBySpec a (mKeys m)))"
  by (simp add: KeyIndexes_def keyRule_def keySpecial_def split: option.split)

lemma noRewrite_special: "list_all (\<lambda>n. n \<notin> set keySpecial) noRewrite"
  by (simp add: noRewrite_def keySpecial_def)

lemma noRewrite_KeyIndexes:
  assumes "\<not> NeedsDBRewrite a"
  shows "KeyIndexes a = Ok []"
proof (cases "a = []")
  case True
  then show ?thesis by (simp add: KeyIndexes_def)
next
  case False
  with assms have mem: "List.member noRewrite (UpperASCII (a ! 0))"
    by (simp add: NeedsDBRewrite_def)
  then have "UpperASCII (a ! 0) \<notin> set keySpecial"
    using noRewrite_special by (auto simp: list_all_iff)
  then show ?thesis
    using False noRewrite_keyless [OF mem] by (simp add: KeyIndexes_default split: option.splits)
qed

section \<open>What \<open>RewriteArgv\<close> returns\<close>

lemma rewriteKEYS_prefixAt: "rewriteKEYS a db = prefixAt db (if length a \<ge> 2 then [1] else []) (cloneArgv a)"
  and rewriteMOVE_prefixAt: "rewriteMOVE a db = prefixAt db (if length a \<ge> 2 then [1] else []) (cloneArgv a)"
  by (simp_all add: rewriteKEYS_def rewriteMOVE_def Let_def prefixAt_Cons)

lemma rewriteSORT_prefixAt: "rewriteSORT a db = prefixAt db (sortKeyIdx (args a)) (cloneArgv a)"
proof -
  have "sortScan (args ((cloneArgv a)[1 := x])) 2 = sortScan (args (cloneArgv a)) 2" for x
    by (rule sortScan_cong) (auto simp: nth_list_update map_update)
  then show ?thesis
    by (simp add: rewriteSORT_def Let_def sortRewrite_prefixAt sortKeyIdx_def prefixAt_Cons)
qed

lemma KeyIndexes_MOVE:
  "a \<noteq> [] \<Longrightarrow> UpperASCII (a ! 0) = ''MOVE'' \<Longrightarrow> KeyIndexes a = Ok (if length a \<ge> 2 then [1] else [])"
  by (simp add: KeyIndexes_def keyRule_def lookup_eval indexesBySpec_single [unfolded spec_def] spec_def)

lemma RewriteArgv_prefixAt:
  assumes "0 < db" and "NeedsDBRewrite (args a)" and "KeyIndexes (args a) = Ok idx"
    and "UpperASCII (sl (a ! 0)) \<notin> {''COPY'', ''SCAN''}"
  shows "RewriteArgv a db = Ok (prefixAt db idx (cloneArgv a))"
proof -
  have ne: "a \<noteq> []" "args a ! 0 = sl (a ! 0)"
    using assms(2) by (cases a; simp add: NeedsDBRewrite_def)+
  consider "UpperASCII (sl (a ! 0)) = ''KEYS''" | "UpperASCII (sl (a ! 0)) = ''SORT''"
    | "UpperASCII (sl (a ! 0)) = ''MOVE''" | "UpperASCII (sl (a ! 0)) \<notin> {''KEYS'', ''SORT'', ''MOVE''}"
    by blast
  then show ?thesis
  proof cases
    case 1
    with assms ne show ?thesis
      by (simp add: RewriteArgv_def rewriteKEYS_prefixAt KeyIndexes_def keyRule_def split: if_splits)
  next
    case 2
    with assms ne show ?thesis
      by (simp add: RewriteArgv_def rewriteSORT_prefixAt KeyIndexes_def keyRule_def split: if_splits)
  next
    case 3
    with assms ne KeyIndexes_MOVE [of "args a"] show ?thesis
      by (simp add: RewriteArgv_def rewriteMOVE_prefixAt split: if_splits)
  next
    case 4
    with assms show ?thesis
      by (simp add: RewriteArgv_def Let_def)
  qed
qed

lemma RewriteArgv_args:
  assumes "0 < db" and "KeyIndexes (args a) = Ok idx" and "UpperASCII (sl (a ! 0)) \<notin> {''COPY'', ''SCAN''}"
  shows "\<exists>b. RewriteArgv a db = Ok b \<and> args b = withPrefix (DBPrefix db) idx (args a)"
proof (cases "NeedsDBRewrite (args a)")
  case True
  with assms RewriteArgv_prefixAt [of db a idx] KeyIndexes_good [OF assms(2)] show ?thesis
    by (simp add: args_prefixAt)
next
  case False
  with noRewrite_KeyIndexes [OF this] assms show ?thesis
    by (simp add: RewriteArgv_def)
qed

lemma map_nth_withPrefix:
  "good_idx (length a) idx \<Longrightarrow> map (\<lambda>j. withPrefix p idx a ! j) idx = map (\<lambda>j. p @ a ! j) idx"
  by (auto simp: nth_withPrefix good_idx_def)

lemma args_ExtractKeys:
  "KeyIndexes (args a) = Ok idx \<Longrightarrow> ExtractKeys a = Ok ks \<Longrightarrow> args ks = map (\<lambda>j. args a ! j) idx"
  using KeyIndexes_good [of "args a" idx] by (auto simp: ExtractKeys_def good_idx_def)

section \<open>The virtual databases as name spaces\<close>

abbreviation dbKey :: "int \<Rightarrow> bytes \<Rightarrow> bytes" where
  "dbKey db k \<equiv> sl (PrefixKey db (Some k))"

text \<open>Database 0 holds the keys that do not look like a key of another database.\<close>

definition inDB :: "int \<Rightarrow> bytes \<Rightarrow> bool" where
  "inDB db k \<longleftrightarrow> int64 db \<and> (0 < db \<or> db = 0 \<and> \<not> HasVirtualDBPrefix k)"

interpretation vdb: namespaces dbKey inDB
proof unfold_locales
  fix d e k l
  assume d: "inDB d k" and e: "inDB e l" and eq: "dbKey d k = dbKey e l"
  have zero: "DBPrefix 0 = []"
    by simp
  consider "0 < d" "0 < e" | "d = 0" "e = 0" | "0 < d" "e = 0" | "d = 0" "0 < e"
    using d e by (auto simp: inDB_def)
  then show "d = e \<and> k = l"
  proof cases
    case 1
    with d e eq show ?thesis using PrefixKey_inject [of d e k l] by (simp add: inDB_def)
  next
    case 2
    with eq zero show ?thesis by simp
  next
    case 3
    with e eq zero HasVirtualDBPrefix_PrefixKey [of d k] show ?thesis by (simp add: inDB_def)
  next
    case 4
    with d eq zero HasVirtualDBPrefix_PrefixKey [of e l] show ?thesis by (simp add: inDB_def)
  qed
qed

section \<open>Properties\<close>

text \<open>
  C8. In a virtual database every command (\<open>COPY\<close> and \<open>SCAN\<close> have rules of their own) is sent with
  the database prefix in front of exactly its keys: every other argument keeps its contents,
  and, \<open>GEORADIUS\<close> apart, the keys read from the rewritten command are the prefixed
  keys of the original. So the slot computed for routing is the slot of the keys sent.\<close>

theorem RewriteArgv_prefixes_exactly_the_keys:
  assumes "0 < db" and "KeyIndexes (args a) = Ok idx" and "UpperASCII (sl (a ! 0)) \<notin> {''COPY'', ''SCAN''}"
  shows "\<exists>b. RewriteArgv a db = Ok b \<and>
    (\<forall>j < length a. sl (b ! j) = (if j \<in> set idx then DBPrefix db @ sl (a ! j) else sl (a ! j))) \<and>
    length b = length a \<and>
    (UpperASCII (sl (a ! 0)) \<notin> {''GEORADIUS'', ''GEORADIUSBYMEMBER''} \<longrightarrow>
      (\<exists>ks ks'. ExtractKeys a = Ok ks \<and> ExtractKeys b = Ok ks' \<and> args ks' = map (\<lambda>k. DBPrefix db @ k) (args ks)))"
proof -
  from RewriteArgv_args [OF assms] obtain b
    where b: "RewriteArgv a db = Ok b" "args b = withPrefix (DBPrefix db) idx (args a)" by blast
  have len: "length b = length a"
    using arg_cong [OF b(2), of length] by simp
  have nth: "sl (b ! j) = (if j \<in> set idx then DBPrefix db @ sl (a ! j) else sl (a ! j))" if "j < length a" for j
    using that len arg_cong [OF b(2), of "\<lambda>x. x ! j"] by (simp add: nth_withPrefix)
  have keys: "\<exists>ks ks'. ExtractKeys a = Ok ks \<and> ExtractKeys b = Ok ks' \<and> args ks' = map (\<lambda>k. DBPrefix db @ k) (args ks)"
    if "UpperASCII (sl (a ! 0)) \<notin> {''GEORADIUS'', ''GEORADIUSBYMEMBER''}"
  proof (cases "a = []")
    case True
    with len show ?thesis by (simp add: ExtractKeys_def KeyIndexes_def)
  next
    case False
    with that have "KeyIndexes (args b) = Ok idx"
      using KeyIndexes_withPrefix [OF assms(2,1)] b(2) by simp
    then show ?thesis
      using assms(2) KeyIndexes_good [OF assms(2)] nth by (auto simp: ExtractKeys_def good_idx_def)
  qed
  show ?thesis using b(1) nth len keys by blast
qed

theorem RewriteArgv_prefixes_witness:
  "\<exists>b. RewriteArgv [Some ''KEYS'', Some ''a*''] 3 = Ok b \<and> sl (b ! 1) = DBPrefix 3 @ ''a*''"
proof -
  have "UpperASCII ''KEYS'' = ''KEYS''"
    by (simp add: UpperASCII_def)
  then have "KeyIndexes (args [Some ''KEYS'', Some ''a*'']) = Ok [1]"
    by (simp add: KeyIndexes_def keyRule_def)
  from RewriteArgv_prefixes_exactly_the_keys [OF _ this, of 3] show ?thesis
    by (fastforce simp: UpperASCII_def)
qed







end
