(* ===== verification/Cluster_Slot.thy ===== *)
theory Cluster_Slot
  imports Resp_Value
begin

text \<open>
  \<open>internal/cluster/crc16.go\<close> and \<open>internal/cluster/slot.go\<close>: hash slots and redirects.
  The table-driven CRC16 is shown equal to the bitwise definition of the polynomial
  0x1021; slots are below 16384; the hash tag is characterised, and a redirect is parsed
  exactly when it has the form the cluster writes.
\<close>

unbundle bit_operations_syntax

type_synonym uint16 = "16 word"

section \<open>CRC16\<close>

definition crc16tab :: "uint16 list" where
  "crc16tab = [
   0x0000, 0x1021, 0x2042, 0x3063, 0x4084, 0x50a5, 0x60c6, 0x70e7,
   0x8108, 0x9129, 0xa14a, 0xb16b, 0xc18c, 0xd1ad, 0xe1ce, 0xf1ef,
   0x1231, 0x0210, 0x3273, 0x2252, 0x52b5, 0x4294, 0x72f7, 0x62d6,
   0x9339, 0x8318, 0xb37b, 0xa35a, 0xd3bd, 0xc39c, 0xf3ff, 0xe3de,
   0x2462, 0x3443, 0x0420, 0x1401, 0x64e6, 0x74c7, 0x44a4, 0x5485,
   0xa56a, 0xb54b, 0x8528, 0x9509, 0xe5ee, 0xf5cf, 0xc5ac, 0xd58d,
   0x3653, 0x2672, 0x1611, 0x0630, 0x76d7, 0x66f6, 0x5695, 0x46b4,
   0xb75b, 0xa77a, 0x9719, 0x8738, 0xf7df, 0xe7fe, 0xd79d, 0xc7bc,
   0x48c4, 0x58e5, 0x6886, 0x78a7, 0x0840, 0x1861, 0x2802, 0x3823,
   0xc9cc, 0xd9ed, 0xe98e, 0xf9af, 0x8948, 0x9969, 0xa90a, 0xb92b,
   0x5af5, 0x4ad4, 0x7ab7, 0x6a96, 0x1a71, 0x0a50, 0x3a33, 0x2a12,
   0xdbfd, 0xcbdc, 0xfbbf, 0xeb9e, 0x9b79, 0x8b58, 0xbb3b, 0xab1a,
   0x6ca6, 0x7c87, 0x4ce4, 0x5cc5, 0x2c22, 0x3c03, 0x0c60, 0x1c41,
   0xedae, 0xfd8f, 0xcdec, 0xddcd, 0xad2a, 0xbd0b, 0x8d68, 0x9d49,
   0x7e97, 0x6eb6, 0x5ed5, 0x4ef4, 0x3e13, 0x2e32, 0x1e51, 0x0e70,
   0xff9f, 0xefbe, 0xdfdd, 0xcffc, 0xbf1b, 0xaf3a, 0x9f59, 0x8f78,
   0x9188, 0x81a9, 0xb1ca, 0xa1eb, 0xd10c, 0xc12d, 0xf14e, 0xe16f,
   0x1080, 0x00a1, 0x30c2, 0x20e3, 0x5004, 0x4025, 0x7046, 0x6067,
   0x83b9, 0x9398, 0xa3fb, 0xb3da, 0xc33d, 0xd31c, 0xe37f, 0xf35e,
   0x02b1, 0x1290, 0x22f3, 0x32d2, 0x4235, 0x5214, 0x6277, 0x7256,
   0xb5ea, 0xa5cb, 0x95a8, 0x8589, 0xf56e, 0xe54f, 0xd52c, 0xc50d,
   0x34e2, 0x24c3, 0x14a0, 0x0481, 0x7466, 0x6447, 0x5424, 0x4405,
   0xa7db, 0xb7fa, 0x8799, 0x97b8, 0xe75f, 0xf77e, 0xc71d, 0xd73c,
   0x26d3, 0x36f2, 0x0691, 0x16b0, 0x6657, 0x7676, 0x4615, 0x5634,
   0xd94c, 0xc96d, 0xf90e, 0xe92f, 0x99c8, 0x89e9, 0xb98a, 0xa9ab,
   0x5844, 0x4865, 0x7806, 0x6827, 0x18c0, 0x08e1, 0x3882, 0x28a3,
   0xcb7d, 0xdb5c, 0xeb3f, 0xfb1e, 0x8bf9, 0x9bd8, 0xabbb, 0xbb9a,
   0x4a75, 0x5a54, 0x6a37, 0x7a16, 0x0af1, 0x1ad0, 0x2ab3, 0x3a92,
   0xfd2e, 0xed0f, 0xdd6c, 0xcd4d, 0xbdaa, 0xad8b, 0x9de8, 0x8dc9,
   0x7c26, 0x6c07, 0x5c64, 0x4c45, 0x3ca2, 0x2c83, 0x1ce0, 0x0cc1,
   0xef1f, 0xff3e, 0xcf5d, 0xdf7c, 0xaf9b, 0xbfba, 0x8fd9, 0x9ff8,
   0x6e17, 0x7e36, 0x4e55, 0x5e74, 0x2e93, 0x3eb2, 0x0ed1, 0x1ef0]"

fun crc16_loop :: "uint16 \<Rightarrow> bytes \<Rightarrow> uint16" where
  "crc16_loop crc [] = crc"
| "crc16_loop crc (c # b) =
     crc16_loop (push_bit 8 crc XOR crc16tab ! unat ((drop_bit 8 crc XOR of_char c) AND 0x00FF)) b"

definition crc16 :: "bytes \<Rightarrow> uint16" where
  "crc16 b = crc16_loop 0 b"

abbreviation (input) slotMask :: uint16 where
  "slotMask \<equiv> 0x3FFF"

abbreviation (input) SlotCount :: nat where
  "SlotCount \<equiv> 16384"

text \<open>The bitwise reference: one bit of the message at a time, most significant first.\<close>

definition crc_step :: "uint16 \<Rightarrow> uint16" where
  "crc_step x = push_bit 1 x XOR (if bit x 15 then 0x1021 else 0)"

definition crc_step8 :: "uint16 \<Rightarrow> uint16" where
  "crc_step8 x = crc_step (crc_step (crc_step (crc_step (crc_step (crc_step (crc_step (crc_step x)))))))"

fun crc_ref :: "uint16 \<Rightarrow> bytes \<Rightarrow> uint16" where
  "crc_ref crc [] = crc"
| "crc_ref crc (c # b) = crc_ref (crc_step8 (crc XOR push_bit 8 (of_char c))) b"

lemma crc_step_xor: "crc_step (x XOR y) = crc_step x XOR crc_step y"
  by (auto simp: crc_step_def bit_xor_iff push_bit_xor ac_simps)

lemma crc_step8_xor: "crc_step8 (x XOR y) = crc_step8 x XOR crc_step8 y"
  by (simp add: crc_step8_def crc_step_xor)

text \<open>The table is closed under doubling the index: entry \<open>2k\<close> is one more step from entry \<open>k\<close>.
  The 256 literals are checked once, over the integers.\<close>

definition int_step :: "int \<Rightarrow> int" where
  "int_step x = (if x < 32768 then 2 * x else (2 * x - 65536) XOR 4129)"

lemma div_half: "0 \<le> (x :: int) \<Longrightarrow> x < 65536 \<Longrightarrow> even (x div 32768) \<longleftrightarrow> x < 32768"
proof -
  assume "0 \<le> x" "x < 65536"
  then have "x div 32768 = (if x < 32768 then 0 else 1)"
    by (auto simp: div_pos_pos_trivial intro: int_div_pos_eq [where r = "x - 32768"])
  then show ?thesis by simp
qed

lemma bit15_iff: "bit (w :: uint16) 15 \<longleftrightarrow> \<not> uint w < 32768"
proof -
  have "bit w 15 \<longleftrightarrow> bit (uint w) 15"
    by (simp add: bit_uint_iff)
  also have "\<dots> \<longleftrightarrow> odd (uint w div 32768)"
    by (simp add: bit_iff_odd)
  finally show ?thesis
    using div_half [of "uint w"] uint_lt2p [of w] by simp
qed

lemma crc_step_int: "crc_step w = word_of_int (int_step (uint w))"
proof -
  have "(65536 :: uint16) = 0"
    by simp
  then show ?thesis
    by (simp only: crc_step_def int_step_def bit15_iff of_int_xor_eq push_bit_eq_mult of_int_diff of_int_mult
        of_int_numeral word_of_int_uint if_distrib [of word_of_int]) (simp add: ac_simps)
qed

lemma crc16tab_doubling_int:
  "map uint crc16tab = concat (map (\<lambda>x. [int_step x, int_step x XOR 4129]) (map uint (take 128 crc16tab)))"
  by (simp add: int_step_def crc16tab_def)

lemma crc16tab_doubling:
  "crc16tab = concat (map (\<lambda>w. [crc_step w, crc_step w XOR 0x1021]) (take 128 crc16tab))"
proof -
  have "crc16tab = map word_of_int (map uint crc16tab)"
    by (simp add: o_def map_idI)
  also have "\<dots> = concat (map (\<lambda>w. [crc_step w, crc_step w XOR 0x1021]) (take 128 crc16tab))"
    by (subst crc16tab_doubling_int) (simp add: map_concat o_def crc_step_int of_int_xor_eq)
  finally show ?thesis .
qed

lemma length_crc16tab: "length crc16tab = 256"
  by (simp add: crc16tab_def)

lemma nth_concat_pairs: "k < length xs \<Longrightarrow> concat (map (\<lambda>w. [f w, g w]) xs) ! (2 * k) = f (xs ! k)
  \<and> concat (map (\<lambda>w. [f w, g w]) xs) ! Suc (2 * k) = g (xs ! k)"
  by (induction xs arbitrary: k) (auto simp: less_Suc_eq_0_disj)

lemma crc16tab_even: "k < 128 \<Longrightarrow> crc16tab ! (2 * k) = crc_step (crc16tab ! k)"
  by (subst crc16tab_doubling) (simp add: nth_concat_pairs length_crc16tab)

lemma crc16tab_odd: "k < 128 \<Longrightarrow> crc16tab ! Suc (2 * k) = crc_step (crc16tab ! k) XOR 0x1021"
  by (subst crc16tab_doubling) (simp add: nth_concat_pairs length_crc16tab)

lemma crc_step_top: "k < 128 \<Longrightarrow> crc_step (push_bit 8 (of_nat k)) = push_bit 8 (of_nat (2 * k))"
proof -
  assume "k < 128"
  then have "\<not> bit k 7"
    by (simp add: bit_iff_odd)
  then have "\<not> bit (push_bit 8 (of_nat k :: uint16)) 15"
    by (simp add: bit_push_bit_iff bit_of_nat_iff)
  then show ?thesis
    by (simp add: crc_step_def push_bit_eq_mult)
qed

lemma crc_step8_double: "k < 128 \<Longrightarrow>
   crc_step8 (push_bit 8 (of_nat (2 * k))) = crc_step (crc_step8 (push_bit 8 (of_nat k)))"
  using crc_step_top [of k] by (simp add: crc_step8_def)

lemma crc_step8_one: "crc_step8 0x100 = 0x1021"
  by (simp add: crc_step8_def crc_step_def)

lemma even_xor_one: "push_bit 8 (of_nat (Suc (2 * k))) = push_bit 8 (of_nat (2 * k)) XOR (0x100 :: uint16)"
proof -
  have "of_nat (Suc (2 * k)) = of_nat (2 * k) XOR (1 :: uint16)"
    by (simp add: xor_one_eq)
  then have "push_bit 8 (of_nat (Suc (2 * k))) = push_bit 8 (of_nat (2 * k)) XOR push_bit 8 (1 :: uint16)"
    by (simp only: push_bit_xor)
  then show ?thesis by (simp add: push_bit_eq_mult)
qed

lemma crc_step8_double1: "k < 128 \<Longrightarrow>
   crc_step8 (push_bit 8 (of_nat (Suc (2 * k)))) = crc_step (crc_step8 (push_bit 8 (of_nat k))) XOR 0x1021"
proof -
  assume k: "k < 128"
  have "push_bit 8 (of_nat (Suc (2 * k))) = push_bit 8 (of_nat (2 * k)) XOR (0x100 :: uint16)"
    using even_xor_one [of k] by simp
  with crc_step8_double [OF k] show ?thesis
    by (simp only: crc_step8_xor crc_step8_one)
qed

lemma crc16tab_nth: "k < 256 \<Longrightarrow> crc16tab ! k = crc_step8 (push_bit 8 (of_nat k))"
proof (induction k rule: less_induct)
  case (less k)
  consider "k = 0" | j where "k = 2 * j" "j < k" | j where "k = Suc (2 * j)" "j < k"
    by (cases "k = 0"; cases "even k") (auto elim!: evenE oddE)
  then show ?case
  proof cases
    case 1
    then show ?thesis by (simp add: crc16tab_def crc_step8_def crc_step_def)
  next
    case 2
    with less have "j < 128" "crc16tab ! j = crc_step8 (push_bit 8 (of_nat j))" by auto
    with 2 show ?thesis by (simp only: crc16tab_even crc_step8_double)
  next
    case 3
    with less have "j < 128" "crc16tab ! j = crc_step8 (push_bit 8 (of_nat j))" by auto
    with 3 show ?thesis by (simp only: crc16tab_odd crc_step8_double1)
  qed
qed

text \<open>On a value below 256 the eight steps only shift: no bit reaches position 15.\<close>

lemma crc_step_shift: "n < 8 \<Longrightarrow> crc_step (push_bit n (take_bit 8 x)) = push_bit (Suc n) (take_bit 8 x)"
  by (auto simp: crc_step_def bit_push_bit_iff bit_take_bit_iff)

lemma crc_step8_low: "crc_step8 (take_bit 8 x) = push_bit 8 (take_bit 8 x)"
  using crc_step_shift [of 0 x] crc_step_shift [of 1 x] crc_step_shift [of 2 x] crc_step_shift [of 3 x]
    crc_step_shift [of 4 x] crc_step_shift [of 5 x] crc_step_shift [of 6 x] crc_step_shift [of 7 x]
  by (simp add: crc_step8_def numeral_eq_Suc)

lemma word16_split: "x = push_bit 8 (drop_bit 8 x) XOR take_bit 8 (x :: uint16)"
  by (rule bit_word_eqI) (auto simp: bit_xor_iff bit_push_bit_iff bit_drop_bit_eq bit_take_bit_iff)

lemma mask_low: "w AND 0x00FF = take_bit 8 (w :: uint16)"
  by (simp add: take_bit_eq_mask mask_eq_exp_minus_1)

lemma mask_less: "unat (w AND 0x00FF :: uint16) < 256"
  using take_bit_nat_less_exp [of 8 "unat w"] by (simp only: mask_low unsigned_take_bit_eq) simp

lemma table_step:
  "push_bit 8 crc XOR crc16tab ! unat ((drop_bit 8 crc XOR of_char c) AND 0x00FF)
     = crc_step8 (crc XOR push_bit 8 (of_char c))"
proof -
  let ?x = "crc XOR push_bit 8 (of_char c) :: uint16"
  let ?k = "unat ((drop_bit 8 crc XOR of_char c) AND 0x00FF)"
  have idx: "(drop_bit 8 crc XOR of_char c) AND 0x00FF = drop_bit 8 ?x"
    using mask_low [of "drop_bit 8 crc XOR of_char c"]
    by (intro bit_word_eqI) (auto simp: bit_simps dest: bit_imp_le_length)
  have "?k < 256"
    by (rule mask_less)
  then have "crc16tab ! ?k = crc_step8 (push_bit 8 (drop_bit 8 ?x))"
    by (simp add: crc16tab_nth idx)
  moreover have "push_bit 8 (take_bit 8 ?x) = push_bit 8 crc"
    by (intro bit_word_eqI) (auto simp: bit_simps)
  then have "crc_step8 (take_bit 8 ?x) = push_bit 8 crc"
    by (simp only: crc_step8_low)
  ultimately show ?thesis
    using crc_step8_xor [of "push_bit 8 (drop_bit 8 ?x)" "take_bit 8 ?x"] word16_split [of ?x]
    by (simp add: ac_simps)
qed

lemma crc16_loop_ref: "crc16_loop crc b = crc_ref crc b"
  by (induction crc b rule: crc16_loop.induct) (simp_all only: crc16_loop.simps crc_ref.simps table_step)

section \<open>Hash tags and slots\<close>

definition HashTag :: "bytes \<Rightarrow> char \<Rightarrow> char \<Rightarrow> bytes" where
  "HashTag key op cl =
     (case IndexByte key op of
        None \<Rightarrow> key
      | Some start \<Rightarrow>
          (case IndexByte (drop (start + 1) key) cl of
             None \<Rightarrow> key
           | Some i \<Rightarrow> if i = 0 then key else take i (drop (start + 1) key)))"

definition KeySlot :: "bytes \<Rightarrow> char \<Rightarrow> char \<Rightarrow> uint16" where
  "KeySlot key op cl = crc16 (HashTag key op cl) AND slotMask"

text \<open>A key has the tag \<open>t\<close> when \<open>t\<close> stands, not empty, between the first opening delimiter
  and the first closing delimiter after it.\<close>

definition tagged :: "char \<Rightarrow> char \<Rightarrow> bytes \<Rightarrow> bytes \<Rightarrow> bool" where
  "tagged op cl key t \<longleftrightarrow>
     t \<noteq> [] \<and> cl \<notin> set t \<and> (\<exists>a r. key = a @ op # t @ cl # r \<and> op \<notin> set a)"

lemma HashTag_tagged: "tagged op cl key t \<Longrightarrow> HashTag key op cl = t"
  by (auto simp: tagged_def HashTag_def)

lemma HashTag_cases:
  "tagged op cl key (HashTag key op cl) \<or> HashTag key op cl = key"
proof (cases "IndexByte key op")
  case None
  then show ?thesis by (simp add: HashTag_def)
next
  case (Some s)
  then have k: "key = take s key @ op # drop (Suc s) key" and no: "op \<notin> set (take s key)"
    using id_take_nth_drop [of s key] IndexByte_SomeD [OF Some] by auto
  show ?thesis
  proof (cases "IndexByte (drop (Suc s) key) cl")
    case None
    with Some show ?thesis by (simp add: HashTag_def)
  next
    case i: (Some i)
    let ?d = "drop (Suc s) key"
    have d: "?d = take i ?d @ cl # drop (Suc i) ?d" and nc: "cl \<notin> set (take i ?d)" "i < length ?d"
      using id_take_nth_drop [of i ?d] IndexByte_SomeD [OF i] by auto
    have eq: "HashTag key op cl = (if i = 0 then key else take i ?d)"
      using Some i by (simp add: HashTag_def)
    have "key = take s key @ op # take i ?d @ cl # drop (Suc i) ?d"
      using k d by simp
    with no nc eq show ?thesis
      unfolding tagged_def by (cases "i = 0") auto
  qed
qed

lemma KeySlot_less [go_bound]: "unat (KeySlot key op cl) < 16384"
proof -
  have "KeySlot key op cl = take_bit 14 (crc16 (HashTag key op cl))"
    by (simp add: KeySlot_def take_bit_eq_mask mask_eq_exp_minus_1)
  then show ?thesis
    using take_bit_nat_less_exp [of 14 "unat (crc16 (HashTag key op cl))"]
    by (simp only: unsigned_take_bit_eq) simp
qed

section \<open>Redirects\<close>

record Redirect =
  Kind :: string
  Slot :: uint16
  Addr :: string

text \<open>The running value stays below 16384 at every digit, so it never overflows.\<close>

fun atoi16_loop :: "nat \<Rightarrow> bytes \<Rightarrow> uint16 option" where
  "atoi16_loop n [] = Some (of_nat n)"
| "atoi16_loop n (c # b) =
     (if \<not> is_digit c then None
      else (let n' = n * 10 + (byte_val c - 48) in
            if n' \<ge> SlotCount then None else atoi16_loop n' b))"

definition atoi16 :: "bytes \<Rightarrow> uint16 option" where
  "atoi16 b = (if b = [] then None else atoi16_loop 0 b)"

text \<open>\<open>upto_space p\<close> is the index the scan \<open>for i < len(p) && p[i] != ' '\<close> stops at.\<close>

definition upto_space :: "bytes \<Rightarrow> nat" where
  "upto_space p = (case IndexByte p (CHR '' '') of None \<Rightarrow> length p | Some i \<Rightarrow> i)"

definition ParseRedirect :: "bytes \<Rightarrow> Redirect option" where
  "ParseRedirect payload =
     (let i = upto_space payload in
      if i = 0 \<or> i \<ge> length payload then None
      else let kind = take i payload in
      if kind \<noteq> ''MOVED'' \<and> kind \<noteq> ''ASK'' then None
      else let rest = drop (i + 1) payload; j = upto_space rest in
      if j = 0 \<or> j \<ge> length rest then None
      else (case atoi16 (take j rest) of
              None \<Rightarrow> None
            | Some slot \<Rightarrow>
                if unat slot \<ge> SlotCount then None
                else let addr = drop (j + 1) rest in
                     if addr = [] then None
                     else Some \<lparr>Kind = kind, Slot = slot, Addr = addr\<rparr>))"

fun lastColon :: "bytes \<Rightarrow> nat option" where
  "lastColon [] = None"
| "lastColon (c # s) =
     (case lastColon s of Some i \<Rightarrow> Some (Suc i) | None \<Rightarrow> if c = CHR '':'' then Some 0 else None)"

definition SplitHostPort :: "bytes \<Rightarrow> (bytes \<times> bytes) option" where
  "SplitHostPort addr =
     (case lastColon addr of
        None \<Rightarrow> None
      | Some i \<Rightarrow> if i = 0 \<or> i = length addr - 1 then None
                  else Some (take i addr, drop (i + 1) addr))"

lemma atoi16_loop_iff:
  "n < 16384 \<Longrightarrow> atoi16_loop n b = Some w \<longleftrightarrow> unat w < 16384 \<and> dec_acc n b = Some (unat w)"
proof (induction b arbitrary: n)
  case Nil
  then show ?case by (auto simp: unat_of_nat)
next
  case (Cons c b)
  have big: "dec_acc m b = Some k \<Longrightarrow> m \<le> k" for m k
    by (induction b arbitrary: m) (fastforce split: if_splits)+
  show ?case
    using Cons.IH [of "n * 10 + (byte_val c - 48)"] big [of "n * 10 + (byte_val c - 48)" "unat w"]
    by (auto simp: Let_def not_le)
qed

lemma atoi16_iff: "atoi16 b = Some w \<longleftrightarrow> unat w < 16384 \<and> ParseUint b = Some (unat w)"
  by (simp add: atoi16_def ParseUint_def atoi16_loop_iff)

lemma upto_space_append [simp]: "CHR '' '' \<notin> set k \<Longrightarrow> upto_space (k @ CHR '' '' # s) = length k"
  by (simp add: upto_space_def)

lemma upto_space_split:
  assumes "upto_space p < length p"
  obtains s where "p = take (upto_space p) p @ CHR '' '' # s" "CHR '' '' \<notin> set (take (upto_space p) p)"
    "s = drop (upto_space p + 1) p"
proof -
  from assms obtain i where i: "IndexByte p (CHR '' '') = Some i" "upto_space p = i"
    by (auto simp: upto_space_def split: option.splits)
  with IndexByte_SomeD [OF i(1)] id_take_nth_drop [of i p] show thesis
    by (intro that) auto
qed

lemma dec_acc_digits: "dec_acc n s = Some k \<Longrightarrow> c \<in> set s \<Longrightarrow> is_digit c"
  by (induction s arbitrary: n) (auto split: if_splits)

lemma ParseRedirect_wire:
  assumes "Kind r = ''MOVED'' \<or> Kind r = ''ASK''" and "ParseUint ds = Some (unat (Slot r))"
    and "unat (Slot r) < 16384" and "Addr r \<noteq> []"
  shows "ParseRedirect (Kind r @ CHR '' '' # ds @ CHR '' '' # Addr r) = Some r"
proof -
  have k: "CHR '' '' \<notin> set (Kind r)" "Kind r \<noteq> []"
    using assms(1) by auto
  have ds: "CHR '' '' \<notin> set ds" "ds \<noteq> []"
    using assms(2) dec_acc_digits [of 0 ds "unat (Slot r)" "CHR '' ''"]
    by (auto simp: ParseUint_def is_digit_def split: if_splits)
  have "atoi16 ds = Some (Slot r)"
    using assms by (simp add: atoi16_iff)
  with assms k ds show ?thesis
    by (simp add: ParseRedirect_def Let_def)
qed

lemma ParseRedirect_sound:
  assumes "ParseRedirect p = Some r"
  obtains ds where "p = Kind r @ CHR '' '' # ds @ CHR '' '' # Addr r"
    "Kind r = ''MOVED'' \<or> Kind r = ''ASK''" "ParseUint ds = Some (unat (Slot r))"
    "unat (Slot r) < 16384" "Addr r \<noteq> []"
proof -
  let ?i = "upto_space p"
  let ?rest = "drop (?i + 1) p"
  let ?j = "upto_space ?rest"
  have lt: "?i < length p" "?j < length ?rest"
    and kind: "take ?i p = ''MOVED'' \<or> take ?i p = ''ASK''"
    and slot: "atoi16 (take ?j ?rest) = Some (Slot r)" and addr: "drop (?j + 1) ?rest \<noteq> []"
    and r: "Kind r = take ?i p" "Addr r = drop (?j + 1) ?rest"
    using assms by (auto simp: ParseRedirect_def Let_def split: if_splits option.splits)
  from upto_space_split [OF lt(1)] have "p = Kind r @ CHR '' '' # ?rest"
    using r by (metis)
  moreover from upto_space_split [OF lt(2)] have "?rest = take ?j ?rest @ CHR '' '' # Addr r"
    using r by metis
  ultimately show thesis
    using kind addr slot r by (intro that [of "take ?j ?rest"]) (auto simp: atoi16_iff)
qed

lemma lastColon_append: "CHR '':'' \<notin> set p \<Longrightarrow> lastColon (h @ CHR '':'' # p) = Some (length h)"
proof -
  assume "CHR '':'' \<notin> set p"
  then have "lastColon p = None"
    by (induction p) auto
  then show ?thesis
    by (induction h) auto
qed

section \<open>Properties\<close>

text \<open>
  C23. The table-driven CRC of \<open>crc16.go\<close> is the bitwise CRC16 (polynomial 0x1021, initial value 0,
  most significant bit first), on every input: each table entry and each loop step is right.\<close>

theorem crc16_is_bitwise_crc: "crc16 b = crc_ref 0 b"
  by (simp add: crc16_def crc16_loop_ref)

text \<open>
  C24. \<open>HashTag\<close> returns exactly the bytes between the first opening delimiter and the first
  closing delimiter after it when there is at least one, and the whole key in every other case.\<close>

theorem HashTag_characterised:
  "HashTag key op cl = t \<longleftrightarrow>
     tagged op cl key t \<or> (t = key \<and> (\<nexists>u. tagged op cl key u))"
  using HashTag_tagged HashTag_cases by metis

text \<open>
  C25. Every key has a slot below 16384, and keys that carry the same hash tag have the same slot,
  whatever surrounds the tag: the slot of the tag itself when it holds no opening delimiter.\<close>

theorem same_tag_same_slot:
  assumes "tagged op cl k1 t" and "tagged op cl k2 t"
  shows "KeySlot k1 op cl = KeySlot k2 op cl \<and> unat (KeySlot k1 op cl) < 16384 \<and>
    (op \<notin> set t \<longrightarrow> KeySlot k1 op cl = KeySlot t op cl)"
proof -
  have "HashTag t op cl = t" if "op \<notin> set t"
    using that by (simp add: HashTag_def IndexByte_None [THEN iffD2])
  with assms show ?thesis
    using KeySlot_less [of k1 op cl] by (simp add: KeySlot_def HashTag_tagged)
qed

theorem same_tag_same_slot_witness:
  "KeySlot ''a{user}1'' (CHR ''{'') (CHR ''}'') = KeySlot ''bb{user}'' (CHR ''{'') (CHR ''}'')"
proof -
  have "tagged (CHR ''{'') (CHR ''}'') ''a{user}1'' ''user''"
    unfolding tagged_def by (intro conjI exI [of _ "''a''"] exI [of _ "''1''"]) simp_all
  moreover have "tagged (CHR ''{'') (CHR ''}'') ''bb{user}'' ''user''"
    unfolding tagged_def by (intro conjI exI [of _ "''bb''"] exI [of _ "[]"]) simp_all
  ultimately show ?thesis
    using same_tag_same_slot by blast
qed

text \<open>
  C26. \<open>ParseRedirect\<close> accepts exactly the payloads \<open>MOVED slot addr\<close> and \<open>ASK slot addr\<close> with a
  decimal slot below 16384 and an address, and returns those three parts.\<close>

theorem ParseRedirect_characterised:
  "ParseRedirect p = Some r \<longleftrightarrow>
     (Kind r = ''MOVED'' \<or> Kind r = ''ASK'') \<and> unat (Slot r) < 16384 \<and> Addr r \<noteq> [] \<and>
     (\<exists>ds. ParseUint ds = Some (unat (Slot r)) \<and> p = Kind r @ CHR '' '' # ds @ CHR '' '' # Addr r)"
  by (auto intro: ParseRedirect_wire elim!: ParseRedirect_sound)

text \<open>
  \<open>SplitHostPort\<close> undoes joining a host and a port with a colon, for every host that is not
  empty, colons included (IPv6), and every port that is not empty and holds no colon.\<close>

theorem SplitHostPort_join:
  assumes "h \<noteq> []" and "p \<noteq> []" and "CHR '':'' \<notin> set p"
  shows "SplitHostPort (h @ CHR '':'' # p) = Some (h, p)"
  using assms by (simp add: SplitHostPort_def lastColon_append)

theorem SplitHostPort_join_witness:
  "SplitHostPort ''::1:7001'' = Some (''::1'', ''7001'')"
  using SplitHostPort_join [of "''::1''" "''7001''"] by simp

end
