(* ===== verification/Command_Fanout.thy ===== *)
theory Command_Fanout
  imports Command_DB Cluster_Slot "HOL-Library.Multiset"
begin

text \<open>
  \<open>internal/command/fanout.go\<close>: splitting a multi-key command into one command per slot
  and merging the replies. \<open>GroupBySlot\<close> keeps the loop of the code (the order in
  which slots are first seen and a map from slots to indexes) and is shown equal to
  a direct description; with it, a split \<open>MGET\<close>, \<open>MSET\<close> or \<open>DEL\<close> answers like the
  unsplit command.
\<close>

record KeyGroup =
  gSlot :: uint16
  gIndex :: "nat list"

section \<open>Operations\<close>

type_synonym grouping = "uint16 list \<times> (uint16 \<Rightarrow> nat list option)"

definition groupStep :: "(bytes \<Rightarrow> uint16) \<Rightarrow> grouping \<Rightarrow> nat \<times> bytes \<Rightarrow> grouping" where
  "groupStep slotFn st ik =
     (let (order, bySlot) = st; (i, k) = ik; s = slotFn k;
          order' = (if bySlot s = None then order @ [s] else order);
          old = (case bySlot s of None \<Rightarrow> [] | Some is \<Rightarrow> is)
      in (order', bySlot(s \<mapsto> old @ [i])))"

definition GroupBySlot :: "bytes list \<Rightarrow> (bytes \<Rightarrow> uint16) \<Rightarrow> KeyGroup list" where
  "GroupBySlot keys slotFn =
     (if keys = [] then []
      else let (order, bySlot) = foldl (groupStep slotFn) ([], Map.empty) (enumerate 0 keys)
           in map (\<lambda>s. \<lparr>gSlot = s, gIndex = (case bySlot s of None \<Rightarrow> [] | Some is \<Rightarrow> is)\<rparr>) order)"

definition RebuildFanoutArgv :: "argv \<Rightarrow> KeyGroup \<Rightarrow> argv res" where
  "RebuildFanoutArgv a g =
     (if a = [] then Ok []
      else res_bind (KeyIndexes (args a)) (\<lambda>idx.
        Ok (a ! 0 #
            (if FanoutOf (args a) = FanoutMSet then
               concat (map (\<lambda>ki. if ki \<ge> length idx then []
                                 else a ! (idx ! ki) # (if idx ! ki + 1 < length a then [a ! (idx ! ki + 1)] else []))
                           (gIndex g))
             else concat (map (\<lambda>ki. if ki \<ge> length idx then [] else [a ! (idx ! ki)]) (gIndex g))))))"

fun mergeSumLoop :: "int \<Rightarrow> Value list \<Rightarrow> Value" where
  "mergeSumLoop s [] = Integer s"
| "mergeSumLoop s (r # rs) =
     (if IsError r then r
      else if vType r \<noteq> TypeInteger then Error ''ERR fan-out expected integer reply''
      else mergeSumLoop (wrap64 (s + vInt r)) rs)"

definition MergeSum :: "Value list \<Rightarrow> Value" where
  "MergeSum replies = mergeSumLoop 0 replies"

definition MergeMSet :: "Value list \<Rightarrow> Value" where
  "MergeMSet replies = (case find IsError replies of Some r \<Rightarrow> r | None \<Rightarrow> SimpleString ''OK'')"

fun mergeMGetLoop :: "Value list \<Rightarrow> (KeyGroup \<times> Value) list \<Rightarrow> Value" where
  "mergeMGetLoop out [] = Array out"
| "mergeMGetLoop out ((g, r) # rest) =
     (if IsError r then r
      else if vType r \<noteq> TypeArray \<or> vNull r \<or> length (vValues r) \<noteq> length (gIndex g)
      then Error ''ERR fan-out MGET reply length mismatch''
      else mergeMGetLoop
             (foldl (\<lambda>o' (ki, v). if ki < length o' then o'[ki := v] else o') out (zip (gIndex g) (vValues r))) rest)"

definition MergeMGet :: "int \<Rightarrow> KeyGroup list \<Rightarrow> Value list \<Rightarrow> Value" where
  "MergeMGet nKeys groups replies =
     (let n = nat nKeys; out = replicate n NullBulk in
      if length groups \<noteq> length replies then Error ''ERR fan-out MGET reply length mismatch''
      else mergeMGetLoop out (zip groups replies))"

section \<open>Grouping\<close>

text \<open>The slots in the order they are first seen, each with the indexes of its keys in order.\<close>

definition firstSeen :: "'a list \<Rightarrow> 'a list" where
  "firstSeen xs = rev (remdups (rev xs))"

definition slotIndexes :: "(bytes \<Rightarrow> uint16) \<Rightarrow> bytes list \<Rightarrow> uint16 \<Rightarrow> nat list" where
  "slotIndexes slotFn keys s = filter (\<lambda>i. slotFn (keys ! i) = s) [0..<length keys]"

lemma firstSeen_snoc: "firstSeen (xs @ [x]) = (if x \<in> set xs then firstSeen xs else firstSeen xs @ [x])"
  by (simp add: firstSeen_def)

lemma set_firstSeen [simp]: "set (firstSeen xs) = set xs"
  and distinct_firstSeen [simp]: "distinct (firstSeen xs)"
  by (simp_all add: firstSeen_def)

lemma slotIndexes_snoc:
  "slotIndexes f (ks @ [k]) s = slotIndexes f ks s @ (if f k = s then [length ks] else [])"
proof -
  have "filter (\<lambda>i. f ((ks @ [k]) ! i) = s) [0..<length ks] = filter (\<lambda>i. f (ks ! i) = s) [0..<length ks]"
    by (rule filter_cong) (auto simp: nth_append)
  then show ?thesis by (simp add: slotIndexes_def)
qed

lemma groupStep_foldl:
  "foldl (groupStep f) ([], Map.empty) (enumerate 0 ks) =
     (firstSeen (map f ks), \<lambda>s. if s \<in> f ` set ks then Some (slotIndexes f ks s) else None)"
proof (induction ks rule: rev_induct)
  case Nil
  show ?case by (simp add: firstSeen_def)
next
  case (snoc k ks)
  have "slotIndexes f ks s = []" if "s \<notin> f ` set ks" for s
    using that by (auto simp: slotIndexes_def filter_empty_conv)
  note none = this
  have "foldl (groupStep f) ([], Map.empty) (enumerate 0 (ks @ [k])) =
      groupStep f (firstSeen (map f ks), \<lambda>s. if s \<in> f ` set ks then Some (slotIndexes f ks s) else None) (length ks, k)"
    by (simp add: enumerate_append_eq snoc)
  also have "\<dots> = (firstSeen (map f (ks @ [k])),
      \<lambda>s. if s \<in> f ` set (ks @ [k]) then Some (slotIndexes f (ks @ [k]) s) else None)"
    using none by (auto simp: groupStep_def Let_def firstSeen_snoc slotIndexes_snoc fun_eq_iff)
  finally show ?case .
qed

lemma GroupBySlot_eq:
  "GroupBySlot keys f = map (\<lambda>s. \<lparr>gSlot = s, gIndex = slotIndexes f keys s\<rparr>) (firstSeen (map f keys))"
  by (auto simp: GroupBySlot_def groupStep_foldl firstSeen_def)

lemma slotIndexes_less: "i \<in> set (slotIndexes f keys s) \<Longrightarrow> i < length keys \<and> f (keys ! i) = s"
  by (simp add: slotIndexes_def)

section \<open>The keys of a command that can be split\<close>

lemma stepIdx_stop: "n < i \<Longrightarrow> stepIdx i n s = []"
  by (simp add: stepIdx.simps)

lemma stepIdx_more: "i \<le> n \<Longrightarrow> 0 < s \<Longrightarrow> stepIdx i n s = nat i # stepIdx (i + s) n s"
  by (simp add: stepIdx.simps [of i])

lemma stepIdx_two: "stepIdx (int i) (int n) 2 = filter (\<lambda>j. even (j - i)) [i..<Suc n]"
proof (induction "Suc n - i" arbitrary: i rule: less_induct)
  case less
  show ?case
  proof (cases "i \<le> n")
    case False
    then show ?thesis by (simp add: stepIdx_stop)
  next
    case True
    have "filter (\<lambda>j. even (j - i)) [Suc (Suc i)..<Suc n] = filter (\<lambda>j. even (j - (i + 2))) [i + 2..<Suc n]"
      by (rule filter_cong) auto
    also have "\<dots> = stepIdx (int i + 2) (int n) 2"
      using True less [of "i + 2"] by (simp add: algebra_simps)
    finally have "stepIdx (int i + 2) (int n) 2 = filter (\<lambda>j. even (j - i)) [Suc (Suc i)..<Suc n]" ..
    moreover have "[i..<Suc n] = i # (if i = n then [] else Suc i # [Suc (Suc i)..<Suc n])"
      using True by (auto simp: upt_rec)
    ultimately show ?thesis
      using True by (auto simp: stepIdx_more simp del: upt_Suc)
  qed
qed

lemma stepIdx_one: "stepIdx (int i) (int n) 1 = [i..<Suc n]"
proof (induction "Suc n - i" arbitrary: i rule: less_induct)
  case less
  show ?case
  proof (cases "i \<le> n")
    case False
    then show ?thesis by (simp add: stepIdx_stop)
  next
    case True
    have "stepIdx (int i + 1) (int n) 1 = [Suc i..<Suc n]"
      using True less [of "Suc i"] by (simp add: algebra_simps)
    with True show ?thesis
      by (simp add: stepIdx_more upt_conv_Cons del: upt_Suc)
  qed
qed

lemma indexesBySpec_all: "indexesBySpec a (spec 1 (-1) 1) = [1..<length a]"
proof (cases "2 \<le> length a")
  case True
  then have "Suc (length a - Suc 0) = length a" by simp
  with True have "stepIdx 1 (int (length a) - 1) 1 = [1..<length a]"
    using stepIdx_one [of 1 "length a - 1"] by (simp add: of_nat_diff del: upt_Suc)
  with True show ?thesis
    by (simp add: indexesBySpec_def spec_def Let_def)
next
  case False
  then show ?thesis
    by (auto simp: indexesBySpec_def spec_def Let_def)
qed

lemma indexesBySpec_pairs: "indexesBySpec a (spec 1 (-1) 2) = filter odd [1..<length a]"
proof (cases "2 \<le> length a")
  case True
  have "filter (\<lambda>j. even (j - 1)) [1..<length a] = filter odd [1..<length a]"
    by (rule filter_cong) auto
  moreover have "Suc (length a - Suc 0) = length a"
    using True by simp
  ultimately have eq: "stepIdx 1 (int (length a) - 1) 2 = filter odd [1..<length a]"
    using True stepIdx_two [of 1 "length a - 1"] by (simp add: of_nat_diff del: upt_Suc)
  have "0 \<le> (int (length a) - 1 - 1) div 2"
    using True by simp
  with True eq show ?thesis
    by (simp add: indexesBySpec_def spec_def Let_def)
next
  case False
  then show ?thesis
    by (auto simp: indexesBySpec_def spec_def Let_def)
qed

definition splittable :: "string \<times> Meta \<Rightarrow> bool" where
  "splittable e \<longleftrightarrow> mFanout (snd e) = FanoutNone \<or> fst e \<notin> set keySpecial"

lemma splittable_strings: "list_all splittable table_strings"
  by (simp add: table_strings_def splittable_def keySpecial_def)

lemma splittable_keys: "list_all splittable table_keys"
  by (simp add: table_keys_def splittable_def keySpecial_def)

lemma splittable_hashes: "list_all splittable table_hashes"
  by (simp add: table_hashes_def splittable_def keySpecial_def)

lemma splittable_lists: "list_all splittable table_lists"
  by (simp add: table_lists_def splittable_def keySpecial_def)

lemma splittable_sets: "list_all splittable table_sets"
  by (simp add: table_sets_def splittable_def keySpecial_def)

lemma splittable_zsets: "list_all splittable table_zsets"
  by (simp add: table_zsets_def splittable_def keySpecial_def)

lemma splittable_streams: "list_all splittable table_streams"
  by (simp add: table_streams_def splittable_def keySpecial_def)

lemma splittable_misc: "list_all splittable table_misc"
  by (simp add: table_misc_def splittable_def keySpecial_def)

lemma splittable_scripts: "list_all splittable table_scripts"
  by (simp add: table_scripts_def splittable_def keySpecial_def)

lemma splittable_txn: "list_all splittable table_txn"
  by (simp add: table_txn_def splittable_def keySpecial_def)

lemma splittable_pubsub: "list_all splittable table_pubsub"
  by (simp add: table_pubsub_def splittable_def keySpecial_def)

lemma splittable_admin: "list_all splittable table_admin"
  by (simp add: table_admin_def splittable_def keySpecial_def)

lemma splittable_table: "list_all splittable table"
  by (simp add: table_def splittable_strings splittable_keys splittable_hashes splittable_lists splittable_sets splittable_zsets splittable_streams splittable_misc splittable_scripts splittable_txn splittable_pubsub splittable_admin)

lemma First_spec [simp]: "First (spec f l st) = f"
  by (simp add: spec_def)

lemma FanoutOf_entry:
  assumes "FanoutOf a \<noteq> FanoutNone"
  obtains m where "a \<noteq> []" "Lookup (UpperASCII (a ! 0)) = Some m" "mFanout m = FanoutOf a"
    "UpperASCII (a ! 0) \<notin> set keySpecial" "entry_ok (UpperASCII (a ! 0), m)"
proof -
  from assms obtain m where m: "a \<noteq> []" "Lookup (UpperASCII (a ! 0)) = Some m" "mFanout m = FanoutOf a"
    by (auto simp: FanoutOf_def split: if_splits option.splits)
  have "(UpperASCII (a ! 0), m) \<in> set table"
    using m(2) by (simp add: Lookup_def assoc_SomeD)
  with splittable_table have "splittable (UpperASCII (a ! 0), m)"
    by (simp only: list_all_iff)
  with assms m(3) have "UpperASCII (a ! 0) \<notin> set keySpecial"
    by (simp add: splittable_def)
  with m Lookup_ok [OF m(2)] show thesis by (intro that)
qed

lemma KeyIndexes_all_keys:
  assumes "FanoutOf a = FanoutMGet \<or> FanoutOf a = FanoutSum"
  shows "KeyIndexes a = Ok [1..<length a]"
proof -
  from assms have "FanoutOf a \<noteq> FanoutNone" by auto
  then obtain m where m: "a \<noteq> []" "Lookup (UpperASCII (a ! 0)) = Some m" "mFanout m = FanoutOf a"
    "UpperASCII (a ! 0) \<notin> set keySpecial" "entry_ok (UpperASCII (a ! 0), m)"
    by (rule FanoutOf_entry)
  with assms have "mKeys m = spec 1 (-1) 1"
    by (auto simp: entry_ok_def)
  with m show ?thesis by (simp add: KeyIndexes_default indexesBySpec_all)
qed

lemma KeyIndexes_pairs:
  assumes "FanoutOf a = FanoutMSet"
  shows "KeyIndexes a = Ok (filter odd [1..<length a])"
proof -
  from assms have "FanoutOf a \<noteq> FanoutNone" by auto
  then obtain m where m: "a \<noteq> []" "Lookup (UpperASCII (a ! 0)) = Some m" "mFanout m = FanoutOf a"
    "UpperASCII (a ! 0) \<notin> set keySpecial" "entry_ok (UpperASCII (a ! 0), m)"
    by (rule FanoutOf_entry)
  with assms have "mKeys m = spec 1 (-1) 2"
    by (auto simp: entry_ok_def)
  with m show ?thesis by (simp add: KeyIndexes_default indexesBySpec_pairs)
qed

section \<open>Splitting and merging\<close>

text \<open>The groups of a command: every index is in exactly the group of its slot.\<close>

lemma GroupBySlot_index: "g \<in> set (GroupBySlot ks f) \<Longrightarrow> i \<in> set (gIndex g) \<Longrightarrow> i < length ks \<and> f (ks ! i) = gSlot g"
  by (auto simp: GroupBySlot_eq slotIndexes_def)

lemma GroupBySlot_cover: "i < length ks \<Longrightarrow> \<exists>g \<in> set (GroupBySlot ks f). gSlot g = f (ks ! i) \<and> i \<in> set (gIndex g)"
  by (auto simp: GroupBySlot_eq slotIndexes_def)

lemma GroupBySlot_indexes: "g \<in> set (GroupBySlot ks f) \<Longrightarrow> gIndex g = slotIndexes f ks (gSlot g)"
  by (auto simp: GroupBySlot_eq)

lemma GroupBySlot_slots: "distinct (map gSlot (GroupBySlot ks f))" "set (map gSlot (GroupBySlot ks f)) = f ` set ks"
  by (simp_all add: GroupBySlot_eq comp_def)

text \<open>The sub-command of a group when every argument is a key.\<close>

definition subKeys :: "argv \<Rightarrow> KeyGroup \<Rightarrow> argv" where
  "subKeys a g = a ! 0 # map (\<lambda>i. a ! (i + 1)) (gIndex g)"

lemma RebuildFanoutArgv_keys:
  assumes "FanoutOf (args a) = FanoutMGet \<or> FanoutOf (args a) = FanoutSum"
    and "\<forall>i \<in> set (gIndex g). i + 1 < length a"
  shows "RebuildFanoutArgv a g = Ok (subKeys a g)"
proof -
  have "a \<noteq> []" "FanoutOf (args a) \<noteq> FanoutMSet"
    using assms(1) by (auto simp: FanoutOf_def)
  moreover have "concat (map (\<lambda>ki. if ki \<ge> length [Suc 0..<length a] then [] else [a ! ([Suc 0..<length a] ! ki)]) is)
      = map (\<lambda>i. a ! (i + 1)) is" if "\<forall>i \<in> set is. i + 1 < length a" for "is"
    using that by (induction "is") (auto simp del: upt_Suc)
  ultimately show ?thesis
    using assms KeyIndexes_all_keys [OF assms(1)] by (simp add: RebuildFanoutArgv_def subKeys_def)
qed

lemma foldl_update_zip:
  "\<forall>i \<in> set is. i < length out \<Longrightarrow>
   foldl (\<lambda>o' (ki, v). if ki < length o' then o'[ki := v] else o') out (zip is (map h is)) =
   map (\<lambda>i. if i \<in> set is then h i else out ! i) [0..<length out]"
proof (induction "is" arbitrary: out)
  case Nil
  show ?case by (simp add: map_nth)
next
  case (Cons j js)
  then have "foldl (\<lambda>o' (ki, v). if ki < length o' then o'[ki := v] else o') (out[j := h j]) (zip js (map h js)) =
      map (\<lambda>i. if i \<in> set js then h i else out[j := h j] ! i) [0..<length out]"
    by simp
  moreover have "\<dots> = map (\<lambda>i. if i \<in> set (j # js) then h i else out ! i) [0..<length out]"
    using Cons.prems by (intro map_cong) (auto simp: nth_list_update)
  ultimately show ?case
    using Cons.prems by simp
qed

lemma mergeMGetLoop_groups:
  assumes "\<forall>g \<in> set gs. \<forall>i \<in> set (gIndex g). i < length out"
  shows "mergeMGetLoop out (map (\<lambda>g. (g, Array (map h (gIndex g)))) gs) =
    Array (map (\<lambda>i. if \<exists>g \<in> set gs. i \<in> set (gIndex g) then h i else out ! i) [0..<length out])"
  using assms
proof (induction gs arbitrary: out)
  case Nil
  show ?case by (simp add: map_nth)
next
  case (Cons g gs)
  let ?out = "map (\<lambda>i. if i \<in> set (gIndex g) then h i else out ! i) [0..<length out]"
  have "mergeMGetLoop out (map (\<lambda>g. (g, Array (map h (gIndex g)))) (g # gs)) =
      mergeMGetLoop ?out (map (\<lambda>g. (g, Array (map h (gIndex g)))) gs)"
    using Cons.prems by (simp add: Array_def IsError_def foldl_update_zip)
  also have "\<dots> = Array (map (\<lambda>i. if \<exists>g \<in> set gs. i \<in> set (gIndex g) then h i else ?out ! i) [0..<length ?out])"
    using Cons.prems by (intro Cons.IH) auto
  also have "\<dots> = Array (map (\<lambda>i. if \<exists>g \<in> set (g # gs). i \<in> set (gIndex g) then h i else out ! i) [0..<length out])"
    by (intro arg_cong [of _ _ Array] map_cong) auto
  finally show ?case .
qed

lemma zip_map_self: "zip gs (map F gs) = map (\<lambda>g. (g, F g)) gs"
  by (induction gs) auto

lemma MergeMGet_groups:
  assumes "n = length ks" and "h = (\<lambda>i. f (ks ! i))"
  shows "MergeMGet (int n) (GroupBySlot ks slotFn)
      (map (\<lambda>g. Array (map h (gIndex g))) (GroupBySlot ks slotFn)) = Array (map f ks)"
proof -
  let ?gs = "GroupBySlot ks slotFn"
  have "mergeMGetLoop (replicate n NullBulk) (map (\<lambda>g. (g, Array (map h (gIndex g)))) ?gs) =
      Array (map (\<lambda>i. if \<exists>g \<in> set ?gs. i \<in> set (gIndex g) then h i else replicate n NullBulk ! i) [0..<n])"
    using GroupBySlot_index [of _ ks slotFn] assms mergeMGetLoop_groups [of ?gs "replicate n NullBulk" h] by auto
  also have "\<dots> = Array (map (\<lambda>i. f (ks ! i)) [0..<n])"
    using GroupBySlot_cover [of _ ks slotFn] assms by (intro arg_cong [of _ _ Array] map_cong) fastforce+
  also have "\<dots> = Array (map f ks)"
    using assms(1) by (intro arg_cong [of _ _ Array] nth_equalityI) simp_all
  finally show ?thesis
    by (simp add: MergeMGet_def zip_map_self)
qed

text \<open>The pairs of an \<open>MSET\<close>, and what its sub-commands write.\<close>

fun msetPairs :: "bytes list \<Rightarrow> (bytes \<times> bytes option) list" where
  "msetPairs (k # v # rest) = (k, Some v) # msetPairs rest"
| "msetPairs _ = []"

definition subPairs :: "argv \<Rightarrow> KeyGroup \<Rightarrow> argv" where
  "subPairs a g = a ! 0 # concat (map (\<lambda>i. [a ! (2 * i + 1), a ! (2 * i + 2)]) (gIndex g))"

lemma filter_odd_upt: "filter odd [Suc 0..<Suc (2 * n)] = map (\<lambda>i. 2 * i + 1) [0..<n]"
  by (induction n) auto

lemma nth_filter_odd: "i < n \<Longrightarrow> filter odd [Suc 0..<Suc (2 * n)] ! i = 2 * i + 1"
  by (simp only: filter_odd_upt) simp

lemma RebuildFanoutArgv_pairs:
  assumes "FanoutOf (args a) = FanoutMSet" and "length a = Suc (2 * n)" and "\<forall>i \<in> set (gIndex g). i < n"
  shows "RebuildFanoutArgv a g = Ok (subPairs a g)"
proof -
  let ?idx = "filter odd [Suc 0..<Suc (2 * n)]"
  have len: "length ?idx = n"
    by (simp only: filter_odd_upt) simp
  have "concat (map (\<lambda>ki. if ki \<ge> length ?idx then []
          else a ! (?idx ! ki) # (if ?idx ! ki + 1 < length a then [a ! (?idx ! ki + 1)] else [])) (gIndex g))
      = concat (map (\<lambda>i. [a ! (2 * i + 1), a ! (2 * i + 2)]) (gIndex g))"
    using assms(2,3) by (intro arg_cong [of _ _ concat] map_cong) (auto simp: len nth_filter_odd simp del: upt_Suc)
  moreover have "KeyIndexes (args a) = Ok ?idx"
    using KeyIndexes_pairs [OF assms(1)] assms(2) by (simp del: upt_Suc)
  ultimately show ?thesis
    using assms(1,2) by (auto simp: RebuildFanoutArgv_def subPairs_def simp del: upt_Suc)
qed

lemma msetPairs_concat: "msetPairs (concat (map (\<lambda>i. [f i, h i]) is)) = map (\<lambda>i. (f i, Some (h i))) is"
  by (induction "is") auto

lemma list_of_pairs: "length xs = 2 * n \<Longrightarrow> xs = concat (map (\<lambda>i. [xs ! (2 * i), xs ! (2 * i + 1)]) [0..<n])"
proof (induction n arbitrary: xs)
  case 0
  then show ?case by simp
next
  case (Suc n)
  then obtain x y zs where xs: "xs = x # y # zs" "length zs = 2 * n"
    by (auto simp: length_Suc_conv)
  have "concat (map (\<lambda>i. [xs ! (2 * i), xs ! (2 * i + 1)]) [0..<Suc n])
      = [x, y] @ concat (map (\<lambda>i. [zs ! (2 * i), zs ! (2 * i + 1)]) [0..<n])"
    by (simp only: upt_conv_Cons zero_less_Suc map_Suc_upt [symmetric] list.map concat.simps)
      (simp add: xs comp_def)
  with Suc.IH [OF xs(2)] xs(1) show ?case by simp
qed

lemma applyWrites_last:
  "applyWrites ws m p = (case filter (\<lambda>w. fst w = p) ws of [] \<Rightarrow> m p | w # us \<Rightarrow> snd (last (w # us)))"
  by (induction ws arbitrary: m) (auto split: list.splits)

text \<open>Writes that agree on every key, as subsequences, have the same effect.\<close>

lemma applyWrites_eqI: "(\<And>p. filter (\<lambda>w. fst w = p) ws = filter (\<lambda>w. fst w = p) us) \<Longrightarrow> applyWrites ws m = applyWrites us m"
  by (rule ext) (simp add: applyWrites_last)

lemma concat_map_single:
  "distinct (map f gs) \<Longrightarrow> g \<in> set gs \<Longrightarrow> (\<And>h. h \<in> set gs \<Longrightarrow> f h \<noteq> f g \<Longrightarrow> F h = []) \<Longrightarrow> concat (map F gs) = F g"
proof (induction gs)
  case Nil
  then show ?case by simp
next
  case (Cons h hs)
  have nil: "concat (map F hs) = []" if "h = g"
    using that Cons.prems by (force simp: image_iff)
  show ?case
  proof (cases "h = g")
    case True
    with nil show ?thesis by simp
  next
    case False
    with Cons.prems have "g \<in> set hs" "f h \<noteq> f g"
      by (auto simp: image_iff)
    with Cons show ?thesis by auto
  qed
qed

lemma filter_pairs_of_groups:
  assumes gs: "mset gs = mset (GroupBySlot ks f)"
  shows "filter (\<lambda>w. fst w = p) (concat (map (\<lambda>g. map (\<lambda>i. (ks ! i, v i)) (gIndex g)) gs)) =
    filter (\<lambda>w. fst w = p) (map (\<lambda>i. (ks ! i, v i)) [0..<length ks])"
proof -
  let ?F = "\<lambda>g. filter (\<lambda>w. fst w = p) (map (\<lambda>i. (ks ! i, v i)) (gIndex g))"
  have set: "set gs = set (GroupBySlot ks f)" and dist: "distinct (map gSlot gs)"
    using gs mset_eq_setD [OF gs] GroupBySlot_slots(1) [of ks f] mset_eq_imp_distinct_iff [of "map gSlot gs" "map gSlot (GroupBySlot ks f)"]
    by auto
  have empty: "?F h = []" if "h \<in> set gs" "gSlot h \<noteq> f p" for h
    using that GroupBySlot_index [of h ks f] set by (auto simp: filter_empty_conv)
  have whole: "?F g = filter (\<lambda>w. fst w = p) (map (\<lambda>i. (ks ! i, v i)) [0..<length ks])" if "g \<in> set gs" "gSlot g = f p" for g
    using that GroupBySlot_indexes [of g ks f] set
    by (auto simp: slotIndexes_def filter_map comp_def intro!: arg_cong [of _ _ "map _"] filter_cong)
  show ?thesis
  proof (cases "f p \<in> f ` set ks")
    case True
    then have "f p \<in> gSlot ` set gs"
      using GroupBySlot_slots(2) [of ks f] set by simp
    then obtain g where g: "g \<in> set gs" "gSlot g = f p"
      by auto
    have "concat (map ?F gs) = ?F g"
      using dist g empty by (intro concat_map_single [of gSlot]) auto
    with whole [OF g] show ?thesis by (simp add: filter_concat comp_def)
  next
    case False
    have "f p \<notin> gSlot ` set gs"
      using False GroupBySlot_slots(2) [of ks f] set by simp
    then have "gSlot h \<noteq> f p" if "h \<in> set gs" for h
      using that by (metis imageI)
    with empty have "concat (map ?F gs) = []"
      by (simp only: concat_eq_Nil_conv) auto
    moreover have "filter (\<lambda>w. fst w = p) (map (\<lambda>i. (ks ! i, v i)) [0..<length ks]) = []"
      using False by (auto simp: filter_empty_conv)
    ultimately show ?thesis by (simp add: filter_concat comp_def)
  qed
qed

text \<open>The indexes of all groups together are the indexes of the command.\<close>

lemma GroupBySlot_mset: "mset (concat (map gIndex (GroupBySlot ks f))) = mset [0..<length ks]"
proof -
  let ?gs = "GroupBySlot ks f"
  have "distinct (concat (map gIndex gs))" if "distinct (map gSlot gs)" "set gs \<subseteq> set ?gs" for gs
    using that
  proof (induction gs)
    case (Cons g gs)
    have "distinct (gIndex g)"
      using Cons.prems GroupBySlot_indexes [of g ks f] by (auto simp: slotIndexes_def)
    moreover have "i \<notin> set (gIndex h)" if "i \<in> set (gIndex g)" "h \<in> set gs" for i h
      using Cons.prems that GroupBySlot_index [of g ks f i] GroupBySlot_index [of h ks f i] by force
    ultimately show ?case using Cons by auto
  qed simp
  then have "distinct (concat (map gIndex ?gs))"
    using GroupBySlot_slots(1) by blast
  moreover have "set (concat (map gIndex ?gs)) = set [0..<length ks]"
    using GroupBySlot_index [of _ ks f] GroupBySlot_cover [of _ ks f] by fastforce
  ultimately show ?thesis
    using set_eq_iff_mset_eq_distinct distinct_upt by blast
qed

lemma sum_over_groups: "(\<Sum>g\<leftarrow>GroupBySlot ks f. \<Sum>i\<leftarrow>gIndex g. h i) = (\<Sum>i\<leftarrow>[0..<length ks]. h i :: int)"
proof -
  have "(\<Sum>g\<leftarrow>gs. \<Sum>i\<leftarrow>gIndex g. h i) = sum_list (map h (concat (map gIndex gs)))" for gs
    by (induction gs) auto
  then have "(\<Sum>g\<leftarrow>GroupBySlot ks f. \<Sum>i\<leftarrow>gIndex g. h i) = sum_mset (image_mset h (mset (concat (map gIndex (GroupBySlot ks f)))))"
    by (simp only: sum_mset_sum_list [symmetric] mset_map)
  then show ?thesis
    by (simp only: GroupBySlot_mset sum_mset_sum_list [symmetric] mset_map)
qed

lemma set_slotIndexes: "(\<lambda>i. ks ! i) ` set (slotIndexes f ks s) = {k \<in> set ks. f k = s}"
  by (auto simp: slotIndexes_def in_set_conv_nth image_iff)

lemma card_over_groups:
  "(\<Sum>g\<leftarrow>GroupBySlot ks f. int (card ({k \<in> set ks. f k = gSlot g} \<inter> S))) = int (card (set ks \<inter> S))"
proof -
  have "(\<Sum>g\<leftarrow>GroupBySlot ks f. int (card ({k \<in> set ks. f k = gSlot g} \<inter> S)))
      = (\<Sum>s\<leftarrow>firstSeen (map f ks). int (card ({k \<in> set ks. f k = s} \<inter> S)))"
    by (simp add: GroupBySlot_eq comp_def)
  also have "\<dots> = (\<Sum>s \<in> f ` set ks. int (card ({k \<in> set ks. f k = s} \<inter> S)))"
    by (subst sum_list_distinct_conv_sum_set) simp_all
  also have "\<dots> = int (card (\<Union>s \<in> f ` set ks. {k \<in> set ks. f k = s} \<inter> S))"
    by (subst card_UN_disjoint) auto
  also have "(\<Union>s \<in> f ` set ks. {k \<in> set ks. f k = s} \<inter> S) = set ks \<inter> S"
    by auto
  finally show ?thesis .
qed

lemma MergeSum_Integer: "MergeSum (map (\<lambda>x. Integer (h x)) xs) = Integer (wrap64 (\<Sum>x\<leftarrow>xs. h x))"
proof -
  have "int64 s \<Longrightarrow> mergeSumLoop s (map (\<lambda>x. Integer (h x)) xs) = Integer (wrap64 (s + (\<Sum>x\<leftarrow>xs. h x)))" for s
    by (induction xs arbitrary: s) (simp_all add: Integer_def IsError_def add.assoc)
  from this [of 0] show ?thesis by (simp add: MergeSum_def int64_def)
qed

text \<open>What a node that holds the values \<open>f\<close> answers to \<open>MGET\<close>.\<close>

definition mgetReply :: "(bytes \<Rightarrow> Value) \<Rightarrow> argv \<Rightarrow> Value" where
  "mgetReply f a = Array (map (\<lambda>k. f (sl k)) (tl a))"

section \<open>Properties\<close>

text \<open>
  C31. \<open>GroupBySlot\<close> is the partition of the key indexes by slot: the groups stand in the order in
  which their slots are first seen, and each holds all the indexes of its slot in increasing order.\<close>

theorem GroupBySlot_partitions:
  "GroupBySlot keys slotFn =
     map (\<lambda>s. \<lparr>gSlot = s, gIndex = filter (\<lambda>i. slotFn (keys ! i) = s) [0..<length keys]\<rparr>)
         (rev (remdups (rev (map slotFn keys))))"
  by (simp add: GroupBySlot_eq slotIndexes_def firstSeen_def)

text \<open>
  C9. A split \<open>MGET\<close> answers like the unsplit one. When every node answers its sub-command
  from the same key/value function, each sub-command holds keys of one slot only, and the
  merged reply is the reply to the original command, in the original key order.\<close>

theorem mget_fanout_transparent:
  assumes "FanoutOf (args a) = FanoutMGet" and "groups = GroupBySlot (args (tl a)) slotFn"
  shows "\<exists>subs. list_all2 (\<lambda>g b. RebuildFanoutArgv a g = Ok b \<and> (\<forall>k \<in> set (tl b). slotFn (sl k) = gSlot g)) groups subs \<and>
    MergeMGet (int (length (tl a))) groups (map (mgetReply f) subs) = mgetReply f a"
proof -
  let ?subs = "map (subKeys a) groups"
  have ne: "a \<noteq> []"
    using assms(1) by (auto simp: FanoutOf_def)
  have tl: "i < length (tl a) \<Longrightarrow> a ! (i + 1) = tl a ! i" for i
    using ne by (simp add: nth_tl)
  have sub: "RebuildFanoutArgv a g = Ok (subKeys a g)" "\<forall>k \<in> set (tl (subKeys a g)). slotFn (sl k) = gSlot g"
    "mgetReply f (subKeys a g) = Array (map (\<lambda>i. f (args (tl a) ! i)) (gIndex g))" if "g \<in> set groups" for g
  proof -
    have idx: "i \<in> set (gIndex g) \<Longrightarrow> i < length (tl a) \<and> slotFn (sl (tl a ! i)) = gSlot g" for i
      using that GroupBySlot_index [of g "args (tl a)" slotFn i] assms(2) by auto
    show "RebuildFanoutArgv a g = Ok (subKeys a g)"
      using assms(1) idx by (intro RebuildFanoutArgv_keys) (auto simp: less_diff_conv)
    show "\<forall>k \<in> set (tl (subKeys a g)). slotFn (sl k) = gSlot g"
      using idx tl by (auto simp: subKeys_def)
    show "mgetReply f (subKeys a g) = Array (map (\<lambda>i. f (args (tl a) ! i)) (gIndex g))"
      using idx tl by (auto simp: mgetReply_def subKeys_def intro!: arg_cong [of _ _ Array])
  qed
  have eq: "map (mgetReply f) ?subs = map (\<lambda>g. Array (map (\<lambda>i. f (args (tl a) ! i)) (gIndex g))) groups"
    using sub(3) by simp
  have "MergeMGet (int (length (tl a))) groups (map (mgetReply f) ?subs) = Array (map f (args (tl a)))"
    unfolding eq unfolding assms(2) by (rule MergeMGet_groups) simp_all
  moreover have "list_all2 (\<lambda>g b. RebuildFanoutArgv a g = Ok b \<and> (\<forall>k \<in> set (tl b). slotFn (sl k) = gSlot g)) groups ?subs"
    using sub(1,2) by (simp add: list_all2_conv_all_nth)
  ultimately show ?thesis
    by (auto simp: mgetReply_def comp_def intro!: exI [of _ ?subs])
qed

theorem mget_fanout_transparent_witness:
  "\<exists>subs. MergeMGet 3 (GroupBySlot [''a'', ''b'', ''c''] (\<lambda>k. if k = ''b'' then 1 else 0)) (map (mgetReply (\<lambda>k. BulkString (Some k))) subs)
    = Array [BulkString (Some ''a''), BulkString (Some ''b''), BulkString (Some ''c'')]"
proof -
  have "FanoutOf (args [Some ''MGET'', Some ''a'', Some ''b'', Some ''c'']) = FanoutMGet"
    by (simp add: FanoutOf_def UpperASCII_def lookup_eval)
  from mget_fanout_transparent [OF this refl, of "\<lambda>k. if k = ''b'' then 1 else 0" "\<lambda>k. BulkString (Some k)"]
  obtain subs where "MergeMGet (int (length (tl [Some ''MGET'', Some ''a'', Some ''b'', Some ''c''])))
      (GroupBySlot (args (tl [Some ''MGET'', Some ''a'', Some ''b'', Some ''c''])) (\<lambda>k. if k = ''b'' then 1 else 0))
      (map (mgetReply (\<lambda>k. BulkString (Some k))) subs)
    = mgetReply (\<lambda>k. BulkString (Some k)) [Some ''MGET'', Some ''a'', Some ''b'', Some ''c'']" by blast
  then show ?thesis
    by (intro exI [of _ subs]) (simp only: mgetReply_def list.sel list.map sl.simps list.size, simp)
qed

text \<open>
  C10. A split \<open>MSET\<close> writes what the unsplit one writes. For an even number of arguments
  after the name, the sub-commands, sent in whatever order, leave the store exactly
  as the original command would, repeated keys included.\<close>

theorem mset_fanout_transparent:
  assumes "FanoutOf (args a) = FanoutMSet" and "length a = Suc (2 * n)"
    and "ExtractKeys a = Ok ks" and "mset groups = mset (GroupBySlot (args ks) slotFn)"
  shows "\<exists>subs. list_all2 (\<lambda>g b. RebuildFanoutArgv a g = Ok b) groups subs \<and>
    applyWrites (concat (map (\<lambda>b. msetPairs (args (tl b))) subs)) m = applyWrites (msetPairs (args (tl a))) m"
proof -
  let ?k = "\<lambda>i. args a ! (2 * i + 1)" and ?v = "\<lambda>i. Some (args a ! (2 * i + 2))"
  have ks: "args ks = map ?k [0..<n]"
    using assms KeyIndexes_pairs [OF assms(1)] by (auto simp: ExtractKeys_def filter_odd_upt simp del: upt_Suc)
  have idx: "i \<in> set (gIndex g) \<Longrightarrow> i < n" if "g \<in> set groups" for g i
    using that GroupBySlot_index [of g "args ks" slotFn i] mset_eq_setD [OF assms(4)] arg_cong [OF ks, of length] by auto
  let ?subs = "map (subPairs a) groups"
  have reb: "RebuildFanoutArgv a g = Ok (subPairs a g)" if "g \<in> set groups" for g
    using RebuildFanoutArgv_pairs [OF assms(1,2), of g] idx [OF that] by blast
  have all: "list_all2 (\<lambda>g b. RebuildFanoutArgv a g = Ok b) groups ?subs"
    by (simp add: list_all2_conv_all_nth reb)
  have sub: "msetPairs (args (tl (subPairs a g))) = map (\<lambda>i. (args ks ! i, ?v i)) (gIndex g)" if "g \<in> set groups" for g
  proof -
    have "sl (a ! (2 * i + 1)) = ?k i" "sl (a ! (2 * i + 2)) = args a ! (2 * i + 2)" "?k i = args ks ! i"
      if "i \<in> set (gIndex g)" for i
      using idx [OF \<open>g \<in> set groups\<close> that] assms(2) by (simp_all add: ks)
    then show ?thesis by (simp add: subPairs_def map_concat comp_def msetPairs_concat)
  qed
  have orig: "msetPairs (args (tl a)) = map (\<lambda>i. (args ks ! i, ?v i)) [0..<length (args ks)]"
  proof -
    have "args (tl a) = concat (map (\<lambda>i. [?k i, args a ! (2 * i + 2)]) [0..<n])"
    proof -
      have "args (tl a) = concat (map (\<lambda>i. [args (tl a) ! (2 * i), args (tl a) ! (2 * i + 1)]) [0..<n])"
        using assms(2) by (intro list_of_pairs) simp
      also have "\<dots> = concat (map (\<lambda>i. [?k i, args a ! (2 * i + 2)]) [0..<n])"
        using assms(2) by (intro arg_cong [of _ _ concat] map_cong) (auto simp: nth_tl)
      finally show ?thesis .
    qed
    then show ?thesis by (simp add: msetPairs_concat ks)
  qed
  have "concat (map (\<lambda>b. msetPairs (args (tl b))) ?subs) =
      concat (map (\<lambda>g. map (\<lambda>i. (args ks ! i, ?v i)) (gIndex g)) groups)"
    using sub by (intro arg_cong [of _ _ concat]) simp
  then have "applyWrites (concat (map (\<lambda>b. msetPairs (args (tl b))) ?subs)) m = applyWrites (msetPairs (args (tl a))) m"
    unfolding orig by (intro applyWrites_eqI) (simp only: filter_pairs_of_groups [OF assms(4)])
  with all show ?thesis by blast
qed

theorem mset_fanout_transparent_witness:
  "\<exists>subs. applyWrites (concat (map (\<lambda>b. msetPairs (args (tl b))) subs)) Map.empty
    = applyWrites [(''a'', Some ''1''), (''b'', Some ''2''), (''a'', Some ''3'')] (Map.empty :: bytes \<Rightarrow> bytes option)"
proof -
  let ?a = "[Some ''MSET'', Some ''a'', Some ''1'', Some ''b'', Some ''2'', Some ''a'', Some ''3'']"
  have f: "FanoutOf (args ?a) = FanoutMSet"
    by (simp add: FanoutOf_def UpperASCII_def lookup_eval)
  have "ExtractKeys ?a = Ok [Some ''a'', Some ''b'', Some ''a'']"
    using KeyIndexes_pairs [OF f] by (simp add: ExtractKeys_def upt_rec)
  from mset_fanout_transparent [OF f _ this refl, of 3 "\<lambda>k. if k = ''b'' then 1 else 0" Map.empty]
  obtain subs where "applyWrites (concat (map (\<lambda>b. msetPairs (args (tl b))) subs)) Map.empty
      = applyWrites (msetPairs (args (tl ?a))) Map.empty"
    by auto
  then show ?thesis
    by (intro exI [of _ subs]) (simp only: list.sel list.map sl.simps msetPairs.simps)
qed

text \<open>
  C11. A split \<open>DEL\<close>, \<open>UNLINK\<close>, \<open>EXISTS\<close> or \<open>TOUCH\<close> counts like the unsplit one: the sums of
  per-key counts agree, and so do the numbers of distinct keys of a set (a repeated
  key is removed once). The merged sum is the 64-bit sum of the node replies.\<close>

theorem sum_fanout_transparent:
  assumes "FanoutOf (args a) = FanoutSum" and "groups = GroupBySlot (args (tl a)) slotFn"
  shows "\<exists>subs. list_all2 (\<lambda>g b. RebuildFanoutArgv a g = Ok b) groups subs \<and>
    MergeSum (map (\<lambda>b. Integer (\<Sum>k\<leftarrow>args (tl b). c k)) subs) = Integer (wrap64 (\<Sum>k\<leftarrow>args (tl a). c k)) \<and>
    MergeSum (map (\<lambda>b. Integer (int (card (set (args (tl b)) \<inter> S)))) subs) = Integer (wrap64 (int (card (set (args (tl a)) \<inter> S))))"
proof -
  let ?ks = "args (tl a)" and ?subs = "map (subKeys a) groups"
  have ne: "a \<noteq> []"
    using assms(1) by (auto simp: FanoutOf_def)
  have idx: "i \<in> set (gIndex g) \<Longrightarrow> i < length (tl a)" if "g \<in> set groups" for g i
    using that GroupBySlot_index [of g ?ks slotFn i] assms(2) by auto
  have sub: "args (tl (subKeys a g)) = map (\<lambda>i. ?ks ! i) (gIndex g)" if "g \<in> set groups" for g
    using idx [OF that] ne by (auto simp: subKeys_def nth_tl)
  have reb: "RebuildFanoutArgv a g = Ok (subKeys a g)" if "g \<in> set groups" for g
    using assms(1) idx [OF that] by (intro RebuildFanoutArgv_keys) (auto simp: less_diff_conv)
  have "(\<Sum>g\<leftarrow>groups. \<Sum>k\<leftarrow>args (tl (subKeys a g)). c k) = (\<Sum>g\<leftarrow>groups. \<Sum>i\<leftarrow>gIndex g. c (?ks ! i))"
    using sub by (intro arg_cong [of _ _ sum_list] map_cong) (auto simp: comp_def)
  also have "\<dots> = (\<Sum>i\<leftarrow>[0..<length ?ks]. c (?ks ! i))"
    by (simp only: assms(2) sum_over_groups)
  also have "map (\<lambda>i. c (?ks ! i)) [0..<length ?ks] = map c ?ks"
    by (rule nth_equalityI) simp_all
  finally have sums: "(\<Sum>g\<leftarrow>groups. \<Sum>k\<leftarrow>args (tl (subKeys a g)). c k) = (\<Sum>k\<leftarrow>?ks. c k)" .
  have "set (args (tl (subKeys a g))) = {k \<in> set ?ks. slotFn k = gSlot g}" if "g \<in> set groups" for g
    using that GroupBySlot_indexes [of g ?ks slotFn] set_slotIndexes [of ?ks slotFn "gSlot g"] assms(2)
    by (simp only: sub [OF that] set_map)
  then have "(\<Sum>g\<leftarrow>groups. int (card (set (args (tl (subKeys a g))) \<inter> S))) = (\<Sum>g\<leftarrow>groups. int (card ({k \<in> set ?ks. slotFn k = gSlot g} \<inter> S)))"
    by (intro arg_cong [of _ _ sum_list] map_cong) auto
  then have cards: "(\<Sum>g\<leftarrow>groups. int (card (set (args (tl (subKeys a g))) \<inter> S))) = int (card (set ?ks \<inter> S))"
    by (simp only: assms(2) card_over_groups)
  have "list_all2 (\<lambda>g b. RebuildFanoutArgv a g = Ok b) groups ?subs"
    by (simp add: list_all2_conv_all_nth reb)
  moreover have "MergeSum (map (\<lambda>b. Integer (\<Sum>k\<leftarrow>args (tl b). c k)) ?subs) = Integer (wrap64 (\<Sum>k\<leftarrow>?ks. c k))"
    using sums MergeSum_Integer [of "\<lambda>g. \<Sum>k\<leftarrow>args (tl (subKeys a g)). c k" groups] by (simp only: list.map_comp comp_def)
  moreover have "MergeSum (map (\<lambda>b. Integer (int (card (set (args (tl b)) \<inter> S)))) ?subs) = Integer (wrap64 (int (card (set ?ks \<inter> S))))"
    using cards MergeSum_Integer [of "\<lambda>g. int (card (set (args (tl (subKeys a g))) \<inter> S))" groups] by (simp only: list.map_comp comp_def)
  ultimately show ?thesis by blast
qed

theorem sum_fanout_transparent_witness:
  "\<exists>subs. MergeSum (map (\<lambda>b. Integer (int (card (set (args (tl b)) \<inter> {''a'', ''b''})))) subs) = Integer 2"
proof -
  let ?a = "[Some ''DEL'', Some ''a'', Some ''b'', Some ''c'', Some ''a'']"
  have "FanoutOf (args ?a) = FanoutSum"
    by (simp add: FanoutOf_def UpperASCII_def lookup_eval)
  from sum_fanout_transparent [OF this refl, of "\<lambda>k. if k = ''b'' then 1 else 0" "\<lambda>_. 1" "{''a'', ''b''}"]
  obtain subs where "MergeSum (map (\<lambda>b. Integer (int (card (set (args (tl b)) \<inter> {''a'', ''b''})))) subs)
      = Integer (wrap64 (int (card (set (args (tl ?a)) \<inter> {''a'', ''b''}))))" by blast
  moreover have "set (args (tl ?a)) \<inter> {''a'', ''b''} = {''a'', ''b''}" by auto
  ultimately show ?thesis
    by (intro exI [of _ subs]) (simp add: int64_def)
qed

end
