(* ===== verification/Cluster_Topology.thy ===== *)
theory Cluster_Topology
  imports Cluster_Slot Machines
begin

text \<open>
  \<open>internal/cluster/topology.go\<close>: the slot map. A topology is a value; \<open>Map\<close> holds the
  current one and a generation counter. The slot array is a function on \<open>0..<16384\<close>, and
  an assignment outside that range (a negative start in a \<open>CLUSTER SLOTS\<close> reply) is a panic.
  Node indexes stay below \<open>2^31\<close>, so the conversion to \<open>int32\<close> is the identity.
\<close>

section \<open>Data\<close>

datatype Health = HealthUnknown | HealthOnline | HealthLoading | HealthFail | HealthHidden

definition parseHealth :: "bytes \<Rightarrow> Health" where
  "parseHealth s =
     (let l = ToLower s in
      if l = ''online'' then HealthOnline
      else if l = ''loading'' then HealthLoading
      else if l = ''fail'' then HealthFail
      else if l = ''hidden'' then HealthHidden
      else HealthOnline)"

fun HealthString :: "Health \<Rightarrow> bytes" where
  "HealthString HealthOnline = ''online''"
| "HealthString HealthLoading = ''loading''"
| "HealthString HealthFail = ''fail''"
| "HealthString HealthHidden = ''hidden''"
| "HealthString HealthUnknown = ''unknown''"

datatype Flavor = FlavorUnknown | FlavorDragonfly | FlavorRedis | FlavorEmulated

fun FlavorString :: "Flavor \<Rightarrow> bytes" where
  "FlavorString FlavorDragonfly = ''dragonfly''"
| "FlavorString FlavorRedis = ''redis''"
| "FlavorString FlavorEmulated = ''emulated''"
| "FlavorString FlavorUnknown = ''unknown''"

record Node =
  nID :: string
  nAddr :: string
  nRole :: string
  nHealth :: Health
  nMaster :: bool

definition zeroNode :: Node where
  "zeroNode = \<lparr>nID = [], nAddr = [], nRole = [], nHealth = HealthUnknown, nMaster = False\<rparr>"

record Topology =
  Generation :: "64 word"
  tFlavor :: Flavor
  Slots :: "nat \<Rightarrow> int"
  Nodes :: "Node list"
  Masters :: "nat list"

section \<open>Reading a topology\<close>

definition Empty :: "Topology option \<Rightarrow> bool" where
  "Empty t =
     (case t of None \<Rightarrow> True
      | Some t \<Rightarrow> if Nodes t = [] then True
                  else Slots t 0 < 0 \<and> Slots t 1 < 0 \<and> Slots t (SlotCount div 2) < 0)"

definition replicaOf :: "Node \<Rightarrow> Node \<Rightarrow> bool" where
  "replicaOf n master = (\<not> nMaster n)"

definition NodeForSlot :: "Topology option \<Rightarrow> uint16 \<Rightarrow> bool \<Rightarrow> Node option" where
  "NodeForSlot t slot wantReplica =
     (case t of None \<Rightarrow> None
      | Some t \<Rightarrow>
          if unat slot \<ge> SlotCount then None
          else let idx = Slots t (unat slot) in
          if idx < 0 \<or> idx \<ge> int (length (Nodes t)) then None
          else let master = Nodes t ! nat idx in
          if \<not> wantReplica then Some master
          else (case find (\<lambda>n. \<not> nMaster n \<and> nHealth n = HealthOnline \<and> replicaOf n master) (Nodes t) of
                  Some n \<Rightarrow> Some n
                | None \<Rightarrow> Some master))"

definition FirstMaster :: "Topology option \<Rightarrow> Node option" where
  "FirstMaster t =
     (case t of None \<Rightarrow> None
      | Some t \<Rightarrow>
          (case find (\<lambda>i. i < length (Nodes t)) (Masters t) of
             Some i \<Rightarrow> Some (Nodes t ! i)
           | None \<Rightarrow>
               (case find (\<lambda>n. nMaster n \<or> nRole n = ''master'') (Nodes t) of
                  Some n \<Rightarrow> Some n
                | None \<Rightarrow> (case Nodes t of n # _ \<Rightarrow> Some n | [] \<Rightarrow> None))))"

section \<open>Building a topology\<close>

definition newEmptyTopology :: Topology where
  "newEmptyTopology =
     \<lparr>Generation = 0, tFlavor = FlavorUnknown, Slots = (\<lambda>_. -1), Nodes = [], Masters = []\<rparr>"

text \<open>Topologies are values, so a copy shares nothing with its original.\<close>

definition cloneTopology :: "Topology option \<Rightarrow> Topology option" where
  "cloneTopology t = t"

fun nodeIndexFrom :: "nat \<Rightarrow> Node list \<Rightarrow> bytes \<Rightarrow> bytes \<Rightarrow> nat option" where
  "nodeIndexFrom i [] addr ident = None"
| "nodeIndexFrom i (n # ns) addr ident =
     (if addr \<noteq> [] \<and> nAddr n = addr then Some i
      else if ident \<noteq> [] \<and> nID n = ident then Some i
      else nodeIndexFrom (i + 1) ns addr ident)"

definition nodeIndex :: "Topology \<Rightarrow> bytes \<Rightarrow> bytes \<Rightarrow> nat option" where
  "nodeIndex t addr ident = nodeIndexFrom 0 (Nodes t) addr ident"

definition upsertNode :: "Topology \<Rightarrow> Node \<Rightarrow> nat \<times> Topology" where
  "upsertNode t n =
     (case nodeIndex t (nAddr n) (nID n) of
        Some i \<Rightarrow>
          (let old = Nodes t ! i;
               new = old\<lparr>nID := if nID n \<noteq> [] then nID n else nID old, nRole := nRole n,
                         nMaster := nMaster n, nHealth := nHealth n\<rparr>
           in (i, t\<lparr>Nodes := (Nodes t)[i := new]\<rparr>))
      | None \<Rightarrow>
          (let idx = length (Nodes t);
               t' = t\<lparr>Nodes := Nodes t @ [n]\<rparr>
           in (idx, if nMaster n then t'\<lparr>Masters := Masters t @ [idx]\<rparr> else t')))"

text \<open>\<open>for s := start; s <= end && s < SlotCount; s++ { t.Slots[s] = idx }\<close>\<close>

function fillSlots :: "int \<Rightarrow> int \<Rightarrow> nat \<Rightarrow> Topology \<Rightarrow> Topology res" where
  "fillSlots s e idx t =
     (if s \<le> e \<and> s < int SlotCount then
        (if s < 0 then Panic
         else fillSlots (s + 1) e idx (t\<lparr>Slots := (Slots t)(nat s := int idx)\<rparr>))
      else Ok t)"
  by pat_completeness auto
termination fillSlots
  by (relation "measure (\<lambda>(s, e, idx, t). nat (int SlotCount - s))") auto

declare fillSlots.simps [simp del]

definition addrOf :: "bytes \<Rightarrow> int \<Rightarrow> bytes" where
  "addrOf host port = host @ '':'' @ AppendInt port"

definition parseSlotsNode :: "Value \<Rightarrow> Node option" where
  "parseSlotsNode v =
     (if vType v \<noteq> TypeArray \<or> length (vValues v) < 2 then None
      else
        let ip = sl (vStr (vValues v ! 0));
            pv = vValues v ! 1;
            port = (if vType pv = TypeBulkString \<or> vType pv = TypeSimpleString
                    then (case ParseInt (sl (vStr pv)) of Some p \<Rightarrow> p | None \<Rightarrow> vInt pv)
                    else vInt pv);
            ident = (if length (vValues v) \<ge> 3 then sl (vStr (vValues v ! 2)) else [])
        in if ip = [] \<or> port \<le> 0 then None
           else Some (zeroNode\<lparr>nID := ident, nAddr := addrOf ip port, nHealth := HealthOnline\<rparr>))"

text \<open>The nodes of one entry: the first is the master and owns the range.\<close>

fun slotsNodes :: "int \<Rightarrow> int \<Rightarrow> bool \<Rightarrow> Value list \<Rightarrow> Topology \<Rightarrow> Topology res" where
  "slotsNodes start e first [] t = Ok t"
| "slotsNodes start e first (v # vs) t =
     (case parseSlotsNode v of
        None \<Rightarrow> slotsNodes start e False vs t
      | Some node \<Rightarrow>
          (let node' = node\<lparr>nMaster := first, nRole := if first then ''master'' else ''replica''\<rparr>;
               (idx, t') = upsertNode t node'
           in if first then res_bind (fillSlots start e idx t') (slotsNodes start e False vs)
              else slotsNodes start e False vs t'))"

fun slotsEntries :: "Value list \<Rightarrow> Topology \<Rightarrow> Topology res" where
  "slotsEntries [] t = Ok t"
| "slotsEntries (entry # es) t =
     (if vType entry \<noteq> TypeArray \<or> length (vValues entry) < 3 then slotsEntries es t
      else res_bind (slotsNodes (vInt (vValues entry ! 0)) (vInt (vValues entry ! 1)) True
                                (drop 2 (vValues entry)) t)
             (slotsEntries es))"

definition ParseSlots :: "Value \<Rightarrow> Topology res" where
  "ParseSlots v =
     (if vType v \<noteq> TypeArray \<or> vNull v then Err (GoErr ''cluster slots: not an array'')
      else slotsEntries (vValues v) newEmptyTopology)"

text \<open>\<open>for i := 0; i+1 < len(xs); i += 2\<close> over the pairs \<open>xs[i]\<close>, \<open>xs[i+1]\<close>.\<close>

fun pairUp :: "'a list \<Rightarrow> ('a \<times> 'a) list" where
  "pairUp (x # y # rest) = (x, y) # pairUp rest"
| "pairUp _ = []"

definition shardNodeField :: "Node \<Rightarrow> Value \<times> Value \<Rightarrow> Node" where
  "shardNodeField n kv =
     (let k = ToLower (sl (vStr (fst kv))); val = snd kv; s = sl (vStr val) in
      if k = ''id'' then n\<lparr>nID := s\<rparr>
      else if k = ''endpoint'' \<or> k = ''ip'' then
        (if (nAddr n = [] \<or> k = ''endpoint'') \<and> s \<noteq> [] then n\<lparr>nAddr := s\<rparr> else n)
      else if k = ''port'' then
        (let port = (if vType val = TypeBulkString
                     then (case ParseInt s of Some p \<Rightarrow> p | None \<Rightarrow> vInt val) else vInt val)
         in if nAddr n \<noteq> [] \<and> \<not> Contains (nAddr n) '':'' then n\<lparr>nAddr := addrOf (nAddr n) port\<rparr> else n)
      else if k = ''role'' then n\<lparr>nRole := ToLower s, nMaster := (ToLower s = ''master'')\<rparr>
      else if k = ''health'' then n\<lparr>nHealth := parseHealth s\<rparr>
      else n)"

definition parseShardNode :: "Value \<Rightarrow> Node option" where
  "parseShardNode v =
     (if vType v \<noteq> TypeArray then None
      else let n = foldl shardNodeField (zeroNode\<lparr>nHealth := HealthOnline\<rparr>) (pairUp (vValues v))
           in if nAddr n = [] \<or> \<not> Contains (nAddr n) '':'' then None else Some n)"

definition shardField :: "(int \<times> int) list \<times> Node list \<Rightarrow> Value \<times> Value \<Rightarrow> (int \<times> int) list \<times> Node list" where
  "shardField st kv =
     (let (ranges, nodes) = st; key = ToLower (sl (vStr (fst kv))); val = snd kv in
      if key = ''slots'' then (ranges @ map (\<lambda>(a, b). (vInt a, vInt b)) (pairUp (vValues val)), nodes)
      else if key = ''nodes'' then (ranges, nodes @ List.map_filter parseShardNode (vValues val))
      else (ranges, nodes))"

text \<open>The nodes of a shard are entered in order; the last master seen owns the ranges.\<close>

fun shardNodes :: "Node list \<Rightarrow> Topology \<Rightarrow> nat option \<Rightarrow> Topology \<times> nat option" where
  "shardNodes [] t master = (t, master)"
| "shardNodes (n # ns) t master =
     (if nHealth n = HealthHidden then shardNodes ns t master
      else let (idx, t') = upsertNode t n in shardNodes ns t' (if nMaster n then Some idx else master))"

fun fillRanges :: "(int \<times> int) list \<Rightarrow> nat \<Rightarrow> Topology \<Rightarrow> Topology res" where
  "fillRanges [] idx t = Ok t"
| "fillRanges ((a, b) # rs) idx t = res_bind (fillSlots a b idx t) (fillRanges rs idx)"

fun shardEntries :: "Value list \<Rightarrow> Topology \<Rightarrow> Topology res" where
  "shardEntries [] t = Ok t"
| "shardEntries (shard # ss) t =
     (if vType shard \<noteq> TypeArray then shardEntries ss t
      else let (ranges, nodes) = foldl shardField ([], []) (pairUp (vValues shard));
               (t', master) = shardNodes nodes t None
           in (case master of
                 None \<Rightarrow> shardEntries ss t'
               | Some idx \<Rightarrow> res_bind (fillRanges ranges idx t') (shardEntries ss)))"

definition ParseShards :: "Value \<Rightarrow> Topology res" where
  "ParseShards v =
     (if vType v \<noteq> TypeArray \<or> vNull v then Err (GoErr ''cluster shards: not an array'')
      else shardEntries (vValues v) newEmptyTopology)"

definition DetectFlavor :: "bytes \<Rightarrow> Flavor" where
  "DetectFlavor info =
     (let low = ToLower info in
      if Contains low ''dragonfly_version'' then
        (if Contains low ''cluster_mode:emulated'' \<or> Contains low ''cluster_enabled:0''
         then FlavorEmulated else FlavorDragonfly)
      else FlavorRedis)"

section \<open>The current topology\<close>

record Map =
  ptr :: "Topology option"
  gen :: "64 word"

definition Load :: "Map \<Rightarrow> Topology option" where
  "Load m = ptr m"

definition Store :: "Map \<Rightarrow> Topology option \<Rightarrow> Map" where
  "Store m topo =
     (case topo of None \<Rightarrow> m
      | Some t \<Rightarrow> m\<lparr>gen := gen m + 1, ptr := Some (t\<lparr>Generation := gen m + 1\<rparr>)\<rparr>)"

definition UpdateSlot :: "Map \<Rightarrow> uint16 \<Rightarrow> bytes \<Rightarrow> bytes \<Rightarrow> Map res" where
  "UpdateSlot m slot addr ident =
     (let next = (case cloneTopology (Load m) of None \<Rightarrow> newEmptyTopology | Some t \<Rightarrow> t);
          (idx, t) =
            (case nodeIndex next addr ident of
               Some i \<Rightarrow> (i, next)
             | None \<Rightarrow>
                 (length (Nodes next),
                  next\<lparr>Nodes := Nodes next @ [\<lparr>nID = ident, nAddr = addr, nRole = ''master'', nHealth = HealthOnline, nMaster = True\<rparr>],
                       Masters := Masters next @ [length (Nodes next)]\<rparr>))
      in if unat slot \<ge> SlotCount then Panic
         else Ok (Store m (Some (t\<lparr>Slots := (Slots t)(unat slot := int idx)\<rparr>))))"

section \<open>Well-formed topologies\<close>

definition wfTopo :: "Topology \<Rightarrow> bool" where
  "wfTopo t \<longleftrightarrow>
     (\<forall>s < SlotCount. Slots t s = -1 \<or> (0 \<le> Slots t s \<and> Slots t s < int (length (Nodes t)))) \<and>
     (\<forall>i \<in> set (Masters t). i < length (Nodes t)) \<and>
     distinct (map nAddr (Nodes t)) \<and> [] \<notin> set (map nAddr (Nodes t))"

lemma wfTopo_empty [simp]: "wfTopo newEmptyTopology"
  by (simp add: wfTopo_def newEmptyTopology_def)

lemma wfTopo_fields [simp]:
  "wfTopo (t\<lparr>Generation := g\<rparr>) = wfTopo t" "wfTopo (t\<lparr>tFlavor := f\<rparr>) = wfTopo t"
  by (simp_all add: wfTopo_def)

lemma wfTopo_cong:
  assumes "map nAddr (Nodes t') = map nAddr (Nodes t)" and "Slots t' = Slots t" and "Masters t' = Masters t"
  shows "wfTopo t' = wfTopo t"
  using assms map_eq_imp_length_eq [OF assms(1)] by (simp only: wfTopo_def)

lemma nodeIndexFrom_SomeD:
  "nodeIndexFrom k ns addr ident = Some i \<Longrightarrow> k \<le> i \<and> i - k < length ns \<and>
     (addr \<noteq> [] \<and> nAddr (ns ! (i - k)) = addr \<or> ident \<noteq> [] \<and> nID (ns ! (i - k)) = ident)"
proof (induction k ns addr ident rule: nodeIndexFrom.induct)
  case (2 k n ns addr ident)
  then show ?case
    by (cases "i = k") (auto split: if_splits simp: nth_Cons')
qed simp

lemma nodeIndexFrom_None: "nodeIndexFrom k ns addr ident = None \<Longrightarrow> addr \<noteq> [] \<Longrightarrow> addr \<notin> nAddr ` set ns"
  by (induction k ns addr ident rule: nodeIndexFrom.induct) (auto split: if_splits)

lemma nodeIndex_SomeD:
  "nodeIndex t addr ident = Some i \<Longrightarrow> i < length (Nodes t) \<and>
     (addr \<noteq> [] \<and> nAddr (Nodes t ! i) = addr \<or> ident \<noteq> [] \<and> nID (Nodes t ! i) = ident)"
  using nodeIndexFrom_SomeD [of 0 "Nodes t" addr ident i] by (simp add: nodeIndex_def)

text \<open>Entering a node keeps every index and every address that was there.\<close>

definition extends :: "Topology \<Rightarrow> Topology \<Rightarrow> bool" where
  "extends t t' \<longleftrightarrow> length (Nodes t) \<le> length (Nodes t') \<and>
     (\<forall>i < length (Nodes t). nAddr (Nodes t' ! i) = nAddr (Nodes t ! i))"

lemma extends_refl [simp]: "extends t t"
  by (simp add: extends_def)

lemma extends_trans: "extends t t' \<Longrightarrow> extends t' t'' \<Longrightarrow> extends t t''"
  by (auto simp: extends_def)

lemma upsertNode_new:
  assumes "wfTopo t" and "nAddr n \<noteq> []" and "nodeIndex t (nAddr n) (nID n) = None" and "upsertNode t n = (i, t')"
  shows "wfTopo t' \<and> extends t t' \<and> Slots t' = Slots t \<and> Nodes t' = Nodes t @ [n] \<and> i = length (Nodes t)"
proof -
  have "nAddr n \<notin> nAddr ` set (Nodes t)"
    using assms nodeIndexFrom_None by (simp add: nodeIndex_def)
  with assms show ?thesis
    by (auto simp: upsertNode_def Let_def wfTopo_def extends_def nth_append less_Suc_eq split: if_splits)
qed

lemma upsertNode_old:
  assumes "wfTopo t" and "nodeIndex t (nAddr n) (nID n) = Some j" and "upsertNode t n = (i, t')"
  shows "wfTopo t' \<and> extends t t' \<and> Slots t' = Slots t \<and> i = j \<and> length (Nodes t') = length (Nodes t) \<and>
    (\<forall>m \<in> set (Nodes t'). m \<in> set (Nodes t) \<or>
       nAddr m = nAddr (Nodes t ! j) \<and> nID m = (if nID n \<noteq> [] then nID n else nID (Nodes t ! j)))"
proof -
  let ?old = "Nodes t ! j"
  let ?new = "?old\<lparr>nID := if nID n \<noteq> [] then nID n else nID ?old, nRole := nRole n, nMaster := nMaster n, nHealth := nHealth n\<rparr>"
  have t': "i = j" "t' = t\<lparr>Nodes := (Nodes t)[j := ?new]\<rparr>"
    using assms by (auto simp: upsertNode_def Let_def)
  have addr: "map nAddr (Nodes t') = map nAddr (Nodes t)"
    using nodeIndex_SomeD [OF assms(2)] by (simp add: t' map_update list_update_same_conv)
  have "extends t t'"
    using nodeIndex_SomeD [OF assms(2)] by (simp add: extends_def t' nth_list_update)
  moreover have "wfTopo t'"
    using assms(1) wfTopo_cong [OF addr] by (simp add: t')
  moreover have "m \<in> set (Nodes t) \<or>
      nAddr m = nAddr ?old \<and> nID m = (if nID n \<noteq> [] then nID n else nID ?old)" if "m \<in> set (Nodes t')" for m
  proof -
    have "m \<in> set (Nodes t) \<or> m = ?new"
      using that set_update_subset_insert [of "Nodes t" j ?new] unfolding t' by auto
    then show ?thesis by (elim disjE) simp_all
  qed
  moreover have "Slots t' = Slots t" "length (Nodes t') = length (Nodes t)"
    unfolding t' by simp_all
  ultimately show ?thesis
    using t'(1) by blast
qed

lemma upsertNode_wf:
  assumes "wfTopo t" and "nAddr n \<noteq> []" and "upsertNode t n = (i, t')"
  shows "wfTopo t' \<and> extends t t' \<and> Slots t' = Slots t \<and> i < length (Nodes t')"
proof (cases "nodeIndex t (nAddr n) (nID n)")
  case None
  with upsertNode_new [OF assms(1,2) None assms(3)] show ?thesis by simp
next
  case (Some j)
  with upsertNode_old [OF assms(1) Some assms(3)] nodeIndex_SomeD [OF Some] show ?thesis by simp
qed

lemma fillSlots_eq:
  "fillSlots s e idx t =
     (if s < 0 \<and> s \<le> e then Panic
      else Ok (t\<lparr>Slots := \<lambda>k. if s \<le> int k \<and> int k \<le> e \<and> k < SlotCount then int idx else Slots t k\<rparr>))"
proof (induction s e idx t rule: fillSlots.induct)
  case (1 s e idx t)
  show ?case
  proof (cases "s \<le> e \<and> s < int SlotCount \<and> 0 \<le> s")
    case True
    let ?t = "t\<lparr>Slots := (Slots t)(nat s := int idx)\<rparr>"
    have "fillSlots s e idx t = fillSlots (s + 1) e idx ?t"
      using True by (subst fillSlots.simps) simp
    also have "\<dots> = Ok (?t\<lparr>Slots := \<lambda>k. if s + 1 \<le> int k \<and> int k \<le> e \<and> k < SlotCount then int idx else Slots ?t k\<rparr>)"
      using 1 True by simp
    also have "\<dots> = Ok (t\<lparr>Slots := \<lambda>k. if s \<le> int k \<and> int k \<le> e \<and> k < SlotCount then int idx else Slots t k\<rparr>)"
    proof -
      have "(\<lambda>k. if s + 1 \<le> int k \<and> int k \<le> e \<and> k < SlotCount then int idx else Slots ?t k) =
          (\<lambda>k. if s \<le> int k \<and> int k \<le> e \<and> k < SlotCount then int idx else Slots t k)"
        using True by (auto simp: fun_eq_iff)
      then show ?thesis by simp
    qed
    finally show ?thesis using True by simp
  next
    case False
    then show ?thesis
      by (subst fillSlots.simps) (auto simp: fun_eq_iff)
  qed
qed

lemma fillSlots_wf:
  assumes "wfTopo t" and "idx < length (Nodes t)" and "fillSlots s e idx t = Ok t'"
  shows "wfTopo t' \<and> Nodes t' = Nodes t \<and> Masters t' = Masters t"
  using assms by (auto simp: fillSlots_eq wfTopo_def split: if_splits)

section \<open>Parsing keeps topologies well formed\<close>

lemma parseSlotsNode_addr: "parseSlotsNode v = Some n \<Longrightarrow> nAddr n \<noteq> []"
  by (auto simp: parseSlotsNode_def addrOf_def Let_def split: if_splits)

lemma slotsNodes_wf: "wfTopo t \<Longrightarrow> slotsNodes s e first vs t = Ok t' \<Longrightarrow> wfTopo t'"
proof (induction s e first vs t rule: slotsNodes.induct)
  case (2 s e first v vs t)
  show ?case
  proof (cases "parseSlotsNode v")
    case None
    with 2 show ?thesis by simp
  next
    case (Some n)
    obtain idx u where u: "upsertNode t (n\<lparr>nMaster := first, nRole := if first then ''master'' else ''replica''\<rparr>) = (idx, u)"
      by fastforce
    have "wfTopo u" "idx < length (Nodes u)"
      using upsertNode_wf [OF 2(4) _ u] parseSlotsNode_addr [OF Some] by auto
    with 2 Some u show ?thesis
      by (cases first) (auto simp: res_bind_eq_Ok dest: fillSlots_wf)
  qed
qed simp

lemma slotsEntries_wf: "wfTopo t \<Longrightarrow> slotsEntries es t = Ok t' \<Longrightarrow> wfTopo t'"
  by (induction es t rule: slotsEntries.induct) (auto simp: res_bind_eq_Ok dest: slotsNodes_wf split: if_splits)

lemma ParseSlots_wf: "ParseSlots v = Ok t \<Longrightarrow> wfTopo t"
  by (auto simp: ParseSlots_def dest: slotsEntries_wf [rotated] split: if_splits)

lemma parseShardNode_addr: "parseShardNode v = Some n \<Longrightarrow> nAddr n \<noteq> []"
  by (auto simp: parseShardNode_def Let_def split: if_splits)

lemma shardNodes_wf:
  "wfTopo t \<Longrightarrow> \<forall>n \<in> set ns. nAddr n \<noteq> [] \<Longrightarrow> (\<forall>i. m = Some i \<longrightarrow> i < length (Nodes t)) \<Longrightarrow>
   shardNodes ns t m = (t', m') \<Longrightarrow> wfTopo t' \<and> (\<forall>i. m' = Some i \<longrightarrow> i < length (Nodes t'))"
proof (induction ns t m rule: shardNodes.induct)
  case (2 n ns t m)
  obtain idx u where u: "upsertNode t n = (idx, u)"
    by fastforce
  have "wfTopo u" "extends t u" "idx < length (Nodes u)"
    using upsertNode_wf [OF 2(3) _ u] 2(4) by auto
  moreover from this have "\<forall>i. m = Some i \<longrightarrow> i < length (Nodes u)"
    using 2(5) by (auto simp: extends_def)
  ultimately show ?case
    using 2 u by (cases "nHealth n = HealthHidden"; cases "nMaster n") auto
qed auto

lemma fillRanges_wf: "wfTopo t \<Longrightarrow> idx < length (Nodes t) \<Longrightarrow> fillRanges rs idx t = Ok t' \<Longrightarrow> wfTopo t'"
  by (induction rs idx t rule: fillRanges.induct) (auto simp: res_bind_eq_Ok dest: fillSlots_wf)

lemma shardField_addr:
  "\<forall>n \<in> set (snd st). nAddr n \<noteq> [] \<Longrightarrow> \<forall>n \<in> set (snd (foldl shardField st kvs)). nAddr n \<noteq> []"
proof (induction kvs arbitrary: st)
  case (Cons kv kvs)
  have "\<forall>n \<in> set (snd (shardField st kv)). nAddr n \<noteq> []"
    using Cons.prems by (cases st) (auto simp: shardField_def Let_def map_filter_def parseShardNode_addr)
  with Cons.IH show ?case by simp
qed simp

lemma shardEntries_wf: "wfTopo t \<Longrightarrow> shardEntries ss t = Ok t' \<Longrightarrow> wfTopo t'"
proof (induction ss t rule: shardEntries.induct)
  case (2 shard ss t)
  obtain ranges nodes where rn: "foldl shardField ([], []) (pairUp (vValues shard)) = (ranges, nodes)"
    by fastforce
  obtain u m where um: "shardNodes nodes t None = (u, m)"
    by fastforce
  have "\<forall>n \<in> set nodes. nAddr n \<noteq> []"
    using shardField_addr [of "([], [])" "pairUp (vValues shard)"] rn by simp
  then have "wfTopo u" "\<forall>i. m = Some i \<longrightarrow> i < length (Nodes u)"
    using shardNodes_wf [OF 2(4) _ _ um] by auto
  with 2 rn um show ?case
    by (cases "vType shard \<noteq> TypeArray"; cases m) (auto simp: res_bind_eq_Ok dest: fillRanges_wf)
qed simp

lemma ParseShards_wf: "ParseShards v = Ok t \<Longrightarrow> wfTopo t"
  by (auto simp: ParseShards_def dest: shardEntries_wf [rotated] split: if_splits)

section \<open>The slot map\<close>

text \<open>The current topology is well formed and carries the current generation.\<close>

definition mapOK :: "Map \<Rightarrow> bool" where
  "mapOK m \<longleftrightarrow> (\<forall>t. ptr m = Some t \<longrightarrow> wfTopo t \<and> Generation t = gen m)"

lemma mapOK_Store: "mapOK m \<Longrightarrow> (\<And>t. topo = Some t \<Longrightarrow> wfTopo t) \<Longrightarrow> mapOK (Store m topo)"
  by (auto simp: mapOK_def Store_def split: option.split)

text \<open>The topology \<open>UpdateSlot\<close> patches, and the one it installs.\<close>

definition baseTopo :: "Map \<Rightarrow> Topology" where
  "baseTopo m = (case Load m of None \<Rightarrow> newEmptyTopology | Some t \<Rightarrow> t)"

lemma mapOK_base: "mapOK m \<Longrightarrow> wfTopo (baseTopo m)"
  by (auto simp: mapOK_def baseTopo_def Load_def split: option.split)

definition redirectNode :: "bytes \<Rightarrow> bytes \<Rightarrow> Node" where
  "redirectNode addr ident = \<lparr>nID = ident, nAddr = addr, nRole = ''master'', nHealth = HealthOnline, nMaster = True\<rparr>"

lemma UpdateSlot_eq:
  assumes "mapOK m" and "addr \<noteq> []" and "unat slot < SlotCount"
  shows "\<exists>idx t. UpdateSlot m slot addr ident = Ok (Store m (Some (t\<lparr>Slots := (Slots (baseTopo m))(unat slot := int idx)\<rparr>))) \<and>
    wfTopo t \<and> extends (baseTopo m) t \<and> Slots t = Slots (baseTopo m) \<and> idx < length (Nodes t) \<and>
    (\<forall>i < length (Nodes (baseTopo m)). Nodes t ! i = Nodes (baseTopo m) ! i) \<and>
    (ident = [] \<longrightarrow> nAddr (Nodes t ! idx) = addr)"
proof (cases "nodeIndex (baseTopo m) addr ident")
  case None
  let ?n = "redirectNode addr ident"
  have n: "nAddr ?n = addr" "nID ?n = ident" "nMaster ?n"
    by (simp_all add: redirectNode_def)
  obtain i t where up: "upsertNode (baseTopo m) ?n = (i, t)"
    by fastforce
  have t: "t = (baseTopo m)\<lparr>Nodes := Nodes (baseTopo m) @ [?n], Masters := Masters (baseTopo m) @ [length (Nodes (baseTopo m))]\<rparr>"
    using up None n by (auto simp: upsertNode_def Let_def)
  have wf: "wfTopo t" "extends (baseTopo m) t" "Nodes t = Nodes (baseTopo m) @ [?n]"
    using upsertNode_new [OF mapOK_base [OF assms(1)] _ _ up] assms(2) None n by simp_all
  have "UpdateSlot m slot addr ident =
      Ok (Store m (Some (t\<lparr>Slots := (Slots (baseTopo m))(unat slot := int (length (Nodes (baseTopo m))))\<rparr>)))"
    using None assms(3) by (simp add: UpdateSlot_def cloneTopology_def t redirectNode_def Let_def flip: baseTopo_def)
  with wf n show ?thesis
    by (intro exI [of _ "length (Nodes (baseTopo m))"] exI [of _ t]) (auto simp: t nth_append)
next
  case (Some i)
  have "UpdateSlot m slot addr ident = Ok (Store m (Some ((baseTopo m)\<lparr>Slots := (Slots (baseTopo m))(unat slot := int i)\<rparr>)))"
    using Some assms(3) by (simp add: UpdateSlot_def cloneTopology_def Let_def flip: baseTopo_def)
  with Some nodeIndex_SomeD [OF Some] mapOK_base [OF assms(1)] show ?thesis
    by (intro exI [of _ i] exI [of _ "baseTopo m"]) auto
qed

lemma mapOK_UpdateSlot:
  assumes "mapOK m" and "addr \<noteq> []" and "UpdateSlot m slot addr ident = Ok m'"
  shows "mapOK m'"
proof -
  have slot: "unat slot < SlotCount"
    using assms(3) by (auto simp: UpdateSlot_def Let_def split: if_splits prod.splits)
  from UpdateSlot_eq [OF assms(1,2) slot, of ident] obtain idx t where
    "m' = Store m (Some (t\<lparr>Slots := (Slots (baseTopo m))(unat slot := int idx)\<rparr>))" "wfTopo t" "Slots t = Slots (baseTopo m)"
    "idx < length (Nodes t)"
    using assms(3) by auto
  then show ?thesis
    using assms(1) by (auto intro!: mapOK_Store simp: wfTopo_def)
qed

lemma NodeForSlot_master:
  "unat slot < SlotCount \<Longrightarrow> NodeForSlot (Some t) slot False =
     (if 0 \<le> Slots t (unat slot) \<and> Slots t (unat slot) < int (length (Nodes t))
      then Some (Nodes t ! nat (Slots t (unat slot))) else None)"
  by (auto simp: NodeForSlot_def Let_def)

lemma NodeForSlot_Store: "NodeForSlot (Load (Store m (Some t))) slot w = NodeForSlot (Some t) slot w"
  by (simp add: NodeForSlot_def Load_def Store_def Let_def)

lemma NodeForSlot_base: "NodeForSlot (Load m) slot False = NodeForSlot (Some (baseTopo m)) slot False"
  by (auto simp: NodeForSlot_def baseTopo_def newEmptyTopology_def split: option.split)

section \<open>The slots a reply describes\<close>

text \<open>A \<open>CLUSTER SLOTS\<close> reply for a list of ranges with their nodes (host, port, identifier), master first.\<close>

type_synonym slotNode = "bytes \<times> int \<times> bytes"
type_synonym slotRange = "int \<times> int \<times> slotNode list"

definition slotNodeValue :: "slotNode \<Rightarrow> Value" where
  "slotNodeValue n = (case n of (ip, port, ident) \<Rightarrow> Array [BulkString (Some ip), Integer port, BulkString (Some ident)])"

definition slotRangeValue :: "slotRange \<Rightarrow> Value" where
  "slotRangeValue r = (case r of (lo, hi, ns) \<Rightarrow> Array (Integer lo # Integer hi # map slotNodeValue ns))"

definition slotsValue :: "slotRange list \<Rightarrow> Value" where
  "slotsValue rs = Array (map slotRangeValue rs)"

definition slotAddr :: "slotNode \<Rightarrow> bytes" where
  "slotAddr n = (case n of (ip, port, ident) \<Rightarrow> addrOf ip port)"

text \<open>Later ranges override earlier ones.\<close>

definition owner :: "slotRange list \<Rightarrow> nat \<Rightarrow> bytes option" where
  "owner rs = foldl (\<lambda>own (lo, hi, ns) s. if lo \<le> int s \<and> int s \<le> hi then Some (slotAddr (hd ns)) else own s) (\<lambda>_. None) rs"

text \<open>\<open>F\<close> gives the one address every non-empty identifier stands for.\<close>

definition goodNode :: "(bytes \<Rightarrow> bytes) \<Rightarrow> slotNode \<Rightarrow> bool" where
  "goodNode F n \<longleftrightarrow> (case n of (ip, port, ident) \<Rightarrow> ip \<noteq> [] \<and> 0 < port \<and> (ident \<noteq> [] \<longrightarrow> addrOf ip port = F ident))"

definition goodRange :: "(bytes \<Rightarrow> bytes) \<Rightarrow> slotRange \<Rightarrow> bool" where
  "goodRange F r \<longleftrightarrow> (case r of (lo, hi, ns) \<Rightarrow> 0 \<le> lo \<and> ns \<noteq> [] \<and> (\<forall>n \<in> set ns. goodNode F n))"

definition idsOK :: "(bytes \<Rightarrow> bytes) \<Rightarrow> Topology \<Rightarrow> bool" where
  "idsOK F t \<longleftrightarrow> (\<forall>n \<in> set (Nodes t). nID n \<noteq> [] \<longrightarrow> nAddr n = F (nID n))"

lemma parse_slotNodeValue:
  "goodNode F n \<Longrightarrow> \<exists>m. parseSlotsNode (slotNodeValue n) = Some m \<and> nAddr m = slotAddr n \<and> nAddr m \<noteq> [] \<and>
     (nID m \<noteq> [] \<longrightarrow> nAddr m = F (nID m))"
  by (cases n) (auto simp: goodNode_def slotNodeValue_def slotAddr_def parseSlotsNode_def value_defs addrOf_def)

lemma upsertNode_ids:
  assumes "wfTopo t" "idsOK F t" "nAddr n \<noteq> []" "nID n \<noteq> [] \<longrightarrow> nAddr n = F (nID n)" "upsertNode t n = (i, t')"
  shows "idsOK F t' \<and> nAddr (Nodes t' ! i) = nAddr n"
proof (cases "nodeIndex t (nAddr n) (nID n)")
  case None
  with upsertNode_new [OF assms(1,3) None assms(5)] assms show ?thesis by (auto simp: idsOK_def)
next
  case (Some j)
  have j: "j < length (Nodes t)" "nAddr (Nodes t ! j) = nAddr n"
    using nodeIndex_SomeD [OF Some] assms(2,4) by (auto simp: idsOK_def)
  with upsertNode_old [OF assms(1) Some assms(5)] assms(2,4) show ?thesis
    by (auto simp: idsOK_def extends_def split: if_splits)
qed

definition owned :: "Topology \<Rightarrow> nat \<Rightarrow> bytes option" where
  "owned t s = (if 0 \<le> Slots t s then Some (nAddr (Nodes t ! nat (Slots t s))) else None)"

lemma owned_extends: "wfTopo t \<Longrightarrow> extends t t' \<Longrightarrow> Slots t' = Slots t \<Longrightarrow> s < SlotCount \<Longrightarrow> owned t' s = owned t s"
  by (fastforce simp: owned_def wfTopo_def extends_def)

lemma owned_NodeForSlot:
  "wfTopo t \<Longrightarrow> unat slot < SlotCount \<Longrightarrow> map_option nAddr (NodeForSlot (Some t) slot False) = owned t (unat slot)"
  by (fastforce simp: NodeForSlot_master owned_def wfTopo_def)

lemma slotsNodes_replicas:
  "wfTopo t \<Longrightarrow> idsOK F t \<Longrightarrow> \<forall>n \<in> set ns. goodNode F n \<Longrightarrow>
   \<exists>t'. slotsNodes lo hi False (map slotNodeValue ns) t = Ok t' \<and> wfTopo t' \<and> idsOK F t' \<and> extends t t' \<and> Slots t' = Slots t"
proof (induction ns arbitrary: t)
  case (Cons n ns)
  obtain m where m: "parseSlotsNode (slotNodeValue n) = Some m" "nAddr m \<noteq> []" "nID m \<noteq> [] \<longrightarrow> nAddr m = F (nID m)"
    using parse_slotNodeValue [of F n] Cons.prems(3) by auto
  let ?m = "m\<lparr>nMaster := False, nRole := ''replica''\<rparr>"
  obtain i u where u: "upsertNode t ?m = (i, u)"
    by fastforce
  have w: "wfTopo u" "extends t u" "Slots u = Slots t"
    using upsertNode_wf [OF Cons.prems(1) _ u] m(2) by auto
  have "idsOK F u"
    using upsertNode_ids [OF Cons.prems(1,2) _ _ u] m(2,3) by auto
  from Cons.IH [OF w(1) this] Cons.prems(3) obtain t' where
    "slotsNodes lo hi False (map slotNodeValue ns) u = Ok t'" "wfTopo t'" "idsOK F t'" "extends u t'" "Slots t' = Slots u"
    by auto
  with m(1) u w show ?case
    by (auto intro: extends_trans)
qed auto

lemma slotsNodes_range:
  assumes "wfTopo t" "idsOK F t" "goodRange F (lo, hi, ns)"
  shows "\<exists>t'. slotsNodes lo hi True (map slotNodeValue ns) t = Ok t' \<and> wfTopo t' \<and> idsOK F t' \<and>
    (\<forall>s < SlotCount. owned t' s = (if lo \<le> int s \<and> int s \<le> hi then Some (slotAddr (hd ns)) else owned t s))"
proof -
  obtain n ns' where ns: "ns = n # ns'" "goodNode F n" "\<forall>n \<in> set ns'. goodNode F n" and lo: "0 \<le> lo"
    using assms(3) by (cases ns) (auto simp: goodRange_def)
  obtain m where m: "parseSlotsNode (slotNodeValue n) = Some m" "nAddr m = slotAddr n" "nAddr m \<noteq> []"
    "nID m \<noteq> [] \<longrightarrow> nAddr m = F (nID m)"
    using parse_slotNodeValue [OF ns(2)] by auto
  let ?m = "m\<lparr>nMaster := True, nRole := ''master''\<rparr>"
  obtain i u where u: "upsertNode t ?m = (i, u)"
    by fastforce
  have w: "wfTopo u" "extends t u" "Slots u = Slots t" "i < length (Nodes u)"
    using upsertNode_wf [OF assms(1) _ u] m(3) by auto
  have ids: "idsOK F u" "nAddr (Nodes u ! i) = slotAddr n"
    using upsertNode_ids [OF assms(1,2) _ _ u] m by auto
  let ?v = "u\<lparr>Slots := \<lambda>k. if lo \<le> int k \<and> int k \<le> hi \<and> k < SlotCount then int i else Slots u k\<rparr>"
  have fill: "fillSlots lo hi i u = Ok ?v"
    using lo by (simp add: fillSlots_eq)
  have v: "wfTopo ?v" "idsOK F ?v"
    using fillSlots_wf [OF w(1,4) fill] ids(1) by (auto simp: idsOK_def)
  obtain t' where t': "slotsNodes lo hi False (map slotNodeValue ns') ?v = Ok t'" "wfTopo t'" "idsOK F t'"
    "extends ?v t'" "Slots t' = Slots ?v"
    using slotsNodes_replicas [OF v ns(3)] by blast
  have "owned t' s = (if lo \<le> int s \<and> int s \<le> hi then Some (slotAddr (hd ns)) else owned t s)" if "s < SlotCount" for s
    using owned_extends [OF v(1) t'(4,5) that] owned_extends [OF assms(1) w(2,3) that] that ids(2) ns(1)
    by (auto simp: owned_def)
  moreover have "slotsNodes lo hi True (map slotNodeValue ns) t = Ok t'"
    using ns(1) m(1) u fill t'(1) by simp
  ultimately show ?thesis using t'(2,3) by blast
qed

lemma slotsEntries_owner:
  "wfTopo t \<Longrightarrow> idsOK F t \<Longrightarrow> \<forall>r \<in> set rs. goodRange F r \<Longrightarrow> \<forall>s < SlotCount. owned t s = own s \<Longrightarrow>
   \<exists>t'. slotsEntries (map slotRangeValue rs) t = Ok t' \<and> wfTopo t' \<and>
     (\<forall>s < SlotCount. owned t' s =
        foldl (\<lambda>own (lo, hi, ns) s. if lo \<le> int s \<and> int s \<le> hi then Some (slotAddr (hd ns)) else own s) own rs s)"
proof (induction rs arbitrary: t own)
  case (Cons r rs)
  obtain lo hi ns where r: "r = (lo, hi, ns)"
    by (cases r)
  obtain u where u: "slotsNodes lo hi True (map slotNodeValue ns) t = Ok u" "wfTopo u" "idsOK F u"
    "\<forall>s < SlotCount. owned u s = (if lo \<le> int s \<and> int s \<le> hi then Some (slotAddr (hd ns)) else owned t s)"
    using slotsNodes_range [OF Cons.prems(1,2)] Cons.prems(3) r by force
  have "slotsEntries (map slotRangeValue (r # rs)) t = slotsEntries (map slotRangeValue rs) u"
    using u(1) Cons.prems(3) r
    by (cases ns) (auto simp: slotRangeValue_def value_defs goodRange_def)
  with Cons.IH [OF u(2,3), of "\<lambda>s. if lo \<le> int s \<and> int s \<le> hi then Some (slotAddr (hd ns)) else own s"]
    Cons.prems(3,4) u(4) r show ?case by simp
qed auto

text \<open>A negative first slot in a reply ends the process: \<open>t.Slots[s]\<close> is indexed with it.\<close>

lemma negative_slot_panics:
  assumes "lo < 0" and "lo \<le> hi" and "goodNode F n"
  shows "ParseSlots (slotsValue ((lo, hi, n # ns) # rs)) = Panic"
proof -
  obtain m where m: "parseSlotsNode (slotNodeValue n) = Some m"
    using parse_slotNodeValue [OF assms(3)] by auto
  obtain i u where "upsertNode newEmptyTopology (m\<lparr>nMaster := True, nRole := ''master''\<rparr>) = (i, u)"
    by fastforce
  with m assms show ?thesis
    by (simp add: ParseSlots_def slotsValue_def slotRangeValue_def value_defs fillSlots_eq)
qed

section \<open>Properties\<close>

text \<open>
  C17. After a \<open>MOVED slot addr\<close> the slot is routed to \<open>addr\<close>, every other slot is routed as
  before, and the generation grows by one; the update never fails for a slot of a parsed redirect.\<close>

theorem UpdateSlot_reroutes_one_slot:
  assumes "mapOK m" and "addr \<noteq> []" and "unat slot < 16384"
  shows "\<exists>m' n. UpdateSlot m slot addr [] = Ok m' \<and> mapOK m' \<and> gen m' = gen m + 1 \<and>
    NodeForSlot (Load m') slot False = Some n \<and> nAddr n = addr \<and>
    (\<forall>s. s \<noteq> slot \<longrightarrow> NodeForSlot (Load m') s False = NodeForSlot (Load m) s False)"
proof -
  from UpdateSlot_eq [OF assms, of "[]"] obtain idx t where
    m': "UpdateSlot m slot addr [] = Ok (Store m (Some (t\<lparr>Slots := (Slots (baseTopo m))(unat slot := int idx)\<rparr>)))"
    and t: "idx < length (Nodes t)" "nAddr (Nodes t ! idx) = addr" "extends (baseTopo m) t"
    "\<forall>i < length (Nodes (baseTopo m)). Nodes t ! i = Nodes (baseTopo m) ! i"
    by auto
  let ?t = "t\<lparr>Slots := (Slots (baseTopo m))(unat slot := int idx)\<rparr>"
  have "NodeForSlot (Some ?t) slot False = Some (Nodes t ! idx)"
    using t(1) assms(3) by (simp add: NodeForSlot_master)
  moreover have "NodeForSlot (Some ?t) s False = NodeForSlot (Some (baseTopo m)) s False" if "s \<noteq> slot" for s
  proof (cases "unat s < SlotCount")
    case True
    have "unat s \<noteq> unat slot"
      using that by (auto dest: unsigned_word_eqI)
    moreover have "Slots (baseTopo m) (unat s) = -1 \<or>
        0 \<le> Slots (baseTopo m) (unat s) \<and> Slots (baseTopo m) (unat s) < int (length (Nodes (baseTopo m)))"
      using mapOK_base [OF assms(1)] True by (simp add: wfTopo_def)
    ultimately show ?thesis
      using True t(3,4) by (auto simp: NodeForSlot_master extends_def)
  next
    case False
    then show ?thesis by (simp add: NodeForSlot_def)
  qed
  ultimately show ?thesis
    using m' t(2) mapOK_UpdateSlot [OF assms(1,2) m'] NodeForSlot_base [of m]
    by (intro exI conjI) (auto simp: NodeForSlot_Store, simp add: Store_def)
qed

theorem UpdateSlot_reroutes_one_slot_witness:
  "\<exists>m' n. UpdateSlot \<lparr>ptr = None, gen = 0\<rparr> 3999 ''127.0.0.1:7001'' [] = Ok m' \<and>
    NodeForSlot (Load m') 3999 False = Some n \<and> nAddr n = ''127.0.0.1:7001''"
proof -
  have "mapOK \<lparr>ptr = None, gen = 0\<rparr>"
    by (simp add: mapOK_def)
  from UpdateSlot_reroutes_one_slot [OF this, of "''127.0.0.1:7001''" 3999] show ?thesis by auto
qed

text \<open>
  C32. A \<open>CLUSTER SLOTS\<close> reply is understood: from the reply for a list of ranges, each with its
  master and replicas, \<open>ParseSlots\<close> builds a well-formed topology that routes every slot to the
  master of the last range that covers it and no slot else. Identifiers must stand for one address each.\<close>

theorem ParseSlots_routes_ranges:
  assumes "\<forall>r \<in> set rs. goodRange F r"
  shows "\<exists>t. ParseSlots (slotsValue rs) = Ok t \<and> wfTopo t \<and>
    (\<forall>slot. unat slot < 16384 \<longrightarrow> map_option nAddr (NodeForSlot (Some t) slot False) = owner rs (unat slot))"
proof -
  have "wfTopo newEmptyTopology" "idsOK F newEmptyTopology" "\<forall>s < SlotCount. owned newEmptyTopology s = None"
    by (simp_all add: idsOK_def owned_def newEmptyTopology_def wfTopo_empty [unfolded newEmptyTopology_def])
  from slotsEntries_owner [OF this(1,2) assms this(3)] obtain t where
    "slotsEntries (map slotRangeValue rs) newEmptyTopology = Ok t" "wfTopo t" "\<forall>s < SlotCount. owned t s = owner rs s"
    by (auto simp: owner_def)
  then show ?thesis
    by (auto simp: ParseSlots_def slotsValue_def value_defs owned_NodeForSlot)
qed

theorem ParseSlots_routes_ranges_witness:
  "\<exists>t. ParseSlots (slotsValue [(0, 8191, [(''10.0.0.1'', 6379, ''a'')]), (8192, 16383, [(''10.0.0.2'', 6379, ''b'')])]) = Ok t \<and>
    map_option nAddr (NodeForSlot (Some t) 9000 False) = Some ''10.0.0.2:6379''"
proof -
  let ?F = "\<lambda>i. if i = ''a'' then addrOf ''10.0.0.1'' 6379 else addrOf ''10.0.0.2'' 6379"
  let ?rs = "[(0, 8191, [(''10.0.0.1'', 6379, ''a'')]), (8192, 16383, [(''10.0.0.2'', 6379, ''b'')])]"
  have "\<forall>r \<in> set ?rs. goodRange ?F r"
    by (simp add: goodRange_def goodNode_def)
  from ParseSlots_routes_ranges [OF this] obtain t where t: "ParseSlots (slotsValue ?rs) = Ok t"
    "\<forall>slot. unat slot < 16384 \<longrightarrow> map_option nAddr (NodeForSlot (Some t) slot False) = owner ?rs (unat slot)" by blast
  have "addrOf ''10.0.0.2'' 6379 = ''10.0.0.2:6379''"
    by (simp add: addrOf_def AppendInt_def nat_dec.simps digit_char_def)
  with t show ?thesis
    by (intro exI [of _ t]) (simp add: owner_def slotAddr_def)
qed



end
