(* ===== verification/Go_IO.thy ===== *)
theory Go_IO
  imports Go_Base
begin

text \<open>
  Calls with effects. A call runs on a state and returns a result with the next state, or
  does not return at all (\<open>None\<close>: it waits for an event that never comes). A panic is a
  result; nothing in the program recovers from it, so every combinator passes it on.
  \<open>bindE\<close> is the statement \<open>v, err := f(); if err != nil { return err }\<close>, \<open>tryE\<close>
  gives both outcomes to the code that follows. \<open>ensures\<close> is the rule format of the
  component proofs: from a state with \<open>P\<close>, whenever the call returns, \<open>Q\<close> holds of its result
  and state.
\<close>

section \<open>Calls\<close>

type_synonym ('s, 'a) io = "'s \<Rightarrow> ('a res \<times> 's) option"

definition ret :: "'a \<Rightarrow> ('s, 'a) io" where
  "ret a = (\<lambda>s. Some (Ok a, s))"

definition fail :: "gerr \<Rightarrow> ('s, 'a) io" where
  "fail e = (\<lambda>s. Some (Err e, s))"

definition liftR :: "'a res \<Rightarrow> ('s, 'a) io" where
  "liftR r = (\<lambda>s. Some (r, s))"

definition gets :: "('s \<Rightarrow> 'a) \<Rightarrow> ('s, 'a) io" where
  "gets f = (\<lambda>s. Some (Ok (f s), s))"

definition modify :: "('s \<Rightarrow> 's) \<Rightarrow> ('s, unit) io" where
  "modify f = (\<lambda>s. Some (Ok (), f s))"

definition bindE :: "('s, 'a) io \<Rightarrow> ('a \<Rightarrow> ('s, 'b) io) \<Rightarrow> ('s, 'b) io" where
  "bindE m k = (\<lambda>s. case m s of
     None \<Rightarrow> None
   | Some (r, s') \<Rightarrow> (case r of Ok a \<Rightarrow> k a s' | Err e \<Rightarrow> Some (Err e, s') | Panic \<Rightarrow> Some (Panic, s')))"

definition tryE :: "('s, 'a) io \<Rightarrow> ('a res \<Rightarrow> ('s, 'b) io) \<Rightarrow> ('s, 'b) io" where
  "tryE m k = (\<lambda>s. case m s of
     None \<Rightarrow> None
   | Some (r, s') \<Rightarrow> (case r of Panic \<Rightarrow> Some (Panic, s') | _ \<Rightarrow> k r s'))"

definition thenE :: "('s, 'a) io \<Rightarrow> ('s, 'b) io \<Rightarrow> ('s, 'b) io" where
  "thenE m n = bindE m (\<lambda>_. n)"

text \<open>\<open>for _, x := range xs { if err := f(x); err != nil { return err } }\<close>\<close>

primrec forE :: "('a \<Rightarrow> ('s, unit) io) \<Rightarrow> 'a list \<Rightarrow> ('s, unit) io" where
  "forE f [] = ret ()"
| "forE f (x # xs) = thenE (f x) (forE f xs)"

text \<open>A call that first looks at the state, and a call on a part of the state.\<close>

definition withS :: "('s \<Rightarrow> ('s, 'a) io) \<Rightarrow> ('s, 'a) io" where
  "withS f = (\<lambda>s. f s s)"

definition zoom :: "('s \<Rightarrow> 't) \<Rightarrow> ('t \<Rightarrow> 's \<Rightarrow> 's) \<Rightarrow> ('t, 'a) io \<Rightarrow> ('s, 'a) io" where
  "zoom get put m = (\<lambda>s. case m (get s) of None \<Rightarrow> None | Some (r, t) \<Rightarrow> Some (r, put t s))"

lemma io_simps [simp]:
  "ret a s = Some (Ok a, s)" "fail e s = Some (Err e, s)" "liftR r s = Some (r, s)"
  "gets f s = Some (Ok (f s), s)" "modify g s = Some (Ok (), g s)"
  by (simp_all add: ret_def fail_def liftR_def gets_def modify_def)

lemma withS_simp [simp]: "withS f s = f s s"
  by (simp add: withS_def)

lemma bindE_simps [simp]:
  "m s = None \<Longrightarrow> bindE m k s = None"
  "m s = Some (Ok a, s') \<Longrightarrow> bindE m k s = k a s'"
  "m s = Some (Err e, s') \<Longrightarrow> bindE m k s = Some (Err e, s')"
  "m s = Some (Panic, s') \<Longrightarrow> bindE m k s = Some (Panic, s')"
  by (simp_all add: bindE_def)

lemma tryE_simps [simp]:
  "m s = None \<Longrightarrow> tryE m k s = None"
  "m s = Some (Ok a, s') \<Longrightarrow> tryE m k s = k (Ok a) s'"
  "m s = Some (Err e, s') \<Longrightarrow> tryE m k s = k (Err e) s'"
  "m s = Some (Panic, s') \<Longrightarrow> tryE m k s = Some (Panic, s')"
  by (simp_all add: tryE_def)

lemma thenE_simps [simp]:
  "m s = None \<Longrightarrow> thenE m n s = None"
  "m s = Some (Ok a, s') \<Longrightarrow> thenE m n s = n s'"
  "m s = Some (Err e, s') \<Longrightarrow> thenE m n s = Some (Err e, s')"
  "m s = Some (Panic, s') \<Longrightarrow> thenE m n s = Some (Panic, s')"
  by (simp_all add: thenE_def)

text \<open>Running a call on a concrete state.\<close>

lemmas io_eval = bindE_def tryE_def thenE_def zoom_def

section \<open>Rules\<close>

definition ensures :: "('s \<Rightarrow> bool) \<Rightarrow> ('s, 'a) io \<Rightarrow> ('a res \<Rightarrow> 's \<Rightarrow> bool) \<Rightarrow> bool" where
  "ensures P m Q \<longleftrightarrow> (\<forall>s r s'. P s \<longrightarrow> m s = Some (r, s') \<longrightarrow> Q r s')"

abbreviation keeps :: "('s \<Rightarrow> bool) \<Rightarrow> ('s, 'a) io \<Rightarrow> bool" where
  "keeps I m \<equiv> ensures I m (\<lambda>_. I)"

named_theorems io_rule \<open>what calls ensure\<close>

lemma ensuresI: "(\<And>s r s'. P s \<Longrightarrow> m s = Some (r, s') \<Longrightarrow> Q r s') \<Longrightarrow> ensures P m Q"
  by (simp add: ensures_def)

lemma ensuresD: "ensures P m Q \<Longrightarrow> P s \<Longrightarrow> m s = Some (r, s') \<Longrightarrow> Q r s'"
  by (simp add: ensures_def)

lemma ensures_weaken:
  "ensures P' m Q' \<Longrightarrow> (\<And>s. P s \<Longrightarrow> P' s) \<Longrightarrow> (\<And>r s. Q' r s \<Longrightarrow> Q r s) \<Longrightarrow> ensures P m Q"
  unfolding ensures_def by blast

lemma ensures_conj: "ensures P m Q \<Longrightarrow> ensures P' m Q' \<Longrightarrow> ensures (\<lambda>s. P s \<and> P' s) m (\<lambda>r s. Q r s \<and> Q' r s)"
  by (auto simp: ensures_def)

lemma ensures_basic:
  "(\<And>s. P s \<Longrightarrow> Q (Ok a) s) \<Longrightarrow> ensures P (ret a) Q"
  "(\<And>s. P s \<Longrightarrow> Q (Err e) s) \<Longrightarrow> ensures P (fail e) Q"
  "(\<And>s. P s \<Longrightarrow> Q r s) \<Longrightarrow> ensures P (liftR r) Q"
  "(\<And>s. P s \<Longrightarrow> Q (Ok (f s)) s) \<Longrightarrow> ensures P (gets f) Q"
  "(\<And>s. P s \<Longrightarrow> Q (Ok ()) (g s)) \<Longrightarrow> ensures P (modify g) Q"
  by (simp_all add: ensures_def)

lemma ensures_bindE:
  assumes "ensures P m R" and "\<And>a. ensures (R (Ok a)) (k a) Q"
    and "\<And>e s. R (Err e) s \<Longrightarrow> Q (Err e) s" and "\<And>s. R Panic s \<Longrightarrow> Q Panic s"
  shows "ensures P (bindE m k) Q"
proof (rule ensuresI)
  fix s r s'
  assume P: "P s" and run: "bindE m k s = Some (r, s')"
  from run obtain r1 s1 where m: "m s = Some (r1, s1)"
    by (cases "m s") auto
  have R: "R r1 s1" using assms(1) P m by (rule ensuresD)
  show "Q r s'"
    using R run m assms(3,4) ensuresD [OF assms(2)] by (cases r1) auto
qed

lemma ensures_tryE:
  assumes "ensures P m R" and "\<And>r. r \<noteq> Panic \<Longrightarrow> ensures (R r) (k r) Q" and "\<And>s. R Panic s \<Longrightarrow> Q Panic s"
  shows "ensures P (tryE m k) Q"
proof (rule ensuresI)
  fix s r s'
  assume P: "P s" and run: "tryE m k s = Some (r, s')"
  from run obtain r1 s1 where m: "m s = Some (r1, s1)"
    by (cases "m s") auto
  have R: "R r1 s1" using assms(1) P m by (rule ensuresD)
  show "Q r s'"
  proof (cases r1)
    case Panic
    then show ?thesis using R run m assms(3) by auto
  next
    case (Ok a)
    then show ?thesis using R run m ensuresD [OF assms(2) [of r1], of s1 r s'] by auto
  next
    case (Err e)
    then show ?thesis using R run m ensuresD [OF assms(2) [of r1], of s1 r s'] by auto
  qed
qed

lemma ensures_withS: "(\<And>s0. P s0 \<Longrightarrow> ensures (\<lambda>s. s = s0) (f s0) Q) \<Longrightarrow> ensures P (withS f) Q"
  by (simp add: ensures_def)

text \<open>Invariants pass through every combinator.\<close>

lemma keeps_withS [io_rule]: "(\<And>s0. ensures P (f s0) Q) \<Longrightarrow> ensures P (withS f) Q"
  unfolding ensures_def withS_def by blast

lemma ensures_case_res:
  "(\<And>a. r = Ok a \<Longrightarrow> ensures P (f a) Q) \<Longrightarrow> (\<And>e. r = Err e \<Longrightarrow> ensures P (g e) Q) \<Longrightarrow> (r = Panic \<Longrightarrow> ensures P h Q) \<Longrightarrow>
   ensures P (case r of Ok a \<Rightarrow> f a | Err e \<Rightarrow> g e | Panic \<Rightarrow> h) Q"
  by (cases r) auto

lemma ensures_case_prod: "(\<And>a b. ensures P (f a b) Q) \<Longrightarrow> ensures P (case x of (a, b) \<Rightarrow> f a b) Q"
  by (cases x) auto

lemma ensures_case_option:
  "(x = None \<Longrightarrow> ensures P f Q) \<Longrightarrow> (\<And>a. x = Some a \<Longrightarrow> ensures P (g a) Q) \<Longrightarrow> ensures P (case x of None \<Rightarrow> f | Some a \<Rightarrow> g a) Q"
  by (cases x) auto

lemma ensures_case_list:
  "(x = [] \<Longrightarrow> ensures P f Q) \<Longrightarrow> (\<And>a as. x = a # as \<Longrightarrow> ensures P (g a as) Q) \<Longrightarrow> ensures P (case x of [] \<Rightarrow> f | a # as \<Rightarrow> g a as) Q"
  by (cases x) auto

lemma ensures_if: "(b \<Longrightarrow> ensures P m Q) \<Longrightarrow> (\<not> b \<Longrightarrow> ensures P n Q) \<Longrightarrow> ensures P (if b then m else n) Q"
  by simp

lemma ensures_Let: "(\<And>x. ensures P (f x) Q) \<Longrightarrow> ensures P (let x = t in f x) Q"
  by (simp add: Let_def)

lemmas ensures_control [io_rule] =
  ensures_case_res ensures_case_prod ensures_case_option ensures_case_list ensures_if ensures_Let

lemma keeps_basic [io_rule]:
  "keeps I (ret a)" "keeps I (fail e)" "keeps I (liftR r)" "keeps I (gets f)"
  by (simp_all add: ensures_def)

lemma keeps_modify: "(\<And>s. I s \<Longrightarrow> I (f s)) \<Longrightarrow> keeps I (modify f)"
  by (simp add: ensures_def)

lemma keeps_bindE [io_rule]: "keeps I m \<Longrightarrow> (\<And>a. keeps I (k a)) \<Longrightarrow> keeps I (bindE m k)"
  by (rule ensures_bindE [where R = "\<lambda>_. I"])

lemma keeps_tryE [io_rule]: "keeps I m \<Longrightarrow> (\<And>r. keeps I (k r)) \<Longrightarrow> keeps I (tryE m k)"
  by (rule ensures_tryE [where R = "\<lambda>_. I"])

lemma keeps_thenE [io_rule]: "keeps I m \<Longrightarrow> keeps I n \<Longrightarrow> keeps I (thenE m n)"
  unfolding thenE_def by (rule keeps_bindE)

lemma keeps_forE [io_rule]: "(\<And>x. keeps I (f x)) \<Longrightarrow> keeps I (forE f xs)"
  by (induction xs) (auto intro: io_rule)

lemma keeps_zoom:
  "keeps I m \<Longrightarrow> (\<And>s. J s \<Longrightarrow> I (get s)) \<Longrightarrow> (\<And>t s. J s \<Longrightarrow> I t \<Longrightarrow> J (put t s)) \<Longrightarrow> keeps J (zoom get put m)"
  unfolding ensures_def zoom_def by (auto split: option.splits) blast

lemma keeps_zoom_frame: "(\<And>t s. J s \<Longrightarrow> J (put t s)) \<Longrightarrow> keeps J (zoom get put m)"
  by (auto simp: ensures_def zoom_def split: option.splits)

end
