(* ===== verification/Backend_Pool.thy ===== *)
theory Backend_Pool
  imports Resp_Frames Go_IO
begin

text \<open>
  \<open>internal/pool/pool.go\<close>: connections to one node and the pool that hands them out. The
  network is a parameter \<open>'w net\<close> on a world \<open>'w\<close>: dialling, writing, the bytes that arrive
  before a read deadline and the error after them, closing, whether the caller's context is
  done, and what a caller that waits for a connection gets. Every call below is total but
  \<open>Get\<close>, which does not return when its caller waits and nothing ever wakes it.
  The pool here is used by one caller at a time; its interleavings are in \<open>Pool_Machine\<close>.
  Counters stay far below their width, so they are unbounded here.
\<close>

section \<open>The network\<close>

text \<open>A pooled connection: the identity of its socket and the reader on it.\<close>

record Conn =
  nc :: nat
  rd :: reader

text \<open>What ends a wait on the channel of idle connections.\<close>

datatype wake = Handed Conn | ChanClosed | CtxDone gerr | NoWake

record 'w net =
  netDial :: "bytes \<Rightarrow> int \<Rightarrow> 'w \<Rightarrow> (gerr + nat) \<times> 'w"
  netHandshake :: "nat \<Rightarrow> int \<Rightarrow> 'w \<Rightarrow> gerr option \<times> 'w"
  netWrite :: "nat \<Rightarrow> bytes \<Rightarrow> int \<Rightarrow> 'w \<Rightarrow> gerr option \<times> 'w"
  netRecv :: "nat \<Rightarrow> int \<Rightarrow> 'w \<Rightarrow> (gerr + bytes \<times> gerr) \<times> 'w"
  netClose :: "nat \<Rightarrow> 'w \<Rightarrow> 'w"
  netCtxErr :: "'w \<Rightarrow> gerr option"
  netWake :: "bytes \<Rightarrow> 'w \<Rightarrow> wake \<times> 'w"

record Options =
  oAddr :: bytes
  oMinIdle :: int
  oMaxSize :: int
  oDialTimeout :: int
  oReadTimeout :: int
  oWriteTimeout :: int
  oBackoffMin :: int
  oBackoffMax :: int
  oTLS :: bool
  oUsername :: bytes
  oPassword :: bytes
  oReadOnly :: bool

record Pool =
  opts :: Options
  conns :: "Conn list"
  active :: int
  waiters :: int
  closed :: bool
  dials :: nat

section \<open>One connection\<close>

text \<open>
  A read sees the bytes left over from earlier reads, then what arrives before the deadline,
  then the error. The result is paired with the connection, whose reader has moved.
\<close>

definition ReadConn :: "'w net \<Rightarrow> Conn \<Rightarrow> int \<Rightarrow> ('w, Value res \<times> Conn) io" where
  "ReadConn N c readTO = (\<lambda>w. case netRecv N (nc c) readTO w of
     (Inl e, w') \<Rightarrow> Some (Ok (Err e, c), w')
   | (Inr (bs, e), w') \<Rightarrow>
       (case ReadValue ((rd c)\<lparr>inp := inp (rd c) @ bs, fin := e\<rparr>) of
          (Panic, r) \<Rightarrow> Some (Panic, w')
        | (v, r) \<Rightarrow> Some (Ok (v, c\<lparr>rd := r\<rparr>), w')))"

definition WriteRaw :: "'w net \<Rightarrow> Conn \<Rightarrow> bytes \<Rightarrow> int \<Rightarrow> ('w, unit) io" where
  "WriteRaw N c frame writeTO = (\<lambda>w. case netWrite N (nc c) frame writeTO w of
     (Some e, w') \<Rightarrow> Some (Err e, w')
   | (None, w') \<Rightarrow> Some (Ok (), w'))"

definition DoRaw :: "'w net \<Rightarrow> Conn \<Rightarrow> bytes \<Rightarrow> int \<Rightarrow> int \<Rightarrow> ('w, Value res \<times> Conn) io" where
  "DoRaw N c frame writeTO readTO =
     tryE (WriteRaw N c frame writeTO) (\<lambda>r. case r of
       Err e \<Rightarrow> ret (Err e, c)
     | _ \<Rightarrow> ReadConn N c readTO)"

definition Do :: "'w net \<Rightarrow> Conn \<Rightarrow> argv \<Rightarrow> int \<Rightarrow> int \<Rightarrow> ('w, Value res \<times> Conn) io" where
  "Do N c a writeTO readTO = DoRaw N c (EncodeCommand [] a) writeTO readTO"

definition closeConn :: "'w net \<Rightarrow> Conn \<Rightarrow> ('w, unit) io" where
  "closeConn N c = modify (netClose N (nc c))"

definition roundTrip :: "'w net \<Rightarrow> Conn \<Rightarrow> argv \<Rightarrow> int \<Rightarrow> int \<Rightarrow> ('w, gerr option \<times> Conn) io" where
  "roundTrip N c a wt rt =
     bindE (Do N c a wt rt) (\<lambda>(r, c). case r of
       Ok v \<Rightarrow> ret (if IsError v then Some (GoErr (''backend: '' @ sl (vStr v))) else None, c)
     | Err e \<Rightarrow> ret (Some e, c)
     | Panic \<Rightarrow> liftR Panic)"

definition auth :: "'w net \<Rightarrow> Conn \<Rightarrow> bytes \<Rightarrow> bytes \<Rightarrow> int \<Rightarrow> int \<Rightarrow> ('w, gerr option \<times> Conn) io" where
  "auth N c user pass wt rt =
     roundTrip N c (if user \<noteq> [] then [Some ''AUTH'', Some user, Some pass] else [Some ''AUTH'', Some pass]) wt rt"

section \<open>The pool\<close>

text \<open>A step of the greeting: \<open>if err := f(); err != nil { c.close(); return nil, err }\<close>.\<close>

definition greet :: "'w net \<Rightarrow> ('w, gerr option \<times> Conn) io \<Rightarrow> (Conn \<Rightarrow> ('w, Conn) io) \<Rightarrow> ('w, Conn) io" where
  "greet N m k = bindE m (\<lambda>(e, c). case e of
     Some e \<Rightarrow> thenE (closeConn N c) (fail e)
   | None \<Rightarrow> k c)"

definition connect :: "'w net \<Rightarrow> Options \<Rightarrow> ('w, Conn) io" where
  "connect N os = (\<lambda>w. case netDial N (oAddr os) (oDialTimeout os) w of
     (Inl e, w) \<Rightarrow> Some (Err (GoErr (''dial '' @ oAddr os @ '': '' @ err_string e)), w)
   | (Inr i, w) \<Rightarrow>
       let c = \<lparr>nc = i, rd = NewReader [] EOF\<rparr> in
       if oTLS os then
         (case netHandshake N i (oDialTimeout os) w of
            (Some e, w) \<Rightarrow> Some (Err e, netClose N i w)
          | (None, w) \<Rightarrow> Some (Ok c, w))
       else Some (Ok c, w))"

definition dial :: "'w net \<Rightarrow> (Pool \<times> 'w, Conn) io" where
  "dial N = (\<lambda>(p, w). case connect N (opts p) w of
     Some (Ok c, w) \<Rightarrow>
       (let os = opts p; p = p\<lparr>dials := dials p + 1\<rparr>;
            ready = (\<lambda>c. if oReadOnly os
                         then greet N (roundTrip N c [Some ''READONLY''] (oWriteTimeout os) (oReadTimeout os)) ret
                         else ret c);
            hello = (if oPassword os \<noteq> []
                     then greet N (auth N c (oUsername os) (oPassword os) (oWriteTimeout os) (oReadTimeout os)) ready
                     else ready c)
        in (case hello w of None \<Rightarrow> None | Some (r, w) \<Rightarrow> Some (r, (p, w))))
   | Some (Err e, w) \<Rightarrow> Some (Err e, (p, w))
   | Some (Panic, w) \<Rightarrow> Some (Panic, (p, w))
   | None \<Rightarrow> None)"

text \<open>\<open>for i := 0; i < n; i++ { c, err := p.dial(ctx); if err != nil { break }; p.conns <- c }\<close>\<close>

primrec prefill :: "'w net \<Rightarrow> nat \<Rightarrow> (Pool \<times> 'w, unit) io" where
  "prefill N 0 = ret ()"
| "prefill N (Suc n) =
     tryE (dial N) (\<lambda>r. case r of
       Ok c \<Rightarrow> thenE (modify (\<lambda>(p, w). (p\<lparr>conns := conns p @ [c]\<rparr>, w))) (prefill N n)
     | _ \<Rightarrow> ret ())"

definition PoolNew :: "'w net \<Rightarrow> Options \<Rightarrow> 'w \<Rightarrow> (unit res \<times> Pool \<times> 'w) option" where
  "PoolNew N o0 w =
     (let o1 = (if oMaxSize o0 < 1 then o0\<lparr>oMaxSize := 1\<rparr> else o0);
          o2 = (if oDialTimeout o1 \<le> 0 then o1\<lparr>oDialTimeout := 3 * 1000000000\<rparr> else o1);
          p = \<lparr>opts = o2, conns = [], active = 0, waiters = 0, closed = False, dials = 0\<rparr>;
          n = (if oMinIdle o2 > oMaxSize o2 then oMaxSize o2 else oMinIdle o2)
      in prefill N (nat n) (p, w))"

definition Stats :: "Pool \<Rightarrow> int \<times> int \<times> int" where
  "Stats p = (int (length (conns p)), active p, waiters p)"

definition errPoolClosed :: gerr where
  "errPoolClosed = GoErr ''pool closed''"

text \<open>
  The wait for an idle connection. Another caller's \<open>Put\<close> takes one off \<open>active\<close> and
  the receiver adds one, so a connection that is handed over leaves the count as it is.
\<close>

definition awaitConn :: "'w net \<Rightarrow> (Pool \<times> 'w, Conn) io" where
  "awaitConn N = (\<lambda>(p, w). case netWake N (oAddr (opts p)) w of
     (Handed c, w) \<Rightarrow> Some (Ok c, (p, w))
   | (ChanClosed, w) \<Rightarrow> Some (Err errPoolClosed, (p\<lparr>closed := True\<rparr>, w))
   | (CtxDone e, w) \<Rightarrow> Some (Err e, (p, w))
   | (NoWake, w) \<Rightarrow> None)"

definition checkout :: "'w net \<Rightarrow> (Pool \<times> 'w, Conn) io" where
  "checkout N = (\<lambda>(p, w). case conns p of
     c # cs \<Rightarrow> Some (Ok c, (p\<lparr>conns := cs, active := active p + 1\<rparr>, w))
   | [] \<Rightarrow>
       if active p + int (length (conns p)) < oMaxSize (opts p) then
         tryE (dial N) (\<lambda>r. case r of
           Ok c \<Rightarrow> thenE (modify (\<lambda>(p, w). (p\<lparr>active := active p + 1\<rparr>, w))) (ret c)
         | Err e \<Rightarrow> (\<lambda>(p, w). case netCtxErr N w of Some _ \<Rightarrow> fail e (p, w) | None \<Rightarrow> awaitConn N (p, w))
         | Panic \<Rightarrow> liftR Panic) (p, w)
       else awaitConn N (p, w))"

definition Get :: "'w net \<Rightarrow> (Pool \<times> 'w, Conn) io" where
  "Get N = (\<lambda>(p, w).
     if closed p then fail errPoolClosed (p, w)
     else thenE (modify (\<lambda>(p, w). (p\<lparr>waiters := waiters p + 1\<rparr>, w)))
            (tryE (checkout N) (\<lambda>r.
               thenE (modify (\<lambda>(p, w). (p\<lparr>waiters := waiters p - 1\<rparr>, w))) (liftR r))) (p, w))"

definition Put :: "'w net \<Rightarrow> Conn \<Rightarrow> (Pool \<times> 'w, unit) io" where
  "Put N c = (\<lambda>(p, w).
     let p = p\<lparr>active := active p - 1\<rparr> in
     if closed p then Some (Ok (), (p, netClose N (nc c) w))
     else if int (length (conns p)) < oMaxSize (opts p) then Some (Ok (), (p\<lparr>conns := conns p @ [c]\<rparr>, w))
     else Some (Ok (), (p, netClose N (nc c) w)))"

definition Drop :: "'w net \<Rightarrow> Conn \<Rightarrow> (Pool \<times> 'w, unit) io" where
  "Drop N c = (\<lambda>(p, w). Some (Ok (), (p\<lparr>active := active p - 1\<rparr>, netClose N (nc c) w)))"

definition PoolClose :: "'w net \<Rightarrow> (Pool \<times> 'w, unit) io" where
  "PoolClose N = (\<lambda>(p, w).
     if closed p then Some (Ok (), (p, w))
     else Some (Ok (), (p\<lparr>closed := True, conns := []\<rparr>, foldl (\<lambda>w c. netClose N (nc c) w) w (conns p))))"

section \<open>What the calls ensure\<close>

text \<open>
  A pool never holds more idle connections than its size, a closed one holds none, and no
  call changes the options it was made with.
\<close>

definition poolOK :: "Options \<Rightarrow> Pool \<Rightarrow> bool" where
  "poolOK os p \<longleftrightarrow> opts p = os \<and> 1 \<le> oMaxSize os \<and> int (length (conns p)) \<le> oMaxSize os \<and> (closed p \<longrightarrow> conns p = [])"

abbreviation poolInv :: "Options \<Rightarrow> Pool \<times> 'w \<Rightarrow> bool" where
  "poolInv os s \<equiv> poolOK os (fst s)"

lemma poolOK_counts [simp]:
  "poolOK os (p\<lparr>active := a\<rparr>) = poolOK os p" "poolOK os (p\<lparr>waiters := b\<rparr>) = poolOK os p"
  "poolOK os (p\<lparr>dials := d\<rparr>) = poolOK os p"
  by (simp_all add: poolOK_def)

lemma dial_pool: "dial N (p, w) = Some (r, (p', w')) \<Longrightarrow> p' = p \<or> p' = p\<lparr>dials := dials p + 1\<rparr>"
  by (auto simp: dial_def Let_def split: option.splits res.splits)

lemma keeps_dial: "keeps (poolInv os) (dial N)"
  by (rule ensuresI) (auto dest!: dial_pool)

lemma awaitConn_pool: "awaitConn N (p, w) = Some (r, (p', w')) \<Longrightarrow> p' = p \<or> p' = p\<lparr>closed := True\<rparr>"
  by (auto simp: awaitConn_def split: wake.splits prod.splits)

lemma keeps_awaitConn: "ensures (\<lambda>s. poolInv os s \<and> conns (fst s) = []) (awaitConn N) (\<lambda>_. poolInv os)"
  by (rule ensuresI) (auto simp: poolOK_def dest!: awaitConn_pool)

lemma ensures_dial:
  "ensures (\<lambda>s. poolInv os s \<and> conns (fst s) = []) (dial N) (\<lambda>_ s. poolInv os s \<and> conns (fst s) = [])"
  by (rule ensuresI) (auto dest!: dial_pool)

lemma keeps_checkout: "keeps (poolInv os) (checkout N)"
proof (rule ensuresI)
  fix s r s'
  assume s: "poolInv os s" and run: "checkout N s = Some (r, s')"
  obtain p w where [simp]: "s = (p, w)" by (cases s)
  show "poolInv os s'"
  proof (cases "conns p")
    case (Cons c cs)
    then show ?thesis using s run by (auto simp: checkout_def poolOK_def)
  next
    case Nil
    let ?P = "\<lambda>s. poolInv os s \<and> conns (fst s) = []"
    have ensures_tail: "ensures ?P (tryE (dial N) (\<lambda>r. case r of
           Ok c \<Rightarrow> thenE (modify (\<lambda>(p, w). (p\<lparr>active := active p + 1\<rparr>, w))) (ret c)
         | Err e \<Rightarrow> (\<lambda>(p, w). case netCtxErr N w of Some _ \<Rightarrow> fail e (p, w) | None \<Rightarrow> awaitConn N (p, w))
         | Panic \<Rightarrow> liftR Panic)) (\<lambda>_. poolInv os)"
      by (rule ensures_tryE [OF ensures_dial])
         (auto simp: ensures_def poolOK_def split: res.splits option.splits dest!: awaitConn_pool)
    have "?P (p, w)" using s Nil by simp
    then show ?thesis
      using run Nil ensuresD [OF ensures_tail, of "(p, w)" r s'] ensuresD [OF keeps_awaitConn, of os "(p, w)" N r s']
      by (auto simp: checkout_def split: if_splits)
  qed
qed

lemma keeps_Get: "keeps (poolInv os) (Get N)"
proof -
  have "keeps (poolInv os) (thenE (modify (\<lambda>(p, w). (p\<lparr>waiters := waiters p + 1\<rparr>, w)))
            (tryE (checkout N) (\<lambda>r.
               thenE (modify (\<lambda>(p, w). (p\<lparr>waiters := waiters p - 1\<rparr>, w))) (liftR r))))"
    by (intro io_rule keeps_checkout keeps_modify) auto
  then show ?thesis
    unfolding ensures_def Get_def by (auto split: if_splits)
qed

lemma keeps_Put: "keeps (poolInv os) (Put N c)"
  by (rule ensuresI) (auto simp: Put_def poolOK_def Let_def split: if_splits)

lemma keeps_Drop: "keeps (poolInv os) (Drop N c)"
  by (rule ensuresI) (auto simp: Drop_def)

lemma keeps_PoolClose: "keeps (poolInv os) (PoolClose N)"
  by (rule ensuresI) (auto simp: PoolClose_def poolOK_def split: if_splits)

lemmas keeps_pool = keeps_Get keeps_Put keeps_Drop keeps_PoolClose

definition normOptions :: "Options \<Rightarrow> Options" where
  "normOptions os =
     os\<lparr>oMaxSize := max 1 (oMaxSize os), oDialTimeout := if oDialTimeout os \<le> 0 then 3000000000 else oDialTimeout os\<rparr>"

lemma prefill_ok:
  "prefill N n (p, w) = Some (r, (p', w')) \<Longrightarrow> poolOK os p \<Longrightarrow> int (length (conns p) + n) \<le> oMaxSize os \<Longrightarrow>
   \<not> closed p \<Longrightarrow> poolOK os p'"
proof (induction n arbitrary: p w)
  case (Suc n)
  obtain r1 p1 w1 where d: "dial N (p, w) = Some (r1, (p1, w1))"
    using Suc.prems(1) by (cases "dial N (p, w)") auto
  have p1: "conns p1 = conns p" "closed p1 = closed p" "poolOK os p1"
    using dial_pool [OF d] Suc.prems(2) by auto
  show ?case
  proof (cases r1)
    case (Ok c)
    then show ?thesis
      using Suc.prems d p1 Suc.IH [of "p1\<lparr>conns := conns p1 @ [c]\<rparr>" w1] by (auto simp: poolOK_def)
  qed (use Suc.prems d p1 in auto)
qed simp

lemma PoolNew_ok: "PoolNew N os w = Some (r, (p, w')) \<Longrightarrow> poolOK (normOptions os) p"
  unfolding PoolNew_def Let_def
  by (erule prefill_ok) (auto simp: poolOK_def normOptions_def)

end
