(* ===== verification/Pool_Machine.thy ===== *)
theory Pool_Machine
  imports Machines Backend_Pool
begin

text \<open>
  The pool under concurrency: \<open>Get\<close>, \<open>Put\<close>, \<open>Drop\<close> and \<open>Close\<close> of
  \<open>internal/pool/pool.go\<close> cut at their atomic operations (channel receive and send, the loads
  and additions on \<open>active\<close>, the lock of \<open>Put\<close> and \<open>Close\<close>), with any number of goroutines.
  Connections are numbered in the order they are dialled.
\<close>

section \<open>Steps\<close>

text \<open>Where a goroutine is between two atomic operations.\<close>

datatype phase =
    Out
  | Entered
  | Missed
  | Loaded int
  | Dialing
  | Waiting
  | Taken nat
  | Holding nat
  | Releasing nat

record pool_state =
  cap :: nat
  idle :: "nat list"
  act :: int
  shut :: bool
  nextc :: nat
  thr :: "nat \<Rightarrow> phase"

abbreviation at :: "pool_state \<Rightarrow> nat \<Rightarrow> phase \<Rightarrow> pool_state" where
  "at s t ph \<equiv> s\<lparr>thr := (thr s)(t := ph)\<rparr>"

inductive pool_step :: "pool_state \<Rightarrow> pool_state \<Rightarrow> bool" where
  enter: "thr s t = Out \<Longrightarrow> \<not> shut s \<Longrightarrow> pool_step s (at s t Entered)"
| take_idle: "thr s t = Entered \<Longrightarrow> idle s = c # cs \<Longrightarrow> pool_step s (at (s\<lparr>idle := cs\<rparr>) t (Taken c))"
| miss: "thr s t = Entered \<Longrightarrow> idle s = [] \<Longrightarrow> pool_step s (at s t Missed)"
| load_active: "thr s t = Missed \<Longrightarrow> pool_step s (at s t (Loaded (act s)))"
| room: "thr s t = Loaded a \<Longrightarrow> a + int (length (idle s)) < int (cap s) \<Longrightarrow> pool_step s (at s t Dialing)"
| no_room: "thr s t = Loaded a \<Longrightarrow> \<not> a + int (length (idle s)) < int (cap s) \<Longrightarrow> pool_step s (at s t Waiting)"
| dialled: "thr s t = Dialing \<Longrightarrow> pool_step s (at (s\<lparr>nextc := nextc s + 1\<rparr>) t (Taken (nextc s)))"
| dial_cancelled: "thr s t = Dialing \<Longrightarrow> pool_step s (at s t Out)"
| dial_failed: "thr s t = Dialing \<Longrightarrow> pool_step s (at s t Waiting)"
| wake: "thr s t = Waiting \<Longrightarrow> idle s = c # cs \<Longrightarrow> pool_step s (at (s\<lparr>idle := cs\<rparr>) t (Taken c))"
| wake_closed: "thr s t = Waiting \<Longrightarrow> shut s \<Longrightarrow> idle s = [] \<Longrightarrow> pool_step s (at s t Out)"
| wait_cancelled: "thr s t = Waiting \<Longrightarrow> pool_step s (at s t Out)"
| count: "thr s t = Taken c \<Longrightarrow> pool_step s (at (s\<lparr>act := act s + 1\<rparr>) t (Holding c))"
| put_count: "thr s t = Holding c \<Longrightarrow> pool_step s (at (s\<lparr>act := act s - 1\<rparr>) t (Releasing c))"
| put_back: "thr s t = Releasing c \<Longrightarrow> \<not> shut s \<Longrightarrow> length (idle s) < cap s \<Longrightarrow>
    pool_step s (at (s\<lparr>idle := idle s @ [c]\<rparr>) t Out)"
| put_close: "thr s t = Releasing c \<Longrightarrow> shut s \<or> cap s \<le> length (idle s) \<Longrightarrow> pool_step s (at s t Out)"
| drop_conn: "thr s t = Holding c \<Longrightarrow> pool_step s (at (s\<lparr>act := act s - 1\<rparr>) t Out)"
| shutdown: "\<not> shut s \<Longrightarrow> pool_step s (s\<lparr>shut := True\<rparr>)"
| drain: "shut s \<Longrightarrow> idle s = c # cs \<Longrightarrow> pool_step s (s\<lparr>idle := cs\<rparr>)"

text \<open>A pool after \<open>New\<close> with \<open>n\<close> connections dialled in advance.\<close>

definition fresh_pool :: "nat \<Rightarrow> nat \<Rightarrow> pool_state" where
  "fresh_pool mx n = \<lparr>cap = mx, idle = [0..<n], act = 0, shut = False, nextc = n, thr = (\<lambda>_. Out)\<rparr>"

definition pool_init :: "pool_state \<Rightarrow> bool" where
  "pool_init s \<longleftrightarrow> (\<exists>mx n. n \<le> mx \<and> s = fresh_pool mx n)"

section \<open>The invariant\<close>

fun holds :: "phase \<Rightarrow> nat \<Rightarrow> bool" where
  "holds (Taken d) c = (d = c)"
| "holds (Holding d) c = (d = c)"
| "holds (Releasing d) c = (d = c)"
| "holds _ c = False"

fun counted :: "phase \<Rightarrow> bool" where
  "counted (Holding c) = True"
| "counted _ = False"

text \<open>A connection is idle or with one goroutine, never both and never with two.\<close>

definition exclusive :: "pool_state \<Rightarrow> bool" where
  "exclusive s \<longleftrightarrow>
     distinct (idle s) \<and> (\<forall>c \<in> set (idle s). c < nextc s) \<and>
     (\<forall>t c. holds (thr s t) c \<longrightarrow> c < nextc s \<and> c \<notin> set (idle s)) \<and>
     (\<forall>t u c. holds (thr s t) c \<longrightarrow> holds (thr s u) c \<longrightarrow> t = u)"

definition accounted :: "pool_state \<Rightarrow> bool" where
  "accounted s \<longleftrightarrow> finite {t. counted (thr s t)} \<and> act s = int (card {t. counted (thr s t)}) \<and> length (idle s) \<le> cap s"

lemma exclusive_move:
  assumes "exclusive s" and "\<And>c. holds ph c \<Longrightarrow> holds (thr s t) c"
  shows "exclusive (at s t ph)"
  using assms unfolding exclusive_def by (auto split: if_splits)

lemma exclusive_act [simp]:
  "exclusive (s\<lparr>act := a\<rparr>) = exclusive s" "exclusive (s\<lparr>shut := b\<rparr>) = exclusive s"
  by (simp_all add: exclusive_def)

lemma exclusive_step: "pool_step s s' \<Longrightarrow> exclusive s \<Longrightarrow> exclusive s'"
proof (induction rule: pool_step.induct)
  case (take_idle s t c cs)
  then show ?case unfolding exclusive_def by (auto split: if_splits)
next
  case (wake s t c cs)
  then show ?case unfolding exclusive_def by (auto split: if_splits)
next
  case (dialled s t)
  then show ?case unfolding exclusive_def by (auto split: if_splits simp: less_Suc_eq)
next
  case (put_back s t c)
  have "c < nextc s" "c \<notin> set (idle s)" "\<And>u. holds (thr s u) c \<Longrightarrow> u = t"
    using put_back.prems put_back.hyps(1) unfolding exclusive_def by (metis holds.simps(3))+
  then show ?case
    using put_back.prems put_back.hyps unfolding exclusive_def by (auto split: if_splits)
next
  case (drain s c cs)
  then show ?case unfolding exclusive_def by auto
next
  case (count s t c)
  then show ?case using exclusive_move [of "s\<lparr>act := act s + 1\<rparr>" "Holding c" t] by simp
next
  case (put_count s t c)
  then show ?case using exclusive_move [of "s\<lparr>act := act s - 1\<rparr>" "Releasing c" t] by simp
next
  case (drop_conn s t c)
  then show ?case using exclusive_move [of "s\<lparr>act := act s - 1\<rparr>" Out t] by simp
qed (auto intro: exclusive_move)

text \<open>The goroutines that are counted, when one of them moves.\<close>

abbreviation counting :: "(nat \<Rightarrow> phase) \<Rightarrow> nat set" where
  "counting f \<equiv> {u. counted (f u)}"

lemma counting_upd:
  "counted ph \<Longrightarrow> counting (f(t := ph)) = insert t (counting f)"
  "\<not> counted ph \<Longrightarrow> counting (f(t := ph)) = counting f - {t}"
  by auto

lemma accounted_same:
  assumes "accounted s" and "\<not> counted (thr s t)" and "\<not> counted ph"
    and "cap s1 = cap s" "act s1 = act s" "thr s1 = thr s"
    and "length (idle s1) \<le> length (idle s) \<or> length (idle s1) \<le> cap s"
  shows "accounted (at s1 t ph)"
  using assms by (auto simp: accounted_def counting_upd simp del: fun_upd_apply)

lemma accounted_up:
  assumes "accounted s" and "\<not> counted (thr s t)" and "counted ph"
  shows "accounted (at (s\<lparr>act := act s + 1\<rparr>) t ph)"
  using assms by (simp add: accounted_def counting_upd del: fun_upd_apply)

lemma accounted_down:
  assumes "accounted s" and "counted (thr s t)" and "\<not> counted ph"
  shows "accounted (at (s\<lparr>act := act s - 1\<rparr>) t ph)"
proof -
  have t: "t \<in> counting (thr s)" and fin: "finite (counting (thr s))"
    using assms by (simp_all add: accounted_def)
  have "0 < card (counting (thr s))"
    unfolding card_gt_0_iff using t fin by blast
  then have "int (card (counting (thr s) - {t})) = int (card (counting (thr s))) - 1"
    by (simp add: card_Diff_singleton [OF t])
  then show ?thesis
    using assms by (simp add: accounted_def counting_upd del: fun_upd_apply)
qed

lemma accounted_step: "pool_step s s' \<Longrightarrow> accounted s \<Longrightarrow> accounted s'"
proof (induction rule: pool_step.induct)
  case (shutdown s)
  then show ?case by (simp add: accounted_def)
next
  case (drain s c cs)
  then show ?case by (simp add: accounted_def)
next
  case (count s t c)
  then show ?case by (intro accounted_up) simp_all
next
  case (put_count s t c)
  then show ?case by (intro accounted_down) simp_all
next
  case (drop_conn s t c)
  then show ?case by (intro accounted_down) simp_all
qed (erule accounted_same; simp)+

definition pool_inv :: "pool_state \<Rightarrow> bool" where
  "pool_inv s \<longleftrightarrow> exclusive s \<and> accounted s"

interpretation pool: invariant pool_init pool_step pool_inv
proof unfold_locales
  fix s
  assume "pool_init s"
  then show "pool_inv s"
    by (auto simp: pool_init_def fresh_pool_def pool_inv_def exclusive_def accounted_def)
next
  fix s t
  assume "pool_inv s" and "pool_step s t"
  then show "pool_inv t"
    using exclusive_step accounted_step by (auto simp: pool_inv_def)
qed

section \<open>Runs\<close>

lemma reach_step': "reach pool_init pool_step s \<Longrightarrow> pool_step s u \<Longrightarrow> u = s' \<Longrightarrow> reach pool_init pool_step s'"
  by (auto intro: reach_step)

text \<open>\<open>k\<close> goroutines of which \<open>j\<close> hold a connection and the others still dial, in a pool of size \<open>n\<close>.\<close>

definition crowd :: "nat \<Rightarrow> nat \<Rightarrow> nat \<Rightarrow> pool_state" where
  "crowd n k j = \<lparr>cap = n, idle = [], act = int j, shut = False, nextc = j,
     thr = (\<lambda>t. if t < j then Holding t else if t < k then Dialing else Out)\<rparr>"

lemma crowd_dialing: "0 < n \<Longrightarrow> reach pool_init pool_step (crowd n k 0)"
proof (induction k)
  case 0
  have "pool_init (crowd n 0 0)"
    by (auto simp: pool_init_def fresh_pool_def crowd_def intro!: exI [of _ n] exI [of _ "0::nat"])
  then show ?case by (rule reach_init)
next
  case (Suc k)
  let ?s = "crowd n k 0"
  have "reach pool_init pool_step (at ?s k Entered)"
    using Suc by (intro reach_step [OF Suc.IH] enter) (simp_all add: crowd_def)
  then have "reach pool_init pool_step (at ?s k Missed)"
    by (rule reach_step' [OF _ miss [of _ k]]) (simp_all add: crowd_def)
  then have "reach pool_init pool_step (at ?s k (Loaded 0))"
    by (rule reach_step' [OF _ load_active [of _ k]]) (simp_all add: crowd_def)
  then have "reach pool_init pool_step (at ?s k Dialing)"
    by (rule reach_step' [OF _ room [of _ k 0]]) (use Suc.prems in \<open>simp_all add: crowd_def\<close>)
  moreover have "at ?s k Dialing = crowd n (Suc k) 0"
    by (auto simp: crowd_def)
  ultimately show ?case by simp
qed

lemma crowd_holding: "0 < n \<Longrightarrow> j \<le> k \<Longrightarrow> reach pool_init pool_step (crowd n k j)"
proof (induction j)
  case 0
  then show ?case by (intro crowd_dialing)
next
  case (Suc j)
  let ?s = "crowd n k j"
  have "reach pool_init pool_step ?s" using Suc by simp
  then have "reach pool_init pool_step (at (?s\<lparr>nextc := nextc ?s + 1\<rparr>) j (Taken j))"
    by (rule reach_step' [OF _ dialled [of _ j]]) (use Suc.prems in \<open>simp_all add: crowd_def\<close>)
  then have "reach pool_init pool_step (at (?s\<lparr>nextc := nextc ?s + 1, act := act ?s + 1\<rparr>) j (Holding j))"
    by (rule reach_step' [OF _ count [of _ j j]]) (simp_all add: crowd_def)
  moreover have "at (?s\<lparr>nextc := nextc ?s + 1, act := act ?s + 1\<rparr>) j (Holding j) = crowd n k (Suc j)"
    by (auto simp: crowd_def less_Suc_eq)
  ultimately show ?case by simp
qed

inductive_cases pool_stepE: "pool_step s s'"

section \<open>Properties\<close>

text \<open>
  C14. Connections are never shared. In every reachable state of the pool, however its callers
  interleave, a connection that a goroutine has taken out is not idle and is with no other
  goroutine; the counter \<open>active\<close> is the number of goroutines that hold one; and the channel of
  idle connections never holds more than the configured size.
\<close>

theorem pool_connections_exclusive:
  assumes "reach pool_init pool_step s" and "holds (thr s t) c"
  shows "c \<notin> set (idle s) \<and> {u. holds (thr s u) c} = {t} \<and>
    act s = int (card {u. counted (thr s u)}) \<and> length (idle s) \<le> cap s"
  using pool.reach_inv [OF assms(1)] assms(2) unfolding pool_inv_def exclusive_def accounted_def by blast

theorem pool_connections_exclusive_witness:
  "{u. holds (thr (crowd 2 3 2) u) 1} = {1} \<and> act (crowd 2 3 2) = int (card {u. counted (thr (crowd 2 3 2) u)})"
  using pool_connections_exclusive [OF crowd_holding [of 2 2 3], of 1 1] by (simp add: crowd_def)

text \<open>
  C35. The size of a pool is not enforced. \<open>Get\<close> compares \<open>active\<close> with the size before it dials
  and raises \<open>active\<close> only after the dial, so goroutines that arrive while dials are under way
  all pass the check: with a maximum of one connection, any number of connections can be
  open and in use at the same time.
\<close>

theorem pool_size_not_enforced:
  "\<exists>s. reach pool_init pool_step s \<and> cap s = 1 \<and> card {c. \<exists>t. thr s t = Holding c} = n"
proof -
  have "{c. \<exists>t. thr (crowd 1 n n) t = Holding c} = {..<n}"
    by (auto simp: crowd_def split: if_splits)
  then show ?thesis
    using crowd_holding [of 1 n n] by (intro exI [of _ "crowd 1 n n"]) (simp add: crowd_def)
qed


end
