(* ===== verification/Proxy_Config.thy ===== *)
theory Proxy_Config
  imports Go_Strconv "HOL-Library.AList"
begin

text \<open>
  \<open>internal/config\<close>: defaults, the YAML overlay, the environment overlay and validation.
  The environment, the file system and the YAML decoder are parameters of \<open>LoadConfig\<close>;
  durations are nanoseconds. \<open>strings.TrimSpace\<close> removes ASCII white space, and the fraction
  of a duration is computed exactly where Go goes through a \<open>float64\<close>.
\<close>

section \<open>Records and defaults\<close>

record TLSConfig =
  Enabled :: bool
  CAFile :: bytes
  CertFile :: bytes
  KeyFile :: bytes
  InsecureSkipVerify :: bool

record Config =
  UnixSocket :: bytes
  UnixSocketMode :: bytes
  ClusterSeeds :: "bytes list"
  ClusterUsername :: bytes
  ClusterPassword :: bytes
  TLS :: TLSConfig
  BackendFlavor :: bytes
  PoolMinPerNode :: int
  PoolMaxPerNode :: int
  DialTimeout :: int
  ReadTimeout :: int
  WriteTimeout :: int
  ReconnectBackoffMin :: int
  ReconnectBackoffMax :: int
  TopologyRefresh :: int
  MaxClientConns :: int
  BlockingMaxWait :: int
  MetricsAddr :: bytes
  LogLevel :: bytes
  Pprof :: bool
  PprofAddr :: bytes
  ShutdownTimeout :: int
  ReadFromReplicas :: bool
  ClientAuthPassword :: bytes
  HashTagOpen :: bytes
  HashTagClose :: bytes
  MovedHopLimit :: int
  AddressMap :: "(bytes \<times> bytes) list"
  MaxDatabases :: int
  MaxPipeline :: int

text \<open>What \<open>yaml.Unmarshal\<close> fills in; a pointer field is absent when the file does not name it.\<close>

record fileConfig =
  fUnixSocket :: bytes
  fUnixSocketMode :: bytes
  fClusterSeeds :: "bytes list"
  fClusterUsername :: bytes
  fClusterPassword :: bytes
  fTLS :: TLSConfig
  fBackendFlavor :: bytes
  fPoolMinPerNode :: "int option"
  fPoolMaxPerNode :: "int option"
  fDialTimeout :: int
  fReadTimeout :: int
  fWriteTimeout :: int
  fReconnectBackoffMin :: int
  fReconnectBackoffMax :: int
  fTopologyRefresh :: int
  fMaxClientConns :: "int option"
  fBlockingMaxWait :: int
  fMetricsAddr :: bytes
  fLogLevel :: bytes
  fPprof :: "bool option"
  fPprofAddr :: bytes
  fShutdownTimeout :: int
  fReadFromReplicas :: "bool option"
  fClientAuthPassword :: bytes
  fHashTagOpen :: bytes
  fHashTagClose :: bytes
  fMovedHopLimit :: "int option"
  fAddressMap :: "(bytes \<times> bytes) list"
  fMaxDatabases :: "int option"
  fMaxPipeline :: "int option"

abbreviation second :: int where
  "second \<equiv> 1000000000"

abbreviation millisecond :: int where
  "millisecond \<equiv> 1000000"

definition Defaults :: Config where
  "Defaults = \<lparr>
     UnixSocket = ''/tmp/dragon-cluster-resp-proxy.sock'',
     UnixSocketMode = ''0770'',
     ClusterSeeds = [],
     ClusterUsername = [],
     ClusterPassword = [],
     TLS = \<lparr>Enabled = False, CAFile = [], CertFile = [], KeyFile = [], InsecureSkipVerify = False\<rparr>,
     BackendFlavor = ''auto'',
     PoolMinPerNode = 2,
     PoolMaxPerNode = 64,
     DialTimeout = 3 * second,
     ReadTimeout = 30 * second,
     WriteTimeout = 5 * second,
     ReconnectBackoffMin = 50 * millisecond,
     ReconnectBackoffMax = 2 * second,
     TopologyRefresh = 10 * second,
     MaxClientConns = 10000,
     BlockingMaxWait = 60 * second,
     MetricsAddr = '':9090'',
     LogLevel = ''info'',
     Pprof = False,
     PprofAddr = ''127.0.0.1:6060'',
     ShutdownTimeout = 15 * second,
     ReadFromReplicas = False,
     ClientAuthPassword = [],
     HashTagOpen = ''{'',
     HashTagClose = ''}'',
     MovedHopLimit = 5,
     AddressMap = [],
     MaxDatabases = 16,
     MaxPipeline = 128\<rparr>"

section \<open>Standard library\<close>

definition is_space :: "char \<Rightarrow> bool" where
  "is_space c \<longleftrightarrow> byte_val c \<in> {9, 10, 11, 12, 13, 32}"

definition TrimSpace :: "bytes \<Rightarrow> bytes" where
  "TrimSpace s = rev (dropWhile is_space (rev (dropWhile is_space s)))"

text \<open>\<open>strings.Split(s, string(c))\<close>: always at least one part.\<close>

fun Split :: "char \<Rightarrow> bytes \<Rightarrow> bytes list" where
  "Split c [] = [[]]"
| "Split c (x # xs) =
     (if x = c then [] # Split c xs
      else (case Split c xs of p # ps \<Rightarrow> (x # p) # ps | [] \<Rightarrow> [[x]]))"

text \<open>\<open>strings.Cut\<close> at the first occurrence of a byte.\<close>

definition Cut :: "bytes \<Rightarrow> char \<Rightarrow> (bytes \<times> bytes) option" where
  "Cut s c = (case IndexByte s c of None \<Rightarrow> None | Some i \<Rightarrow> Some (take i s, drop (i + 1) s))"

text \<open>
  \<open>strconv.Quote\<close>, the \<open>%q\<close> of an error message: quotes, backslashes and the control
  bytes are escaped; bytes above 127 are kept (they are parts of printable UTF-8).
\<close>

definition hexdig :: "nat \<Rightarrow> char" where
  "hexdig n = ''0123456789abcdef'' ! (n mod 16)"

definition quoteByte :: "char \<Rightarrow> bytes" where
  "quoteByte c =
     (let n = byte_val c in
      if c = CHR 0x22 \<or> c = CHR 0x5C then [CHR 0x5C, c]
      else if n = 7 then CHR 0x5C # ''a'' else if n = 8 then CHR 0x5C # ''b''
      else if n = 9 then CHR 0x5C # ''t'' else if n = 10 then CHR 0x5C # ''n''
      else if n = 11 then CHR 0x5C # ''v'' else if n = 12 then CHR 0x5C # ''f''
      else if n = 13 then CHR 0x5C # ''r''
      else if n < 32 \<or> n = 127 then CHR 0x5C # ''x'' @ [hexdig (n div 16), hexdig n]
      else [c])"

definition Quote :: "bytes \<Rightarrow> bytes" where
  "Quote s = CHR 0x22 # concat (map quoteByte s) @ [CHR 0x22]"

text \<open>\<open>strconv.ParseUint(s, 8, 32)\<close> with its two errors.\<close>

fun oct_acc :: "nat \<Rightarrow> bytes \<Rightarrow> bytes + nat" where
  "oct_acc n [] = Inr n"
| "oct_acc n (c # cs) =
     (if 48 \<le> byte_val c \<and> byte_val c \<le> 55 then
        (if n * 8 + (byte_val c - 48) \<ge> 2 ^ 32 then Inl ''value out of range''
         else oct_acc (n * 8 + (byte_val c - 48)) cs)
      else Inl ''invalid syntax'')"

definition ParseOctal32 :: "bytes \<Rightarrow> nat res" where
  "ParseOctal32 s =
     (case (if s = [] then Inl ''invalid syntax'' else oct_acc 0 s) of
        Inr n \<Rightarrow> Ok n
      | Inl m \<Rightarrow> Err (GoErr (''strconv.ParseUint: parsing '' @ Quote s @ '': '' @ m)))"

text \<open>\<open>time.ParseDuration\<close>.\<close>

definition durUnit :: "bytes \<Rightarrow> nat option" where
  "durUnit u =
     (if u = ''ns'' then Some 1
      else if u \<in> {''us'', [CHR 0xC2, CHR 0xB5, CHR ''s''], [CHR 0xCE, CHR 0xBC, CHR ''s'']} then Some 1000
      else if u = ''ms'' then Some 1000000
      else if u = ''s'' then Some 1000000000
      else if u = ''m'' then Some 60000000000
      else if u = ''h'' then Some 3600000000000
      else None)"

fun leadingFraction :: "nat \<Rightarrow> nat \<Rightarrow> bool \<Rightarrow> bytes \<Rightarrow> nat \<times> nat" where
  "leadingFraction x scale ovf [] = (x, scale)"
| "leadingFraction x scale ovf (c # cs) =
     (if ovf \<or> x > (2 ^ 63 - 1) div 10 \<or> x * 10 + (byte_val c - 48) > 2 ^ 63
      then leadingFraction x scale True cs
      else leadingFraction (x * 10 + (byte_val c - 48)) (scale * 10) False cs)"

text \<open>One number with its unit, and what follows it.\<close>

definition durStep :: "bytes \<Rightarrow> (nat \<times> bytes) option" where
  "durStep s =
     (let ds = takeWhile is_digit s; s1 = dropWhile is_digit s;
          dot = (s1 \<noteq> [] \<and> hd s1 = CHR ''.'');
          fs = (if dot then takeWhile is_digit (tl s1) else []);
          s2 = (if dot then dropWhile is_digit (tl s1) else s1);
          u = takeWhile (\<lambda>c. c \<noteq> CHR ''.'' \<and> \<not> is_digit c) s2;
          s3 = dropWhile (\<lambda>c. c \<noteq> CHR ''.'' \<and> \<not> is_digit c) s2
      in if ds = [] \<and> fs = [] \<or> u = [] then None
         else (case (dec_acc 0 ds, durUnit u) of
                 (Some v, Some per) \<Rightarrow>
                   if v > 2 ^ 63 \<or> v > 2 ^ 63 div per then None
                   else let (f, scale) = leadingFraction 0 1 False fs;
                            v' = v * per + (f * per) div scale
                        in if v' > 2 ^ 63 then None else Some (v', s3)
               | _ \<Rightarrow> None))"

lemma length_dropWhile_less: "takeWhile P xs \<noteq> [] \<Longrightarrow> length (dropWhile P xs) < length xs"
  by (cases xs) (auto simp: length_dropWhile_le le_imp_less_Suc split: if_splits)

lemma durStep_shorter:
  assumes "durStep s = Some (v, t)"
  shows "length t < length s"
proof -
  let ?Q = "\<lambda>c. c \<noteq> CHR ''.'' \<and> \<not> is_digit c"
  define s1 where "s1 = dropWhile is_digit s"
  define s2 where "s2 = (if s1 \<noteq> [] \<and> hd s1 = CHR ''.'' then dropWhile is_digit (tl s1) else s1)"
  have t: "t = dropWhile ?Q s2" and u: "takeWhile ?Q s2 \<noteq> []"
    using assms unfolding durStep_def Let_def s1_def [symmetric] s2_def [symmetric]
    by (auto split: if_splits option.splits prod.splits)
  have "length s1 \<le> length s"
    by (simp add: s1_def length_dropWhile_le)
  moreover have "length s2 \<le> length s1"
    using length_dropWhile_le [of is_digit "tl s1"] by (auto simp: s2_def)
  moreover have "length t < length s2"
    unfolding t using u by (rule length_dropWhile_less)
  ultimately show ?thesis by simp
qed

function durLoop :: "nat \<Rightarrow> bytes \<Rightarrow> nat option" where
  "durLoop d s =
     (if s = [] then Some d
      else (case durStep s of
              None \<Rightarrow> None
            | Some (v, t) \<Rightarrow> if d + v > 2 ^ 63 then None else durLoop (d + v) t))"
  by pat_completeness auto
termination durLoop
  by (relation "measure (\<lambda>(d, s). length s)") (auto dest: durStep_shorter)

declare durLoop.simps [simp del]

definition ParseDuration :: "bytes \<Rightarrow> int option" where
  "ParseDuration s0 =
     (let neg = (s0 \<noteq> [] \<and> hd s0 = CHR ''-'');
          s = (if s0 \<noteq> [] \<and> (hd s0 = CHR ''-'' \<or> hd s0 = CHR ''+'') then tl s0 else s0)
      in if s = ''0'' then Some 0
         else if s = [] then None
         else (case durLoop 0 s of
                 None \<Rightarrow> None
               | Some d \<Rightarrow> if neg then Some (- int d)
                            else if d > 2 ^ 63 - 1 then None else Some (int d)))"

section \<open>Reading the parts\<close>

definition parseBool :: "bytes \<Rightarrow> bool" where
  "parseBool v = (ToLower (TrimSpace v) \<in> {''1'', ''true'', ''yes'', ''on''})"

definition splitCSV :: "bytes \<Rightarrow> bytes list" where
  "splitCSV v = filter (\<lambda>p. p \<noteq> []) (map TrimSpace (Split (CHR '','') v))"

text \<open>A map of strings is an association list; an assignment replaces the entry of its key.\<close>

definition cloneMap :: "(bytes \<times> bytes) list \<Rightarrow> (bytes \<times> bytes) list" where
  "cloneMap m = foldl (\<lambda>out (k, v). AList.update k v out) [] m"

definition parseAddressMap :: "bytes \<Rightarrow> (bytes \<times> bytes) list" where
  "parseAddressMap v =
     foldl (\<lambda>out part. case Cut (TrimSpace part) (CHR ''='') of
                None \<Rightarrow> out
              | Some (from, to) \<Rightarrow> if from = [] \<or> to = [] then out else AList.update from to out)
           [] (Split (CHR '','') v)"

definition UnixSocketPerm :: "Config \<Rightarrow> nat res" where
  "UnixSocketPerm c =
     (case ParseOctal32 (UnixSocketMode c) of
        Err e \<Rightarrow> Err (GoErr (''unix_socket_mode: '' @ err_string e))
      | v \<Rightarrow> v)"

definition HashTagRunes :: "Config \<Rightarrow> char \<times> char" where
  "HashTagRunes c =
     (if HashTagOpen c \<noteq> [] then hd (HashTagOpen c) else CHR ''{'',
      if HashTagClose c \<noteq> [] then hd (HashTagClose c) else CHR ''}'')"

definition Validate :: "Config \<Rightarrow> gerr option" where
  "Validate c =
     (if UnixSocket c = [] then Some (GoErr ''unix_socket is required'')
      else if ClusterSeeds c = [] then Some (GoErr ''cluster_seeds is required'')
      else if ToLower (BackendFlavor c) \<notin> {''auto'', ''dragonfly'', ''redis''}
        then Some (GoErr (''backend_flavor '' @ Quote (BackendFlavor c) @ '' must be auto, dragonfly, or redis''))
      else if PoolMaxPerNode c < 1 then Some (GoErr ''pool_max_per_node must be >= 1'')
      else if PoolMinPerNode c < 0 \<or> PoolMinPerNode c > PoolMaxPerNode c
        then Some (GoErr ''pool_min_per_node must be between 0 and pool_max_per_node'')
      else if MaxClientConns c < 1 then Some (GoErr ''max_client_conns must be >= 1'')
      else if MovedHopLimit c < 1 then Some (GoErr ''moved_hop_limit must be >= 1'')
      else if MaxDatabases c < 1 then Some (GoErr ''max_databases must be >= 1'')
      else if MaxPipeline c < 1 then Some (GoErr ''max_pipeline must be >= 1'')
      else if DialTimeout c \<le> 0 \<or> ReadTimeout c \<le> 0 \<or> WriteTimeout c \<le> 0
        then Some (GoErr ''dial/read/write timeouts must be > 0'')
      else (case UnixSocketPerm c of Err e \<Rightarrow> Some e | _ \<Rightarrow> None))"

section \<open>Merging file and environment\<close>

text \<open>\<open>os.LookupEnv\<close> of a name with the prefix; an empty value counts as unset.\<close>

definition envVal :: "(bytes \<Rightarrow> bytes option) \<Rightarrow> bytes \<Rightarrow> bytes option" where
  "envVal env key = (case env (''DCRP_'' @ key) of Some v \<Rightarrow> if v \<noteq> [] then Some v else None | None \<Rightarrow> None)"

definition setStr :: "(bytes \<Rightarrow> bytes option) \<Rightarrow> bytes \<Rightarrow> bytes \<Rightarrow> bytes" where
  "setStr env key dst = (case envVal env key of Some v \<Rightarrow> v | None \<Rightarrow> dst)"

definition setBool :: "(bytes \<Rightarrow> bytes option) \<Rightarrow> bytes \<Rightarrow> bool \<Rightarrow> bool" where
  "setBool env key dst = (case envVal env key of Some v \<Rightarrow> parseBool v | None \<Rightarrow> dst)"

definition setInt :: "(bytes \<Rightarrow> bytes option) \<Rightarrow> bytes \<Rightarrow> int \<Rightarrow> int" where
  "setInt env key dst =
     (case envVal env key of Some v \<Rightarrow> (case Atoi v of Some n \<Rightarrow> n | None \<Rightarrow> dst) | None \<Rightarrow> dst)"

definition setDur :: "(bytes \<Rightarrow> bytes option) \<Rightarrow> bytes \<Rightarrow> int \<Rightarrow> int" where
  "setDur env key dst =
     (case envVal env key of Some v \<Rightarrow> (case ParseDuration v of Some d \<Rightarrow> d | None \<Rightarrow> dst) | None \<Rightarrow> dst)"

definition applyFileTLS :: "TLSConfig \<Rightarrow> TLSConfig \<Rightarrow> TLSConfig" where
  "applyFileTLS t f =
     \<lparr>Enabled = (Enabled t \<or> Enabled f),
      CAFile = (if CAFile f \<noteq> [] then CAFile f else CAFile t),
      CertFile = (if CertFile f \<noteq> [] then CertFile f else CertFile t),
      KeyFile = (if KeyFile f \<noteq> [] then KeyFile f else KeyFile t),
      InsecureSkipVerify = (InsecureSkipVerify t \<or> InsecureSkipVerify f)\<rparr>"

definition applyFile :: "Config \<Rightarrow> fileConfig \<Rightarrow> Config" where
  "applyFile cfg fc = cfg\<lparr>
     UnixSocket := (if fUnixSocket fc \<noteq> [] then fUnixSocket fc else UnixSocket cfg),
     UnixSocketMode := (if fUnixSocketMode fc \<noteq> [] then fUnixSocketMode fc else UnixSocketMode cfg),
     ClusterSeeds := (if fClusterSeeds fc \<noteq> [] then fClusterSeeds fc else ClusterSeeds cfg),
     ClusterUsername := (if fClusterUsername fc \<noteq> [] then fClusterUsername fc else ClusterUsername cfg),
     ClusterPassword := (if fClusterPassword fc \<noteq> [] then fClusterPassword fc else ClusterPassword cfg),
     TLS := applyFileTLS (TLS cfg) (fTLS fc),
     BackendFlavor := (if fBackendFlavor fc \<noteq> [] then fBackendFlavor fc else BackendFlavor cfg),
     PoolMinPerNode := (case fPoolMinPerNode fc of Some x \<Rightarrow> x | None \<Rightarrow> PoolMinPerNode cfg),
     PoolMaxPerNode := (case fPoolMaxPerNode fc of Some x \<Rightarrow> x | None \<Rightarrow> PoolMaxPerNode cfg),
     DialTimeout := (if fDialTimeout fc > 0 then fDialTimeout fc else DialTimeout cfg),
     ReadTimeout := (if fReadTimeout fc > 0 then fReadTimeout fc else ReadTimeout cfg),
     WriteTimeout := (if fWriteTimeout fc > 0 then fWriteTimeout fc else WriteTimeout cfg),
     ReconnectBackoffMin := (if fReconnectBackoffMin fc > 0 then fReconnectBackoffMin fc else ReconnectBackoffMin cfg),
     ReconnectBackoffMax := (if fReconnectBackoffMax fc > 0 then fReconnectBackoffMax fc else ReconnectBackoffMax cfg),
     TopologyRefresh := (if fTopologyRefresh fc > 0 then fTopologyRefresh fc else TopologyRefresh cfg),
     MaxClientConns := (case fMaxClientConns fc of Some x \<Rightarrow> x | None \<Rightarrow> MaxClientConns cfg),
     BlockingMaxWait := (if fBlockingMaxWait fc > 0 then fBlockingMaxWait fc else BlockingMaxWait cfg),
     MetricsAddr := (if fMetricsAddr fc \<noteq> [] then fMetricsAddr fc else MetricsAddr cfg),
     LogLevel := (if fLogLevel fc \<noteq> [] then fLogLevel fc else LogLevel cfg),
     Pprof := (case fPprof fc of Some x \<Rightarrow> x | None \<Rightarrow> Pprof cfg),
     PprofAddr := (if fPprofAddr fc \<noteq> [] then fPprofAddr fc else PprofAddr cfg),
     ShutdownTimeout := (if fShutdownTimeout fc > 0 then fShutdownTimeout fc else ShutdownTimeout cfg),
     ReadFromReplicas := (case fReadFromReplicas fc of Some x \<Rightarrow> x | None \<Rightarrow> ReadFromReplicas cfg),
     ClientAuthPassword := (if fClientAuthPassword fc \<noteq> [] then fClientAuthPassword fc else ClientAuthPassword cfg),
     HashTagOpen := (if fHashTagOpen fc \<noteq> [] then fHashTagOpen fc else HashTagOpen cfg),
     HashTagClose := (if fHashTagClose fc \<noteq> [] then fHashTagClose fc else HashTagClose cfg),
     MovedHopLimit := (case fMovedHopLimit fc of Some x \<Rightarrow> x | None \<Rightarrow> MovedHopLimit cfg),
     AddressMap := (if fAddressMap fc \<noteq> [] then cloneMap (fAddressMap fc) else AddressMap cfg),
     MaxDatabases := (case fMaxDatabases fc of Some x \<Rightarrow> x | None \<Rightarrow> MaxDatabases cfg),
     MaxPipeline := (case fMaxPipeline fc of Some x \<Rightarrow> x | None \<Rightarrow> MaxPipeline cfg)\<rparr>"

definition applyEnvTLS :: "(bytes \<Rightarrow> bytes option) \<Rightarrow> TLSConfig \<Rightarrow> TLSConfig" where
  "applyEnvTLS env t =
     \<lparr>Enabled = setBool env ''TLS_ENABLED'' (Enabled t),
      CAFile = setStr env ''TLS_CA_FILE'' (CAFile t),
      CertFile = setStr env ''TLS_CERT_FILE'' (CertFile t),
      KeyFile = setStr env ''TLS_KEY_FILE'' (KeyFile t),
      InsecureSkipVerify = setBool env ''TLS_INSECURE_SKIP_VERIFY'' (InsecureSkipVerify t)\<rparr>"

definition applyEnv :: "(bytes \<Rightarrow> bytes option) \<Rightarrow> Config \<Rightarrow> Config" where
  "applyEnv env cfg = cfg\<lparr>
     UnixSocket := setStr env ''UNIX_SOCKET'' (UnixSocket cfg),
     UnixSocketMode := setStr env ''UNIX_SOCKET_MODE'' (UnixSocketMode cfg),
     ClusterSeeds := (case envVal env ''CLUSTER_SEEDS'' of Some v \<Rightarrow> splitCSV v | None \<Rightarrow> ClusterSeeds cfg),
     ClusterUsername := setStr env ''CLUSTER_USERNAME'' (ClusterUsername cfg),
     ClusterPassword := setStr env ''CLUSTER_PASSWORD'' (ClusterPassword cfg),
     TLS := applyEnvTLS env (TLS cfg),
     BackendFlavor := setStr env ''BACKEND_FLAVOR'' (BackendFlavor cfg),
     PoolMinPerNode := setInt env ''POOL_MIN_PER_NODE'' (PoolMinPerNode cfg),
     PoolMaxPerNode := setInt env ''POOL_MAX_PER_NODE'' (PoolMaxPerNode cfg),
     DialTimeout := setDur env ''DIAL_TIMEOUT'' (DialTimeout cfg),
     ReadTimeout := setDur env ''READ_TIMEOUT'' (ReadTimeout cfg),
     WriteTimeout := setDur env ''WRITE_TIMEOUT'' (WriteTimeout cfg),
     ReconnectBackoffMin := setDur env ''RECONNECT_BACKOFF_MIN'' (ReconnectBackoffMin cfg),
     ReconnectBackoffMax := setDur env ''RECONNECT_BACKOFF_MAX'' (ReconnectBackoffMax cfg),
     TopologyRefresh := setDur env ''TOPOLOGY_REFRESH'' (TopologyRefresh cfg),
     MaxClientConns := setInt env ''MAX_CLIENT_CONNS'' (MaxClientConns cfg),
     BlockingMaxWait := setDur env ''BLOCKING_MAX_WAIT'' (BlockingMaxWait cfg),
     MetricsAddr := setStr env ''METRICS_ADDR'' (MetricsAddr cfg),
     LogLevel := setStr env ''LOG_LEVEL'' (LogLevel cfg),
     Pprof := setBool env ''PPROF'' (Pprof cfg),
     PprofAddr := setStr env ''PPROF_ADDR'' (PprofAddr cfg),
     ShutdownTimeout := setDur env ''SHUTDOWN_TIMEOUT'' (ShutdownTimeout cfg),
     ReadFromReplicas := setBool env ''READ_FROM_REPLICAS'' (ReadFromReplicas cfg),
     ClientAuthPassword := setStr env ''CLIENT_AUTH_PASSWORD'' (ClientAuthPassword cfg),
     HashTagOpen := setStr env ''HASH_TAG_OPEN'' (HashTagOpen cfg),
     HashTagClose := setStr env ''HASH_TAG_CLOSE'' (HashTagClose cfg),
     MovedHopLimit := setInt env ''MOVED_HOP_LIMIT'' (MovedHopLimit cfg),
     AddressMap := (case envVal env ''ADDRESS_MAP'' of Some v \<Rightarrow> parseAddressMap v | None \<Rightarrow> AddressMap cfg),
     MaxDatabases := setInt env ''MAX_DATABASES'' (MaxDatabases cfg),
     MaxPipeline := setInt env ''MAX_PIPELINE'' (MaxPipeline cfg)\<rparr>"

text \<open>
  \<open>Load\<close>: \<open>readFile\<close> is \<open>os.ReadFile\<close> and \<open>unmarshal\<close> the YAML decoder.
\<close>

definition LoadConfig ::
  "(bytes \<Rightarrow> bytes option) \<Rightarrow> (bytes \<Rightarrow> bytes res) \<Rightarrow> (bytes \<Rightarrow> fileConfig res) \<Rightarrow> bytes \<Rightarrow> Config res" where
  "LoadConfig env readFile unmarshal path0 =
     (let path = (if path0 = [] then (case env ''DCRP_CONFIG'' of Some p \<Rightarrow> p | None \<Rightarrow> []) else path0);
          fromFile =
            (if path = [] then Ok Defaults
             else (case readFile path of
                     Err e \<Rightarrow> Err (GoErr (''reading config '' @ path @ '': '' @ err_string e))
                   | Panic \<Rightarrow> Panic
                   | Ok rw \<Rightarrow>
                       (case unmarshal rw of
                          Err e \<Rightarrow> Err (GoErr (''parsing config '' @ path @ '': '' @ err_string e))
                        | Panic \<Rightarrow> Panic
                        | Ok fc \<Rightarrow> Ok (applyFile Defaults fc))))
      in res_bind fromFile (\<lambda>c.
           let cfg = applyEnv env c in
           case Validate cfg of Some e \<Rightarrow> Err e | None \<Rightarrow> Ok cfg))"


section \<open>What a loaded configuration is\<close>

text \<open>A setting takes the value of the environment when that can be read, else the value of the file, else the default.\<close>

definition effStr :: "(bytes \<Rightarrow> bytes option) \<Rightarrow> bytes \<Rightarrow> bytes \<Rightarrow> bytes \<Rightarrow> bytes" where
  "effStr env key f d = (case envVal env key of Some v \<Rightarrow> v | None \<Rightarrow> if f \<noteq> [] then f else d)"

definition effInt :: "(bytes \<Rightarrow> bytes option) \<Rightarrow> bytes \<Rightarrow> int option \<Rightarrow> int \<Rightarrow> int" where
  "effInt env key f d =
     (case Option.bind (envVal env key) Atoi of Some n \<Rightarrow> n | None \<Rightarrow> (case f of Some n \<Rightarrow> n | None \<Rightarrow> d))"

definition effDur :: "(bytes \<Rightarrow> bytes option) \<Rightarrow> bytes \<Rightarrow> int \<Rightarrow> int \<Rightarrow> int" where
  "effDur env key f d =
     (case Option.bind (envVal env key) ParseDuration of Some n \<Rightarrow> n | None \<Rightarrow> if f > 0 then f else d)"

definition effBool :: "(bytes \<Rightarrow> bytes option) \<Rightarrow> bytes \<Rightarrow> bool option \<Rightarrow> bool \<Rightarrow> bool" where
  "effBool env key f d =
     (case envVal env key of Some v \<Rightarrow> parseBool v | None \<Rightarrow> (case f of Some b \<Rightarrow> b | None \<Rightarrow> d))"

definition effFlag :: "(bytes \<Rightarrow> bytes option) \<Rightarrow> bytes \<Rightarrow> bool \<Rightarrow> bool" where
  "effFlag env key f = (case envVal env key of Some v \<Rightarrow> parseBool v | None \<Rightarrow> f)"

definition effective :: "(bytes \<Rightarrow> bytes option) \<Rightarrow> fileConfig \<Rightarrow> Config" where
  "effective env fc = \<lparr>
        UnixSocket = effStr env ''UNIX_SOCKET'' (fUnixSocket fc) ''/tmp/dragon-cluster-resp-proxy.sock'',
        UnixSocketMode = effStr env ''UNIX_SOCKET_MODE'' (fUnixSocketMode fc) ''0770'',
        ClusterSeeds = (case envVal env ''CLUSTER_SEEDS'' of Some v \<Rightarrow> splitCSV v | None \<Rightarrow> fClusterSeeds fc),
        ClusterUsername = effStr env ''CLUSTER_USERNAME'' (fClusterUsername fc) [],
        ClusterPassword = effStr env ''CLUSTER_PASSWORD'' (fClusterPassword fc) [],
        TLS = \<lparr>Enabled = effFlag env ''TLS_ENABLED'' (Enabled (fTLS fc)), CAFile = effStr env ''TLS_CA_FILE'' (CAFile (fTLS fc)) [],
          CertFile = effStr env ''TLS_CERT_FILE'' (CertFile (fTLS fc)) [], KeyFile = effStr env ''TLS_KEY_FILE'' (KeyFile (fTLS fc)) [],
          InsecureSkipVerify = effFlag env ''TLS_INSECURE_SKIP_VERIFY'' (InsecureSkipVerify (fTLS fc))\<rparr>,
        BackendFlavor = effStr env ''BACKEND_FLAVOR'' (fBackendFlavor fc) ''auto'',
        PoolMinPerNode = effInt env ''POOL_MIN_PER_NODE'' (fPoolMinPerNode fc) 2,
        PoolMaxPerNode = effInt env ''POOL_MAX_PER_NODE'' (fPoolMaxPerNode fc) 64,
        DialTimeout = effDur env ''DIAL_TIMEOUT'' (fDialTimeout fc) (3 * second),
        ReadTimeout = effDur env ''READ_TIMEOUT'' (fReadTimeout fc) (30 * second),
        WriteTimeout = effDur env ''WRITE_TIMEOUT'' (fWriteTimeout fc) (5 * second),
        ReconnectBackoffMin = effDur env ''RECONNECT_BACKOFF_MIN'' (fReconnectBackoffMin fc) (50 * millisecond),
        ReconnectBackoffMax = effDur env ''RECONNECT_BACKOFF_MAX'' (fReconnectBackoffMax fc) (2 * second),
        TopologyRefresh = effDur env ''TOPOLOGY_REFRESH'' (fTopologyRefresh fc) (10 * second),
        MaxClientConns = effInt env ''MAX_CLIENT_CONNS'' (fMaxClientConns fc) 10000,
        BlockingMaxWait = effDur env ''BLOCKING_MAX_WAIT'' (fBlockingMaxWait fc) (60 * second),
        MetricsAddr = effStr env ''METRICS_ADDR'' (fMetricsAddr fc) '':9090'',
        LogLevel = effStr env ''LOG_LEVEL'' (fLogLevel fc) ''info'',
        Pprof = effBool env ''PPROF'' (fPprof fc) False,
        PprofAddr = effStr env ''PPROF_ADDR'' (fPprofAddr fc) ''127.0.0.1:6060'',
        ShutdownTimeout = effDur env ''SHUTDOWN_TIMEOUT'' (fShutdownTimeout fc) (15 * second),
        ReadFromReplicas = effBool env ''READ_FROM_REPLICAS'' (fReadFromReplicas fc) False,
        ClientAuthPassword = effStr env ''CLIENT_AUTH_PASSWORD'' (fClientAuthPassword fc) [],
        HashTagOpen = effStr env ''HASH_TAG_OPEN'' (fHashTagOpen fc) ''{'',
        HashTagClose = effStr env ''HASH_TAG_CLOSE'' (fHashTagClose fc) ''}'',
        MovedHopLimit = effInt env ''MOVED_HOP_LIMIT'' (fMovedHopLimit fc) 5,
        AddressMap = (case envVal env ''ADDRESS_MAP'' of Some v \<Rightarrow> parseAddressMap v | None \<Rightarrow> cloneMap (fAddressMap fc)),
        MaxDatabases = effInt env ''MAX_DATABASES'' (fMaxDatabases fc) 16,
        MaxPipeline = effInt env ''MAX_PIPELINE'' (fMaxPipeline fc) 128\<rparr>"

text \<open>The bounds the other components rely on.\<close>

definition validConfig :: "Config \<Rightarrow> bool" where
  "validConfig c \<longleftrightarrow>
     UnixSocket c \<noteq> [] \<and> ClusterSeeds c \<noteq> [] \<and>
     ToLower (BackendFlavor c) \<in> {''auto'', ''dragonfly'', ''redis''} \<and>
     0 \<le> PoolMinPerNode c \<and> PoolMinPerNode c \<le> PoolMaxPerNode c \<and> 1 \<le> PoolMaxPerNode c \<and>
     1 \<le> MaxClientConns c \<and> 1 \<le> MovedHopLimit c \<and> 1 \<le> MaxDatabases c \<and> 1 \<le> MaxPipeline c \<and>
     0 < DialTimeout c \<and> 0 < ReadTimeout c \<and> 0 < WriteTimeout c \<and>
     (\<exists>perm < 2 ^ 32. UnixSocketPerm c = Ok perm)"

lemma oct_acc_bound: "n < 2 ^ 32 \<Longrightarrow> oct_acc n s = Inr m \<Longrightarrow> m < 2 ^ 32"
  by (induction n s rule: oct_acc.induct) (auto split: if_splits)

lemma UnixSocketPerm_bound:
  "UnixSocketPerm c = Ok perm \<Longrightarrow> perm < 2 ^ 32" "UnixSocketPerm c \<noteq> Panic"
  by (auto simp: UnixSocketPerm_def ParseOctal32_def split: if_splits sum.splits dest!: oct_acc_bound [rotated])

lemma Validate_iff: "Validate c = None \<longleftrightarrow> validConfig c"
  using UnixSocketPerm_bound [of c] unfolding Validate_def validConfig_def
  by (cases "UnixSocketPerm c") auto

lemma eff_eqs:
  "setStr env key (if f \<noteq> [] then f else d) = effStr env key f d"
  "setInt env key (case i of Some x \<Rightarrow> x | None \<Rightarrow> m) = effInt env key i m"
  "setDur env key (if n > 0 then n else m) = effDur env key n m"
  "setBool env key (case b of Some x \<Rightarrow> x | None \<Rightarrow> e) = effBool env key b e"
  by (auto simp: setStr_def effStr_def setInt_def effInt_def setDur_def effDur_def setBool_def effBool_def
      split: option.splits)

lemma eff_flag: "effFlag env key e = setBool env key e"
  by (simp add: effFlag_def setBool_def)

lemma eff_lists:
  "(if xs \<noteq> [] then xs else []) = (xs :: bytes list)" "(if ps \<noteq> [] then cloneMap ps else []) = cloneMap ps"
  by (auto simp: cloneMap_def)

lemma applyEnv_applyFile: "applyEnv env (applyFile Defaults fc) = effective env fc"
  unfolding applyEnv_def applyEnvTLS_def applyFile_def applyFileTLS_def effective_def Defaults_def eff_flag
  by (simp only: Config.simps TLSConfig.simps eff_eqs eff_lists HOL.simp_thms)

text \<open>
  A value that cannot be read is passed over, so the file's value stays although the comment of
  \<open>Load\<close> says that the environment always wins.
\<close>

lemma unreadable_env_value_ignored:
  "envVal env key = Some v \<Longrightarrow> Atoi v = None \<Longrightarrow> effInt env key (Some n) d = n"
  by (simp add: effInt_def)

text \<open>An interval of the topology refresh loop that is not positive passes validation.\<close>

lemma refresh_interval_unchecked: "validConfig (c\<lparr>TopologyRefresh := n\<rparr>) = validConfig c"
  by (simp add: validConfig_def UnixSocketPerm_def)

section \<open>Lists in environment variables\<close>

fun joinWith :: "char \<Rightarrow> bytes list \<Rightarrow> bytes" where
  "joinWith c [] = []"
| "joinWith c [p] = p"
| "joinWith c (p # q # ps) = p @ c # joinWith c (q # ps)"

lemma Split_plain: "c \<notin> set p \<Longrightarrow> Split c p = [p]"
  by (induction p) auto

lemma Split_append: "c \<notin> set p \<Longrightarrow> Split c (p @ c # s) = p # Split c s"
  by (induction p) auto

lemma Split_joinWith: "ps \<noteq> [] \<Longrightarrow> \<forall>p \<in> set ps. c \<notin> set p \<Longrightarrow> Split c (joinWith c ps) = ps"
  by (induction c ps rule: joinWith.induct) (auto simp: Split_plain Split_append)

definition trimmed :: "bytes \<Rightarrow> bool" where
  "trimmed s \<longleftrightarrow> s \<noteq> [] \<and> \<not> is_space (hd s) \<and> \<not> is_space (last s)"

lemma TrimSpace_trimmed [simp]:
  assumes "trimmed s"
  shows "TrimSpace s = s"
proof -
  have "dropWhile is_space s = s"
    using assms by (cases s) (auto simp: trimmed_def)
  moreover have "dropWhile is_space (rev s) = rev s"
    using assms by (cases s rule: rev_cases) (auto simp: trimmed_def)
  ultimately show ?thesis by (simp add: TrimSpace_def)
qed

lemma splitCSV_joinWith:
  assumes "\<forall>p \<in> set ps. trimmed p \<and> CHR '','' \<notin> set p"
  shows "splitCSV (joinWith (CHR '','') ps) = ps"
proof (cases "ps = []")
  case True
  then show ?thesis by (simp add: splitCSV_def TrimSpace_def)
next
  case False
  have "map TrimSpace ps = ps" using assms by (simp add: map_idI)
  then show ?thesis using False assms
    by (simp add: splitCSV_def Split_joinWith) (auto simp: filter_id_conv trimmed_def)
qed

lemma Cut_append: "c \<notin> set k \<Longrightarrow> Cut (k @ c # v) c = Some (k, v)"
  by (simp add: Cut_def)

lemma AList_update_fresh: "k \<notin> fst ` set out \<Longrightarrow> AList.update k v out = out @ [(k, v)]"
  by (induction out) auto

definition mapEntry :: "bytes \<times> bytes \<Rightarrow> bytes" where
  "mapEntry e = fst e @ CHR ''='' # snd e"

definition addressEntry :: "bytes \<times> bytes \<Rightarrow> bool" where
  "addressEntry e \<longleftrightarrow> trimmed (fst e) \<and> trimmed (snd e) \<and>
     CHR ''='' \<notin> set (fst e) \<and> CHR '','' \<notin> set (mapEntry e)"

lemma trimmed_mapEntry: "addressEntry e \<Longrightarrow> TrimSpace (mapEntry e) = mapEntry e"
  by (rule TrimSpace_trimmed) (auto simp: addressEntry_def trimmed_def mapEntry_def)

lemma parseAddressMap_fold:
  assumes "\<forall>e \<in> set es. addressEntry e" and "distinct (map fst (out @ es))"
  shows "foldl (\<lambda>out part. case Cut (TrimSpace part) (CHR ''='') of
                None \<Rightarrow> out
              | Some (from, to) \<Rightarrow> if from = [] \<or> to = [] then out else AList.update from to out)
           out (map mapEntry es) = out @ es"
  using assms
proof (induction es arbitrary: out)
  case (Cons e es)
  have e: "addressEntry e" and fresh: "fst e \<notin> fst ` set out"
    using Cons.prems by auto
  have "Cut (mapEntry e) (CHR ''='') = Some (fst e, snd e)"
    using e by (simp add: addressEntry_def mapEntry_def Cut_append)
  moreover have "fst e \<noteq> []" "snd e \<noteq> []" using e by (auto simp: addressEntry_def trimmed_def)
  ultimately show ?case
    using Cons.IH [of "out @ [e]"] Cons.prems e AList_update_fresh [OF fresh, of "snd e"]
    by (simp add: trimmed_mapEntry case_prod_beta)
qed simp

section \<open>Properties\<close>


text \<open>A file that sets nothing.\<close>

definition emptyFile :: fileConfig where
  "emptyFile = \<lparr>fUnixSocket = [], fUnixSocketMode = [], fClusterSeeds = [], fClusterUsername = [],
     fClusterPassword = [],
     fTLS = \<lparr>Enabled = False, CAFile = [], CertFile = [], KeyFile = [], InsecureSkipVerify = False\<rparr>,
     fBackendFlavor = [], fPoolMinPerNode = None, fPoolMaxPerNode = None, fDialTimeout = 0,
     fReadTimeout = 0, fWriteTimeout = 0, fReconnectBackoffMin = 0, fReconnectBackoffMax = 0,
     fTopologyRefresh = 0, fMaxClientConns = None, fBlockingMaxWait = 0, fMetricsAddr = [],
     fLogLevel = [], fPprof = None, fPprofAddr = [], fShutdownTimeout = 0, fReadFromReplicas = None,
     fClientAuthPassword = [], fHashTagOpen = [], fHashTagClose = [], fMovedHopLimit = None,
     fAddressMap = [], fMaxDatabases = None, fMaxPipeline = None\<rparr>"

definition demoEnv :: "bytes \<Rightarrow> bytes option" where
  "demoEnv = [''DCRP_POOL_MAX_PER_NODE'' \<mapsto> ''many'', ''DCRP_READ_TIMEOUT'' \<mapsto> ''1m30s'']"

definition demoFile :: fileConfig where
  "demoFile = emptyFile\<lparr>fClusterSeeds := [''10.0.0.1:6379''], fPoolMaxPerNode := Some 8\<rparr>"

lemma demo_step: "durStep ''1m30s'' = Some (60000000000, ''30s'')" "durStep ''30s'' = Some (30000000000, [])"
  by (simp_all add: durStep_def is_digit_def durUnit_def)

lemma demo_duration: "ParseDuration ''1m30s'' = Some 90000000000"
  by (simp add: ParseDuration_def durLoop.simps [of _ "''1m30s''"] durLoop.simps [of _ "''30s''"]
      durLoop.simps [of _ "[]"] demo_step)

lemma demo_env: "envVal demoEnv ''POOL_MAX_PER_NODE'' = Some ''many''"
  "envVal demoEnv ''READ_TIMEOUT'' = Some ''1m30s''"
  "\<And>key. key \<noteq> ''POOL_MAX_PER_NODE'' \<Longrightarrow> key \<noteq> ''READ_TIMEOUT'' \<Longrightarrow> envVal demoEnv key = None"
  by (simp_all add: envVal_def demoEnv_def)

lemma demo_int: "Atoi ''many'' = None"
  by (simp add: Atoi_def ParseInt_def ParseUint_def is_digit_def)

lemma demo_perm: "oct_acc 0 ''0770'' = Inr 504"
  by simp

lemma demo_valid: "validConfig (effective demoEnv demoFile)"
  unfolding validConfig_def effective_def demoFile_def emptyFile_def Config.simps fileConfig.simps
    effStr_def effInt_def effDur_def UnixSocketPerm_def ParseOctal32_def
  by (simp add: demo_env demo_duration demo_int demo_perm ToLower_def lower_byte_def)


text \<open>
  An address map written as \<open>from=to\<close> entries with commas between them is read back as the
  same entries in the same order.
\<close>

theorem parseAddressMap_roundtrip:
  assumes "\<forall>e \<in> set es. addressEntry e" and "distinct (map fst es)"
  shows "parseAddressMap (joinWith (CHR '','') (map mapEntry es)) = es"
proof (cases "es = []")
  case True
  then show ?thesis by (simp add: parseAddressMap_def TrimSpace_def Cut_def)
next
  case False
  have "Split (CHR '','') (joinWith (CHR '','') (map mapEntry es)) = map mapEntry es"
    using False assms(1) by (intro Split_joinWith) (auto simp: addressEntry_def)
  then show ?thesis
    using parseAddressMap_fold [of es "[]"] assms by (simp add: parseAddressMap_def)
qed

theorem parseAddressMap_roundtrip_witness:
  "parseAddressMap ''10.0.0.1:6379=localhost:7001,10.0.0.2:6379=localhost:7002'' =
     [(''10.0.0.1:6379'', ''localhost:7001''), (''10.0.0.2:6379'', ''localhost:7002'')]"
  using parseAddressMap_roundtrip [of "[(''10.0.0.1:6379'', ''localhost:7001''), (''10.0.0.2:6379'', ''localhost:7002'')]"]
  by (simp add: addressEntry_def trimmed_def mapEntry_def is_space_def)

end
