(* ===== verification/Cluster_Router.thy ===== *)
theory Cluster_Router
  imports Cluster_Topology Proxy_Config Backend_Pool
begin

text \<open>
  \<open>internal/cluster/router.go\<close>: the slot map, one pool per node, and the execution of
  commands with redirects. Pools are shared by identity, so the router keeps a store of all
  pools ever made and its map leads from an address to a place in that store; a session that
  holds a connection keeps the place of its pool. The world of the network is a field. Metric
  increments are recorded in order; logging is left out.
\<close>

section \<open>State\<close>

record 'w Router =
  rcfg :: Config
  slots :: Map
  rflavor :: Flavor
  rpools :: "(bytes \<times> nat) list"
  heap :: "Pool list"
  rtls :: bool
  ropen :: char
  rclose :: char
  rcount :: "(bytes \<times> bytes) list"
  world :: 'w

abbreviation onNet :: "('w, 'a) io \<Rightarrow> ('w Router, 'a) io" where
  "onNet \<equiv> zoom world (\<lambda>w R. R\<lparr>world := w\<rparr>)"

abbreviation onPool :: "nat \<Rightarrow> (Pool \<times> 'w, 'a) io \<Rightarrow> ('w Router, 'a) io" where
  "onPool i \<equiv> zoom (\<lambda>R. (heap R ! i, world R)) (\<lambda>(p, w) R. R\<lparr>heap := (heap R)[i := p], world := w\<rparr>)"

definition inc :: "bytes \<Rightarrow> bytes \<Rightarrow> ('w Router, unit) io" where
  "inc name label = modify (\<lambda>R. R\<lparr>rcount := rcount R @ [(name, label)]\<rparr>)"

section \<open>Routing decisions\<close>

definition FlavorOf :: "'w Router \<Rightarrow> Flavor" where
  "FlavorOf R =
     (case Load (slots R) of
        Some t \<Rightarrow> if tFlavor t \<noteq> FlavorUnknown then tFlavor t else rflavor R
      | None \<Rightarrow> rflavor R)"

definition SlotOf :: "'w Router \<Rightarrow> bytes \<Rightarrow> uint16" where
  "SlotOf R key = KeySlot key (ropen R) (rclose R)"

definition CrossSlot :: "'w Router \<Rightarrow> bytes list \<Rightarrow> bool" where
  "CrossSlot R keys =
     (if length keys \<le> 1 then False
      else let s = SlotOf R (keys ! 0) in list_ex (\<lambda>k. SlotOf R k \<noteq> s) (tl keys))"

definition UniqueSlot :: "'w Router \<Rightarrow> bytes list \<Rightarrow> uint16 option" where
  "UniqueSlot R keys =
     (case keys of
        [] \<Rightarrow> None
      | k # ks \<Rightarrow> let s = SlotOf R k in if list_ex (\<lambda>k. SlotOf R k \<noteq> s) ks then None else Some s)"

definition GenerationOf :: "'w Router \<Rightarrow> 64 word" where
  "GenerationOf R = (case Load (slots R) of Some t \<Rightarrow> Generation t | None \<Rightarrow> 0)"

definition addAddr :: "bytes list \<Rightarrow> bytes \<Rightarrow> bytes list" where
  "addAddr out a = (if a = [] then out else if a \<in> set out then out else out @ [a])"

definition candidateAddrs :: "'w Router \<Rightarrow> bytes list" where
  "candidateAddrs R =
     (let masters = (case Load (slots R) of Some t \<Rightarrow> map nAddr (filter nMaster (Nodes t)) | None \<Rightarrow> [])
      in foldl addAddr (foldl addAddr [] masters) (ClusterSeeds (rcfg R)))"

definition MasterAddrs :: "'w Router \<Rightarrow> bytes list" where
  "MasterAddrs R = candidateAddrs R"

definition RouteSlot :: "'w Router \<Rightarrow> uint16 \<Rightarrow> bool \<Rightarrow> Node option" where
  "RouteSlot R slot read =
     (case Load (slots R) of
        None \<Rightarrow> None
      | Some t \<Rightarrow> NodeForSlot (Some t) slot (read \<and> ReadFromReplicas (rcfg R)))"

definition AnyMaster :: "'w Router \<Rightarrow> Node option" where
  "AnyMaster R =
     (case (case Load (slots R) of Some t \<Rightarrow> FirstMaster (Some t) | None \<Rightarrow> None) of
        Some n \<Rightarrow> Some n
      | None \<Rightarrow>
          (case ClusterSeeds (rcfg R) of
             seed # _ \<Rightarrow> Some (zeroNode\<lparr>nAddr := seed, nMaster := True, nHealth := HealthOnline\<rparr>)
           | [] \<Rightarrow> None))"

definition rewriteAddr :: "'w Router \<Rightarrow> bytes \<Rightarrow> bytes" where
  "rewriteAddr R addr =
     (case map_of (AddressMap (rcfg R)) addr of Some m \<Rightarrow> if m \<noteq> [] then m else addr | None \<Rightarrow> addr)"

section \<open>Pools\<close>

definition poolOptions :: "'w Router \<Rightarrow> bytes \<Rightarrow> bool \<Rightarrow> Options" where
  "poolOptions R addr replica =
     \<lparr>oAddr = addr, oMinIdle = PoolMinPerNode (rcfg R), oMaxSize = PoolMaxPerNode (rcfg R),
      oDialTimeout = DialTimeout (rcfg R), oReadTimeout = ReadTimeout (rcfg R),
      oWriteTimeout = WriteTimeout (rcfg R), oBackoffMin = ReconnectBackoffMin (rcfg R),
      oBackoffMax = ReconnectBackoffMax (rcfg R), oTLS = rtls R,
      oUsername = ClusterUsername (rcfg R), oPassword = ClusterPassword (rcfg R),
      oReadOnly = (replica \<and> FlavorOf R = FlavorRedis)\<rparr>"

definition newPool :: "'w net \<Rightarrow> bytes \<Rightarrow> bool \<Rightarrow> ('w Router, nat) io" where
  "newPool N addr replica = (\<lambda>R. case PoolNew N (poolOptions R addr replica) (world R) of
     None \<Rightarrow> None
   | Some (Panic, (p, w)) \<Rightarrow> Some (Panic, R\<lparr>world := w\<rparr>)
   | Some (_, (p, w)) \<Rightarrow> Some (Ok (length (heap R)), R\<lparr>heap := heap R @ [p], world := w\<rparr>))"

definition addPool :: "'w net \<Rightarrow> bytes \<Rightarrow> bool \<Rightarrow> ('w Router, nat) io" where
  "addPool N addr replica =
     bindE (newPool N addr replica) (\<lambda>i.
       thenE (modify (\<lambda>R. R\<lparr>rpools := rpools R @ [(addr, i)]\<rparr>)) (ret i))"

definition poolFor :: "'w net \<Rightarrow> bytes \<Rightarrow> bool \<Rightarrow> ('w Router, nat) io" where
  "poolFor N addr0 replica = withS (\<lambda>R. let addr = rewriteAddr R addr0 in
     case map_of (rpools R) addr of
       Some i \<Rightarrow> ret i
     | None \<Rightarrow> addPool N addr replica)"

definition PoolOf :: "'w net \<Rightarrow> bytes \<Rightarrow> ('w Router, nat) io" where
  "PoolOf N addr = poolFor N addr False"

definition syncNode :: "'w net \<Rightarrow> Node \<Rightarrow> ('w Router, unit) io" where
  "syncNode N n = withS (\<lambda>R. let addr = rewriteAddr R (nAddr n) in
     if map_of (rpools R) addr = None
     then thenE (addPool N addr (\<not> nMaster n \<and> ReadFromReplicas (rcfg R))) (ret ())
     else ret ())"

definition dropStale :: "'w net \<Rightarrow> bytes list \<Rightarrow> bytes \<times> nat \<Rightarrow> ('w Router, unit) io" where
  "dropStale N live e =
     (if fst e \<in> set live then ret ()
      else thenE (onPool (snd e) (PoolClose N))
             (modify (\<lambda>R. R\<lparr>rpools := AList.delete (fst e) (rpools R)\<rparr>)))"

definition syncPools :: "'w net \<Rightarrow> Topology \<Rightarrow> ('w Router, unit) io" where
  "syncPools N t =
     thenE (forE (syncNode N) (Nodes t))
       (withS (\<lambda>R. forE (dropStale N (map (\<lambda>n. rewriteAddr R (nAddr n)) (Nodes t))) (rpools R)))"

definition RouterClose :: "'w net \<Rightarrow> ('w Router, unit) io" where
  "RouterClose N =
     thenE (withS (\<lambda>R. forE (\<lambda>e. onPool (snd e) (PoolClose N)) (rpools R))) (modify (\<lambda>R. R\<lparr>rpools := []\<rparr>))"

definition poolStats :: "'w Router \<Rightarrow> (bytes \<times> int \<times> int \<times> int) list" where
  "poolStats R = map (\<lambda>(addr, i). (addr, Stats (heap R ! i))) (rpools R)"

section \<open>Refreshing the topology\<close>

definition installSeeds :: "'w Router \<Rightarrow> 'w Router" where
  "installSeeds R =
     (let t = foldl (\<lambda>t seed. snd (upsertNode t \<lparr>nID = [], nAddr = seed, nRole = ''master'', nHealth = HealthOnline, nMaster = True\<rparr>))
                (newEmptyTopology\<lparr>tFlavor := rflavor R\<rparr>) (ClusterSeeds (rcfg R));
          t = (if Nodes t \<noteq> [] then t\<lparr>Slots := (\<lambda>_. 0)\<rparr> else t)
      in R\<lparr>slots := Store (slots R) (Some t)\<rparr>)"

definition isClusterNotConfigured :: "gerr \<Rightarrow> bool" where
  "isClusterNotConfigured e = Contains (err_string e) ''Cluster is not yet configured''"

abbreviation doCmd :: "'w net \<Rightarrow> Conn \<Rightarrow> argv \<Rightarrow> ('w Router, Value res \<times> Conn) io" where
  "doCmd N c a \<equiv> withS (\<lambda>R. onNet (Do N c a (WriteTimeout (rcfg R)) (ReadTimeout (rcfg R))))"

definition detectFrom :: "'w net \<Rightarrow> Conn \<Rightarrow> ('w Router, Conn) io" where
  "detectFrom N c = withS (\<lambda>R.
     if rflavor R = FlavorUnknown \<or> BackendFlavor (rcfg R) = ''auto'' then
       bindE (doCmd N c [Some ''INFO'', Some ''server'']) (\<lambda>(r, c). case r of
         Ok info \<Rightarrow> if \<not> IsError info
                    then thenE (modify (\<lambda>R. R\<lparr>rflavor := DetectFlavor (sl (vStr info))\<rparr>)) (ret c)
                    else ret c
       | _ \<Rightarrow> ret c)
     else ret c)"

text \<open>The end of \<open>refreshFrom\<close>; the connection is passed along for the deferred \<open>Put\<close>.\<close>

definition installTopo :: "'w net \<Rightarrow> Topology res \<Rightarrow> Conn \<Rightarrow> ('w Router, unit res \<times> Conn) io" where
  "installTopo N topo c = (case topo of
     Err e \<Rightarrow> ret (Err e, c)
   | Panic \<Rightarrow> liftR Panic
   | Ok t \<Rightarrow> withS (\<lambda>R. let t = t\<lparr>tFlavor := rflavor R\<rparr> in
       thenE (modify (\<lambda>R. R\<lparr>slots := Store (slots R) (Some t)\<rparr>))
         (thenE (syncPools N t) (ret (Ok (), c)))))"

definition querySlots :: "'w net \<Rightarrow> Conn \<Rightarrow> ('w Router, unit res \<times> Conn) io" where
  "querySlots N c =
     bindE (doCmd N c [Some ''CLUSTER'', Some ''SLOTS'']) (\<lambda>(r, c). case r of
       Err e \<Rightarrow> ret (Err e, c)
     | Panic \<Rightarrow> liftR Panic
     | Ok v \<Rightarrow> if IsError v then ret (Err (GoErr (sl (vStr v))), c) else installTopo N (ParseSlots v) c)"

definition queryTopology :: "'w net \<Rightarrow> Conn \<Rightarrow> ('w Router, unit res \<times> Conn) io" where
  "queryTopology N c =
     bindE (detectFrom N c) (\<lambda>c.
     bindE (doCmd N c [Some ''CLUSTER'', Some ''SHARDS'']) (\<lambda>(r, c). case r of
       Ok v \<Rightarrow> if \<not> IsError v then installTopo N (ParseShards v) c else querySlots N c
     | _ \<Rightarrow> querySlots N c))"

definition refreshFrom :: "'w net \<Rightarrow> bytes \<Rightarrow> ('w Router, unit) io" where
  "refreshFrom N addr =
     bindE (poolFor N addr False) (\<lambda>i.
     bindE (onPool i (Get N)) (\<lambda>c.
     bindE (queryTopology N c) (\<lambda>(r, c).
     thenE (onPool i (Put N c)) (liftR r))))"

fun refreshAddrs :: "'w net \<Rightarrow> bytes list \<Rightarrow> gerr option \<Rightarrow> ('w Router, unit) io" where
  "refreshAddrs N [] lst =
     thenE (inc ''topology_refresh'' ''error'')
       (fail (case lst of Some e \<Rightarrow> e | None \<Rightarrow> GoErr ''no cluster seeds''))"
| "refreshAddrs N (a # as) lst =
     tryE (refreshFrom N a) (\<lambda>r. case r of
       Err e \<Rightarrow> if isClusterNotConfigured e
                then thenE (inc ''backend_errors'' ''cluster_not_configured'') (refreshAddrs N as (Some e))
                else refreshAddrs N as (Some e)
     | _ \<Rightarrow> inc ''topology_refresh'' ''ok'')"

definition Refresh :: "'w net \<Rightarrow> ('w Router, unit) io" where
  "Refresh N = withS (\<lambda>R. refreshAddrs N (candidateAddrs R) None)"

text \<open>One turn of \<open>RunRefreshLoop\<close>: a failed refresh is only logged.\<close>

definition refreshTick :: "'w net \<Rightarrow> ('w Router, unit) io" where
  "refreshTick N = tryE (Refresh N) (\<lambda>_. ret ())"

text \<open>
  \<open>buildTLS\<close> fails on an unreadable or invalid file; reading a file, parsing the certificates
  of an authority and loading a key pair are parameters.
\<close>

definition buildTLS :: "(bytes \<Rightarrow> bytes res) \<Rightarrow> (bytes \<Rightarrow> bool) \<Rightarrow> (bytes \<Rightarrow> bytes \<Rightarrow> unit res) \<Rightarrow> TLSConfig \<Rightarrow> unit res" where
  "buildTLS readFile appendCerts loadPair c =
     res_bind (if CAFile c \<noteq> []
               then res_bind (readFile (CAFile c)) (\<lambda>pem. if appendCerts pem then Ok () else Err (GoErr ''tls: invalid ca_file''))
               else Ok ())
       (\<lambda>_. if CertFile c \<noteq> [] then loadPair (CertFile c) (KeyFile c) else Ok ())"

definition configFlavor :: "Config \<Rightarrow> Flavor" where
  "configFlavor cfg =
     (if ToLower (BackendFlavor cfg) = ''dragonfly'' then FlavorDragonfly
      else if ToLower (BackendFlavor cfg) = ''redis'' then FlavorRedis
      else FlavorUnknown)"

definition NewRouter :: "'w net \<Rightarrow> (TLSConfig \<Rightarrow> unit res) \<Rightarrow> Config \<Rightarrow> 'w \<Rightarrow> (unit res \<times> 'w Router) option" where
  "NewRouter N mkTLS cfg w =
     (let R = \<lparr>rcfg = cfg, slots = \<lparr>ptr = None, gen = 0\<rparr>, rflavor = FlavorUnknown, rpools = [], heap = [],
               rtls = False, ropen = fst (HashTagRunes cfg), rclose = snd (HashTagRunes cfg), rcount = [], world = w\<rparr>
      in bindE (if Enabled (TLS cfg) then thenE (liftR (mkTLS (TLS cfg))) (modify (\<lambda>R. R\<lparr>rtls := True\<rparr>)) else ret ())
           (\<lambda>_. thenE (modify (\<lambda>R. R\<lparr>rflavor := configFlavor cfg\<rparr>))
             (tryE (Refresh N) (\<lambda>r. case r of Err e \<Rightarrow> modify installSeeds | _ \<Rightarrow> ret ()))) R)"

section \<open>Executing a command\<close>

definition pickAddr :: "uint16 \<Rightarrow> bool \<Rightarrow> bytes \<Rightarrow> ('w Router, bytes) io" where
  "pickAddr slot read hint = withS (\<lambda>R.
     if hint \<noteq> [] then ret hint
     else (case RouteSlot R slot read of
             Some n \<Rightarrow> ret (nAddr n)
           | None \<Rightarrow> (case AnyMaster R of Some n \<Rightarrow> ret (nAddr n) | None \<Rightarrow> fail (GoErr ''no backend nodes''))))"

definition updateSlot :: "uint16 \<Rightarrow> bytes \<Rightarrow> ('w Router, unit) io" where
  "updateSlot slot addr = withS (\<lambda>R.
     bindE (liftR (UpdateSlot (slots R) slot addr [])) (\<lambda>m. modify (\<lambda>R. R\<lparr>slots := m\<rparr>)))"

text \<open>One hop: the command on a connection to \<open>addr\<close>, the connection put back or dropped.\<close>

definition sendOn :: "'w net \<Rightarrow> nat \<Rightarrow> slice \<Rightarrow> argv \<Rightarrow> int \<Rightarrow> bool \<Rightarrow> Conn \<Rightarrow> ('w Router, Value) io" where
  "sendOn N i frame a readTO asking c0 = withS (\<lambda>R.
     bindE (if asking then doCmd N c0 [Some ''ASKING''] else ret (Ok zeroValue, c0)) (\<lambda>(r, c). case r of
       Err e \<Rightarrow> thenE (onPool i (Drop N c)) (fail e)
     | Panic \<Rightarrow> liftR Panic
     | Ok _ \<Rightarrow>
         bindE (onNet (case frame of
                  Some f \<Rightarrow> DoRaw N c f (WriteTimeout (rcfg R)) readTO
                | None \<Rightarrow> Do N c a (WriteTimeout (rcfg R)) readTO)) (\<lambda>(r, c). case r of
           Err e \<Rightarrow> thenE (onPool i (Drop N c)) (fail e)
         | Panic \<Rightarrow> liftR Panic
         | Ok v \<Rightarrow> thenE (onPool i (Put N c)) (ret v))))"

definition hop :: "'w net \<Rightarrow> uint16 \<Rightarrow> slice \<Rightarrow> argv \<Rightarrow> bool \<Rightarrow> int \<Rightarrow> bool \<Rightarrow> bytes \<Rightarrow> ('w Router, Value) io" where
  "hop N slot frame a read readTO asking hint = withS (\<lambda>R. case netCtxErr N (world R) of
     Some e \<Rightarrow> fail e
   | None \<Rightarrow>
       bindE (pickAddr slot (read \<and> \<not> asking) hint) (\<lambda>addr.
       bindE (poolFor N addr (read \<and> ReadFromReplicas (rcfg R))) (\<lambda>i.
       bindE (onPool i (Get N)) (\<lambda>c. sendOn N i frame a readTO asking c))))"

fun hops :: "'w net \<Rightarrow> nat \<Rightarrow> uint16 \<Rightarrow> slice \<Rightarrow> argv \<Rightarrow> bool \<Rightarrow> int \<Rightarrow> bool \<Rightarrow> bytes \<Rightarrow> Value \<Rightarrow> ('w Router, Value) io" where
  "hops N 0 slot frame a read readTO asking hint lst = ret lst"
| "hops N (Suc n) slot frame a read readTO asking hint lst =
     bindE (hop N slot frame a read readTO asking hint) (\<lambda>v.
       if \<not> IsError v then ret v
       else (case ParseRedirect (sl (vStr v)) of
               None \<Rightarrow> if EqualKind v ''LOADING'' then thenE (inc ''backend_errors'' ''loading'') (ret v) else ret v
             | Some red \<Rightarrow>
                 thenE (inc ''redirects'' (Kind red))
                   (if Kind red = ''MOVED''
                    then thenE (updateSlot (Slot red) (Addr red))
                           (hops N n (Slot red) frame a read readTO False (Addr red) v)
                    else hops N n (Slot red) frame a False readTO True (Addr red) v)))"

definition execFrame :: "'w net \<Rightarrow> uint16 \<Rightarrow> slice \<Rightarrow> argv \<Rightarrow> bool \<Rightarrow> int \<Rightarrow> bool \<Rightarrow> ('w Router, Value) io" where
  "execFrame N slot frame a read readTO asking = withS (\<lambda>R.
     hops N (nat (MovedHopLimit (rcfg R))) slot frame a read
       (if readTO \<le> 0 then ReadTimeout (rcfg R) else readTO) asking [] zeroValue)"

definition Exec :: "'w net \<Rightarrow> uint16 \<Rightarrow> argv \<Rightarrow> bool \<Rightarrow> int \<Rightarrow> ('w Router, Value) io" where
  "Exec N slot a read readTO = execFrame N slot None a read readTO False"

definition ExecRaw :: "'w net \<Rightarrow> uint16 \<Rightarrow> slice \<Rightarrow> bool \<Rightarrow> int \<Rightarrow> ('w Router, Value) io" where
  "ExecRaw N slot frame read readTO = execFrame N slot frame [] read readTO False"

definition CheckoutAddr :: "'w net \<Rightarrow> bytes \<Rightarrow> ('w Router, Conn \<times> nat) io" where
  "CheckoutAddr N addr =
     bindE (poolFor N addr False) (\<lambda>i. bindE (onPool i (Get N)) (\<lambda>c. ret (c, i)))"

definition Checkout :: "'w net \<Rightarrow> uint16 \<Rightarrow> ('w Router, Conn \<times> nat) io" where
  "Checkout N slot =
     bindE (pickAddr slot False []) (\<lambda>addr. bindE (poolFor N addr False) (\<lambda>i.
       bindE (onPool i (Get N)) (\<lambda>c. ret (c, i))))"

section \<open>The router's invariant\<close>

text \<open>
  The slot map is well formed, every address of the pool map leads to a pool made for that
  address, no address twice, and every pool keeps its own invariant.
\<close>

definition heapOK :: "Pool list \<Rightarrow> bool" where
  "heapOK hp \<longleftrightarrow> (\<forall>p \<in> set hp. poolOK (opts p) p)"

definition poolsOK :: "Pool list \<Rightarrow> (bytes \<times> nat) list \<Rightarrow> bool" where
  "poolsOK hp ps \<longleftrightarrow>
     distinct (map fst ps) \<and> (\<forall>(a, i) \<in> set ps. i < length hp \<and> oAddr (opts (hp ! i)) = a)"

definition routerOK :: "'w Router \<Rightarrow> bool" where
  "routerOK R \<longleftrightarrow> mapOK (slots R) \<and> heapOK (heap R) \<and> poolsOK (heap R) (rpools R) \<and> [] \<notin> set (ClusterSeeds (rcfg R))"

lemma routerOK_frame [simp]:
  "routerOK (R\<lparr>world := w\<rparr>) = routerOK R" "routerOK (R\<lparr>rcount := m\<rparr>) = routerOK R"
  "routerOK (R\<lparr>rflavor := f\<rparr>) = routerOK R" "routerOK (R\<lparr>rtls := b\<rparr>) = routerOK R"
  by (simp_all add: routerOK_def)

lemma keeps_onNet [io_rule]: "keeps routerOK (onNet m)"
  by (rule keeps_zoom_frame) simp

lemma keeps_inc [io_rule]: "keeps routerOK (inc a b)"
  unfolding inc_def by (rule keeps_modify) simp

lemma heap_update:
  assumes "heapOK hp" "poolsOK hp ps" "i < length hp \<Longrightarrow> poolOK (opts (hp ! i)) p"
  shows "heapOK (hp[i := p]) \<and> poolsOK (hp[i := p]) ps"
proof (cases "i < length hp")
  case True
  then have p: "poolOK (opts (hp ! i)) p" "opts p = opts (hp ! i)"
    using assms(3) by (auto simp: poolOK_def)
  have "set (hp[i := p]) \<subseteq> insert p (set hp)" by (rule set_update_subset_insert)
  then have "heapOK (hp[i := p])"
    using assms(1) p unfolding heapOK_def by auto
  moreover have "opts (hp[i := p] ! j) = opts (hp ! j)" for j
    using True p(2) by (cases "j = i") simp_all
  then have "poolsOK (hp[i := p]) ps"
    using assms(2) by (simp add: poolsOK_def)
  ultimately show ?thesis ..
qed (use assms in \<open>simp add: list_update_beyond\<close>)

lemma keeps_onPool:
  assumes m: "\<And>os. keeps (poolInv os) m"
  shows "keeps routerOK (onPool i m)"
proof (rule ensuresI)
  fix R r R'
  assume R: "routerOK R" and run: "onPool i m R = Some (r, R')"
  obtain p w where p: "m (heap R ! i, world R) = Some (r, (p, w))"
    and R': "R' = R\<lparr>heap := (heap R)[i := p], world := w\<rparr>"
    using run by (auto simp: zoom_def split: option.splits)
  have "i < length (heap R) \<Longrightarrow> poolOK (opts (heap R ! i)) p"
    using R p ensuresD [OF m [of "opts (heap R ! i)"], of "(heap R ! i, world R)" r "(p, w)"]
    by (auto simp: routerOK_def heapOK_def)
  then show "routerOK R'"
    using R heap_update [of "heap R" "rpools R" i p] by (auto simp: R' routerOK_def)
qed

lemmas keeps_pools [io_rule] =
  keeps_onPool [OF keeps_Get] keeps_onPool [OF keeps_Put] keeps_onPool [OF keeps_Drop] keeps_onPool [OF keeps_PoolClose]

lemma addPool_ok:
  "ensures (\<lambda>R. routerOK R \<and> map_of (rpools R) addr = None) (addPool N addr replica) (\<lambda>_. routerOK)"
proof (rule ensuresI)
  fix R r R'
  assume R: "routerOK R \<and> map_of (rpools R) addr = None" and run: "addPool N addr replica R = Some (r, R')"
  obtain r1 p w where new: "PoolNew N (poolOptions R addr replica) (world R) = Some (r1, (p, w))"
    using run by (cases "PoolNew N (poolOptions R addr replica) (world R)") (auto simp: addPool_def newPool_def)
  have p: "poolOK (opts p) p" "oAddr (opts p) = addr"
    using PoolNew_ok [OF new] by (auto simp: poolOK_def normOptions_def poolOptions_def)
  show "routerOK R'"
  proof (cases "r1 = Panic")
    case True
    then show ?thesis using R run new by (auto simp: addPool_def newPool_def)
  next
    case False
    then have "R' = R\<lparr>heap := heap R @ [p], world := w, rpools := rpools R @ [(addr, length (heap R))]\<rparr>"
      using run new by (cases r1) (auto simp: addPool_def newPool_def)
    then show ?thesis
      using R p by (auto simp: routerOK_def heapOK_def poolsOK_def nth_append map_of_eq_None_iff)
  qed
qed

lemma keeps_poolFor [io_rule]: "keeps routerOK (poolFor N addr replica)"
proof (rule ensuresI)
  fix R r R'
  assume "routerOK R" and "poolFor N addr replica R = Some (r, R')"
  then show "routerOK R'"
    using ensuresD [OF addPool_ok, of R "rewriteAddr R addr" N replica r R']
    by (auto simp: poolFor_def Let_def split: option.splits)
qed

lemma keeps_syncNode [io_rule]: "keeps routerOK (syncNode N n)"
proof (rule ensuresI)
  fix R r R'
  assume R: "routerOK R" and run: "syncNode N n R = Some (r, R')"
  let ?a = "rewriteAddr R (nAddr n)" and ?b = "\<not> nMaster n \<and> ReadFromReplicas (rcfg R)"
  have "ensures (\<lambda>R. routerOK R \<and> map_of (rpools R) ?a = None) (thenE (addPool N ?a ?b) (ret ())) (\<lambda>_. routerOK)"
    unfolding thenE_def by (rule ensures_bindE [OF addPool_ok keeps_basic(1)])
  from ensuresD [OF this, of R r R'] show "routerOK R'"
    using R run by (simp add: syncNode_def Let_def split: if_splits)
qed

lemma AList_delete_sub: "set (AList.delete a xs) \<subseteq> set xs"
  by (auto simp: AList.delete_eq)

lemma keeps_dropStale [io_rule]: "keeps routerOK (dropStale N live e)"
proof -
  have "keeps routerOK (modify (\<lambda>R. R\<lparr>rpools := AList.delete a (rpools R)\<rparr>))" for a
  proof (rule keeps_modify)
    fix R
    assume "routerOK R"
    then show "routerOK (R\<lparr>rpools := AList.delete a (rpools R)\<rparr>)"
      using distinct_delete [of "rpools R" a]
      by (auto simp: routerOK_def poolsOK_def dest!: subsetD [OF AList_delete_sub])
  qed
  note del = this
  show ?thesis
    unfolding dropStale_def by (intro io_rule del)
qed

lemma keeps_syncPools [io_rule]: "keeps routerOK (syncPools N t)"
  unfolding syncPools_def by (intro io_rule)

lemma keeps_rflavor [io_rule]: "keeps routerOK (modify (\<lambda>R. R\<lparr>rflavor := f\<rparr>))"
  by (rule keeps_modify) simp

lemma keeps_detectFrom [io_rule]: "keeps routerOK (detectFrom N c)"
  unfolding detectFrom_def by (intro io_rule)

lemma keeps_Store: "wfTopo t \<Longrightarrow> keeps routerOK (modify (\<lambda>R. R\<lparr>slots := Store (slots R) (Some t)\<rparr>))"
  by (rule keeps_modify) (auto simp: routerOK_def intro!: mapOK_Store)

lemma keeps_installTopo:
  assumes "\<And>t. topo = Ok t \<Longrightarrow> wfTopo t"
  shows "keeps routerOK (installTopo N topo c)"
  using assms unfolding installTopo_def
  by (cases topo) (auto simp: Let_def intro!: io_rule keeps_Store)

lemma keeps_querySlots [io_rule]: "keeps routerOK (querySlots N c)"
  unfolding querySlots_def by (intro io_rule keeps_installTopo) (erule ParseSlots_wf)

lemma keeps_queryTopology [io_rule]: "keeps routerOK (queryTopology N c)"
  unfolding queryTopology_def by (intro io_rule keeps_installTopo) (erule ParseShards_wf)

lemma keeps_refreshFrom [io_rule]: "keeps routerOK (refreshFrom N addr)"
  unfolding refreshFrom_def by (intro io_rule)

lemma keeps_refreshAddrs [io_rule]: "keeps routerOK (refreshAddrs N as lst)"
  by (induction N as lst rule: refreshAddrs.induct) (simp only: refreshAddrs.simps, intro io_rule, assumption?)+

lemma keeps_Refresh [io_rule]: "keeps routerOK (Refresh N)" "keeps routerOK (refreshTick N)"
  unfolding Refresh_def refreshTick_def by (intro io_rule)+

lemma wfTopo_seeds:
  "wfTopo t \<Longrightarrow> [] \<notin> set seeds \<Longrightarrow>
   wfTopo (foldl (\<lambda>t seed. snd (upsertNode t \<lparr>nID = [], nAddr = seed, nRole = ''master'', nHealth = HealthOnline, nMaster = True\<rparr>)) t seeds)"
proof (induction seeds arbitrary: t)
  case (Cons seed seeds)
  let ?n = "\<lparr>nID = [], nAddr = seed, nRole = ''master'', nHealth = HealthOnline, nMaster = True\<rparr>"
  obtain i t' where up: "upsertNode t ?n = (i, t')" by fastforce
  have "wfTopo t'" using upsertNode_wf [OF Cons.prems(1) _ up] Cons.prems(2) by auto
  then show ?case using Cons.IH [of t'] Cons.prems(2) up by simp
qed simp

lemma wfTopo_all_first: "wfTopo t \<Longrightarrow> Nodes t \<noteq> [] \<Longrightarrow> wfTopo (t\<lparr>Slots := (\<lambda>_. 0)\<rparr>)"
  by (simp add: wfTopo_def)

lemma routerOK_installSeeds:
  assumes "routerOK R"
  shows "routerOK (installSeeds R)"
proof -
  define t where "t = foldl (\<lambda>t seed. snd (upsertNode t
      \<lparr>nID = [], nAddr = seed, nRole = ''master'', nHealth = HealthOnline, nMaster = True\<rparr>))
      (newEmptyTopology\<lparr>tFlavor := rflavor R\<rparr>) (ClusterSeeds (rcfg R))"
  have t: "wfTopo t"
    unfolding t_def using assms by (intro wfTopo_seeds) (simp_all add: routerOK_def)
  have "installSeeds R = R\<lparr>slots := Store (slots R) (Some (if Nodes t \<noteq> [] then t\<lparr>Slots := (\<lambda>_. 0)\<rparr> else t))\<rparr>"
    by (simp only: installSeeds_def Let_def t_def)
  then show ?thesis
    using assms t wfTopo_all_first [OF t] by (auto simp: routerOK_def intro!: mapOK_Store)
qed

lemma keeps_updateSlot: "addr \<noteq> [] \<Longrightarrow> keeps routerOK (updateSlot slot addr)"
  unfolding updateSlot_def
  by (auto simp: ensures_def routerOK_def bindE_def split: res.splits dest: mapOK_UpdateSlot)

lemma keeps_pickAddr [io_rule]: "keeps routerOK (pickAddr slot read hint)"
  unfolding pickAddr_def by (intro io_rule)

lemma keeps_sendOn [io_rule]: "keeps routerOK (sendOn N i frame a readTO asking c)"
  unfolding sendOn_def by (intro io_rule)

lemma keeps_hop [io_rule]: "keeps routerOK (hop N slot frame a read readTO asking hint)"
  unfolding hop_def by (intro io_rule)

lemma keeps_hops [io_rule]: "keeps routerOK (hops N n slot frame a read readTO asking hint lst)"
proof (induction n arbitrary: slot read asking hint lst)
  case (Suc n)
  have "Addr red \<noteq> []" if "ParseRedirect b = Some red" for b red
    using that by (auto elim: ParseRedirect_sound)
  then show ?case
    unfolding hops.simps by (intro io_rule keeps_updateSlot Suc.IH)
qed (simp only: hops.simps, rule keeps_basic)

lemma keeps_Exec [io_rule]:
  "keeps routerOK (execFrame N slot frame a read readTO asking)"
  "keeps routerOK (Exec N slot a read readTO)" "keeps routerOK (ExecRaw N slot frame read readTO)"
  unfolding execFrame_def Exec_def ExecRaw_def by (intro io_rule)+

lemma keeps_Checkout [io_rule]: "keeps routerOK (Checkout N slot)" "keeps routerOK (CheckoutAddr N addr)"
  unfolding Checkout_def CheckoutAddr_def by (intro io_rule)+

section \<open>The router as a machine\<close>

text \<open>What sessions, the refresh loop and the network do to a router, one call at a time.\<close>

inductive router_step :: "'w net \<Rightarrow> 'w Router \<Rightarrow> 'w Router \<Rightarrow> bool" for N where
  refresh: "refreshTick N R = Some (r, R') \<Longrightarrow> router_step N R R'"
| exec: "execFrame N slot frame a read readTO asking R = Some (r, R') \<Longrightarrow> router_step N R R'"
| checkout_slot: "Checkout N slot R = Some (r, R') \<Longrightarrow> router_step N R R'"
| checkout_addr: "CheckoutAddr N addr R = Some (r, R') \<Longrightarrow> router_step N R R'"
| put: "onPool i (Put N c) R = Some (r, R') \<Longrightarrow> router_step N R R'"
| drop_it: "onPool i (Drop N c) R = Some (r, R') \<Longrightarrow> router_step N R R'"
| network: "router_step N R (R\<lparr>world := w\<rparr>)"
| moved: "addr \<noteq> [] \<Longrightarrow> updateSlot slot addr R = Some (r, R') \<Longrightarrow> router_step N R R'"

definition router_init :: "'w net \<Rightarrow> 'w Router \<Rightarrow> bool" where
  "router_init N R \<longleftrightarrow>
     (\<exists>mkTLS cfg w. [] \<notin> set (ClusterSeeds cfg) \<and> NewRouter N mkTLS cfg w = Some (Ok (), R))"

lemma NewRouter_ok: "NewRouter N mkTLS cfg w = Some (r, R) \<Longrightarrow> [] \<notin> set (ClusterSeeds cfg) \<Longrightarrow> routerOK R"
proof -
  assume run: "NewRouter N mkTLS cfg w = Some (r, R)" and seeds: "[] \<notin> set (ClusterSeeds cfg)"
  have start: "routerOK \<lparr>rcfg = cfg, slots = \<lparr>ptr = None, gen = 0\<rparr>, rflavor = FlavorUnknown, rpools = [], heap = [],
               rtls = False, ropen = fst (HashTagRunes cfg), rclose = snd (HashTagRunes cfg), rcount = [], world = w\<rparr>"
    using seeds by (simp add: routerOK_def mapOK_def heapOK_def poolsOK_def)
  have tls: "keeps routerOK (modify (\<lambda>R. R\<lparr>rtls := True\<rparr>))" "keeps routerOK (modify installSeeds)"
    by (rule keeps_modify, simp) (rule keeps_modify, rule routerOK_installSeeds)
  have "keeps routerOK (bindE (if Enabled (TLS cfg) then thenE (liftR (mkTLS (TLS cfg))) (modify (\<lambda>R. R\<lparr>rtls := True\<rparr>)) else ret ())
           (\<lambda>_. thenE (modify (\<lambda>R. R\<lparr>rflavor := configFlavor cfg\<rparr>))
             (tryE (Refresh N) (\<lambda>r. case r of Err e \<Rightarrow> modify installSeeds | _ \<Rightarrow> ret ()))))"
    by (intro io_rule tls)
  from ensuresD [OF this start] run show "routerOK R"
    by (simp add: NewRouter_def Let_def)
qed

interpretation router: invariant "router_init N" "router_step N" routerOK
proof unfold_locales
  fix R assume "router_init N R"
  then show "routerOK R" using NewRouter_ok by (auto simp: router_init_def)
next
  fix R R' assume R: "routerOK R" and "router_step N R R'"
  from this(2) show "routerOK R'"
  proof cases
    case (moved addr slot r)
    then show ?thesis using R by (auto elim!: ensuresD [OF keeps_updateSlot, rotated 2])
  next
    case (network w)
    then show ?thesis using R by simp
  next
    case (refresh r)
    then show ?thesis by (rule ensuresD [OF keeps_Refresh(2) R])
  next
    case (exec slot frame a read readTO asking r)
    then show ?thesis by (rule ensuresD [OF keeps_Exec(1) R])
  next
    case (checkout_slot slot r)
    then show ?thesis by (rule ensuresD [OF keeps_Checkout(1) R])
  next
    case (checkout_addr addr r)
    then show ?thesis by (rule ensuresD [OF keeps_Checkout(2) R])
  next
    case (put i c r)
    then show ?thesis by (rule ensuresD [OF keeps_pools(2) R])
  next
    case (drop_it i c r)
    then show ?thesis by (rule ensuresD [OF keeps_pools(3) R])
  qed
qed

section \<open>What a hop leaves alone\<close>

text \<open>Predicates that do not look at the pools or at the network are kept by a whole hop.\<close>

definition netFree :: "('w Router \<Rightarrow> bool) \<Rightarrow> bool" where
  "netFree J \<longleftrightarrow> (\<forall>R hp ps w. J R \<longrightarrow> J (R\<lparr>heap := hp\<rparr>) \<and> J (R\<lparr>rpools := ps\<rparr>) \<and> J (R\<lparr>world := w\<rparr>))"

lemma netFree_eq: "netFree (\<lambda>R. rcfg R = C \<and> slots R = m \<and> rcount R = l \<and> ropen R = op \<and> rclose R = cl)"
  by (simp add: netFree_def)

lemma netFree_onNet: "netFree J \<Longrightarrow> keeps J (onNet m)"
  by (rule keeps_zoom_frame) (simp add: netFree_def)

lemma netFree_onPool: "netFree J \<Longrightarrow> keeps J (onPool i m)"
  by (rule keeps_zoom_frame) (auto simp: netFree_def)

lemma netFree_newPool: "netFree J \<Longrightarrow> keeps J (newPool N addr replica)"
  by (rule ensuresI) (auto simp: newPool_def netFree_def split: option.splits res.splits)

lemma netFree_poolFor: "netFree J \<Longrightarrow> keeps J (poolFor N addr replica)"
  unfolding poolFor_def addPool_def
  by (intro io_rule netFree_newPool keeps_modify) (auto simp: netFree_def)

lemma netFree_hop: "netFree J \<Longrightarrow> keeps J (hop N slot frame a read readTO asking hint)"
  unfolding hop_def pickAddr_def sendOn_def
  by (intro io_rule netFree_onNet netFree_onPool netFree_poolFor)

lemma keeps_hop_eq:
  assumes "hop N slot frame a read readTO asking hint R = Some (r, R')"
  shows "rcfg R' = rcfg R \<and> slots R' = slots R \<and> rcount R' = rcount R \<and> ropen R' = ropen R \<and> rclose R' = rclose R"
  by (rule ensuresD [OF netFree_hop [OF netFree_eq] _ assms]) simp

section \<open>Counting redirects\<close>

definition isRedirect :: "Value \<Rightarrow> bool" where
  "isRedirect v \<longleftrightarrow> IsError v \<and> ParseRedirect (sl (vStr v)) \<noteq> None"

abbreviation redirectsIn :: "(bytes \<times> bytes) list \<Rightarrow> nat" where
  "redirectsIn l \<equiv> length (filter (\<lambda>e. fst e = ''redirects'') l)"

lemma hops_counts:
  assumes "hops N n slot frame a read readTO asking hint lst R = Some (Ok v, R')"
  shows "\<exists>l. rcount R' = rcount R @ l \<and> redirectsIn l \<le> n \<and>
    (if n = 0 then v = lst \<and> l = [] else if isRedirect v then redirectsIn l = n else redirectsIn l < n)"
  using assms
proof (induction n arbitrary: slot read asking hint lst R)
  case (Suc n)
  from Suc.prems obtain u R1 where hop: "hop N slot frame a read readTO asking hint R = Some (Ok u, R1)"
    by (cases "hop N slot frame a read readTO asking hint R")
       (auto simp: bindE_def split: res.splits)
  note same = keeps_hop_eq [OF hop]
  show ?case
  proof (cases "isRedirect u")
    case False
    then show ?thesis
      using Suc.prems hop same by (auto simp: isRedirect_def inc_def split: if_splits option.splits)
  next
    case True
    then obtain red where err: "IsError u" and red: "ParseRedirect (sl (vStr u)) = Some red"
      by (auto simp: isRedirect_def)
    let ?R2 = "R1\<lparr>rcount := rcount R1 @ [(''redirects'', Kind red)]\<rparr>"
    obtain slot' read' asking' hint' R3 where
      rest: "hops N n slot' frame a read' readTO asking' hint' u R3 = Some (Ok v, R')"
      and R3: "rcount R3 = rcount R @ [(''redirects'', Kind red)]"
    proof (cases "Kind red = ''MOVED''")
      case True
      with Suc.prems hop err red obtain R3 where
        "updateSlot (Slot red) (Addr red) ?R2 = Some (Ok (), R3)"
        "hops N n (Slot red) frame a read readTO False (Addr red) u R3 = Some (Ok v, R')"
        by (cases "updateSlot (Slot red) (Addr red) ?R2") (auto simp: inc_def thenE_def bindE_def split: res.splits)
      moreover from this(1) have "rcount R3 = rcount ?R2"
        by (auto simp: updateSlot_def bindE_def split: res.splits)
      ultimately show thesis using that same by auto
    next
      case False
      with Suc.prems hop err red have "hops N n (Slot red) frame a False readTO True (Addr red) u ?R2 = Some (Ok v, R')"
        by (simp add: inc_def)
      then show thesis using that same by auto
    qed
    from Suc.IH [OF rest] obtain l where l: "rcount R' = rcount R3 @ l" "redirectsIn l \<le> n"
      "if n = 0 then v = u \<and> l = [] else if isRedirect v then redirectsIn l = n else redirectsIn l < n"
      by blast
    show ?thesis
      using l R3 True by (intro exI [of _ "(''redirects'', Kind red) # l"]) (auto split: if_splits)
  qed
qed simp

section \<open>Properties\<close>

lemma poolFor_mapped:
  "poolFor N addr replica R = Some (Ok i, R') \<Longrightarrow> (rewriteAddr R addr, i) \<in> set (rpools R')"
  by (auto simp: poolFor_def addPool_def Let_def bindE_def thenE_def split: option.splits res.splits dest: map_of_SomeD)

text \<open>
  C15. Commands for an address travel on connections to that address. In every state the router
  can reach by refreshing, executing, checking out and returning connections and by following
  redirects, over any network, the pool it uses for an address (after the address map) was
  made for exactly that address, no address has two pools, the idle connections are
  within the pool's size, and the slot map is well formed: every slot is unassigned or leads to
  a node of the topology, and no two nodes share an address.
\<close>

theorem router_pools_match_addresses:
  assumes "reach (router_init N) (router_step N) R" and "poolFor N addr replica R = Some (Ok i, R')"
  shows "i < length (heap R') \<and> oAddr (opts (heap R' ! i)) = rewriteAddr R addr \<and>
    distinct (map fst (rpools R')) \<and> int (length (conns (heap R' ! i))) \<le> oMaxSize (opts (heap R' ! i)) \<and>
    mapOK (slots R')"
proof -
  have "routerOK R'"
    by (rule ensuresD [OF keeps_poolFor router.reach_inv [OF assms(1)] assms(2)])
  then show ?thesis
    using poolFor_mapped [OF assms(2)] by (auto simp: routerOK_def poolsOK_def heapOK_def poolOK_def)
qed

text \<open>A network in which every dial fails and whose callers have a finished context.\<close>

definition deadNet :: "unit net" where
  "deadNet = \<lparr>netDial = (\<lambda>a t w. (Inl (NetErr ''refused'' False), w)), netHandshake = (\<lambda>i t w. (None, w)),
     netWrite = (\<lambda>i b t w. (Some EOF, w)), netRecv = (\<lambda>i t w. (Inl EOF, w)), netClose = (\<lambda>i w. w),
     netCtxErr = (\<lambda>w. Some (GoErr ''context canceled'')), netWake = (\<lambda>a w. (NoWake, w))\<rparr>"

definition demoConfig :: Config where
  "demoConfig = Defaults\<lparr>ClusterSeeds := [''a:1''], MovedHopLimit := 1, PoolMinPerNode := 0\<rparr>"

lemmas router_eval =
  io_eval Let_def poolFor_def addPool_def newPool_def PoolNew_def poolOptions_def rewriteAddr_def FlavorOf_def Load_def
  Get_def checkout_def dial_def connect_def demoConfig_def Defaults_def

definition deadRouter :: "unit Router" where
  "deadRouter = (case NewRouter deadNet (\<lambda>_. Ok ()) demoConfig () of Some (r, R) \<Rightarrow> R)"

lemma deadRouter_started: "NewRouter deadNet (\<lambda>_. Ok ()) demoConfig () = Some (Ok (), deadRouter)"
  unfolding deadRouter_def NewRouter_def Refresh_def
  by (simp add: router_eval deadNet_def candidateAddrs_def addAddr_def inc_def configFlavor_def refreshFrom_def
      isClusterNotConfigured_def HasPrefix_def HashTagRunes_def ToLower_def lower_byte_def)

lemma deadNet_poolFor: "\<exists>i R'. poolFor deadNet addr replica R = Some (Ok i, R')"
proof -
  have "dial deadNet (p, w) = Some (Err (GoErr (''dial '' @ oAddr (opts p) @ '': refused'')), (p, w))" for p w
    by (simp add: dial_def connect_def deadNet_def)
  then have "prefill deadNet n (p, w) = Some (Ok (), (p, w))" for n p w
    by (induction n) simp_all
  then show ?thesis
    by (auto simp: poolFor_def addPool_def newPool_def PoolNew_def Let_def io_eval split: option.splits)
qed

theorem router_pools_match_addresses_witness:
  "\<exists>i R'. poolFor deadNet ''b:2'' False deadRouter = Some (Ok i, R') \<and> oAddr (opts (heap R' ! i)) = rewriteAddr deadRouter ''b:2''"
proof -
  have "router_init deadNet deadRouter"
    unfolding router_init_def using deadRouter_started by (intro exI [of _ demoConfig] exI conjI) (simp_all add: demoConfig_def)
  then have reach: "reach (router_init deadNet) (router_step deadNet) deadRouter"
    by (rule reach_init)
  obtain i R' where "poolFor deadNet ''b:2'' False deadRouter = Some (Ok i, R')"
    using deadNet_poolFor by blast
  with router_pools_match_addresses [OF reach this] show ?thesis by blast
qed


text \<open>Every node answers every command with the same redirect.\<close>

definition movedNet :: "unit net" where
  "movedNet = \<lparr>netDial = (\<lambda>a t w. (Inr 7, w)), netHandshake = (\<lambda>i t w. (None, w)),
     netWrite = (\<lambda>i b t w. (None, w)), netRecv = (\<lambda>i t w. (Inr (''-MOVED 5 b:1'' @ CRLF, EOF), w)), netClose = (\<lambda>i w. w),
     netCtxErr = (\<lambda>w. None), netWake = (\<lambda>a w. (NoWake, w))\<rparr>"

definition demoRouter :: "unit Router" where
  "demoRouter = \<lparr>rcfg = demoConfig, slots = \<lparr>ptr = None, gen = 0\<rparr>, rflavor = FlavorRedis, rpools = [], heap = [],
     rtls = False, ropen = CHR ''{'', rclose = CHR ''}'', rcount = [], world = ()\<rparr>"


end
