(* ===== verification/Cluster_Net.thy ===== *)
theory Cluster_Net
  imports Cluster_Router
begin

text \<open>
  The router over a cluster that works. \<open>cluster_net\<close> states what the code expects of TCP and
  of the nodes: dialling gives a new connection to the address; commands written on a
  connection are answered in order on that connection; \<open>ASKING\<close> holds for the next
  command; connection-level commands are answered \<open>+OK\<close>. Over such a network a command
  executed by the router is exactly the abstract client \<open>follow\<close>: ask the node of the slot,
  and go where its redirects lead.
\<close>

section \<open>A cluster that answers\<close>

record ('w, 'd) cluster =
  peer :: "'w \<Rightarrow> nat \<Rightarrow> bytes option"
  asked :: "'w \<Rightarrow> nat \<Rightarrow> bool"
  sent :: "'w \<Rightarrow> nat \<Rightarrow> bytes"
  data :: "'w \<Rightarrow> 'd"
  serve :: "'d \<Rightarrow> bytes \<Rightarrow> bool \<Rightarrow> argv \<Rightarrow> Value \<times> 'd"

abbreviation askingCmd :: argv where
  "askingCmd \<equiv> [Some ''ASKING'']"

definition control :: "argv \<Rightarrow> bool" where
  "control a \<longleftrightarrow> a \<noteq> [] \<and> hd a \<in> {Some ''ASKING'', Some ''AUTH'', Some ''READONLY''}"

fun serveAll :: "('d \<Rightarrow> bytes \<Rightarrow> bool \<Rightarrow> argv \<Rightarrow> Value \<times> 'd) \<Rightarrow> 'd \<Rightarrow> bytes \<Rightarrow> bool \<Rightarrow> argv list \<Rightarrow> Value list \<times> bool \<times> 'd" where
  "serveAll S d a k [] = ([], k, d)"
| "serveAll S d a k (x # xs) =
     (let (r, d1) = S d a k x; (rs, k', d2) = serveAll S d1 a (x = askingCmd) xs in (r # rs, k', d2))"

text \<open>A frame that the node reads as a command, whatever follows it.\<close>

definition meaning :: "bytes \<Rightarrow> argv \<Rightarrow> bool" where
  "meaning f a \<longleftrightarrow> (\<forall>rest. decodeCommand (f @ rest) = Some (a, rest))"

text \<open>Dialling an address gives a new connection to it.\<close>

definition dials_peer :: "'w net \<Rightarrow> ('w, 'd) cluster \<Rightarrow> bool" where
  "dials_peer N K \<longleftrightarrow> (\<forall>a t w. \<exists>i w'. netDial N a t w = (Inr i, w') \<and> peer K w i = None \<and>
     peer K w' = (peer K w)(i \<mapsto> a) \<and> asked K w' = (asked K w)(i := False) \<and>
     sent K w' = (sent K w)(i := []) \<and> data K w' = data K w)"

text \<open>A burst of commands on a connection is answered in order, and the answers are under way.\<close>

definition answers_in_order :: "'w net \<Rightarrow> ('w, 'd) cluster \<Rightarrow> bool" where
  "answers_in_order N K \<longleftrightarrow> (\<forall>i a fs xs t w. peer K w i = Some a \<longrightarrow> list_all2 meaning fs xs \<longrightarrow>
     (\<exists>w'. netWrite N i (concat fs) t w = (None, w') \<and> peer K w' = peer K w \<and>
        (case serveAll (serve K) (data K w) a (asked K w i) xs of (rs, k, d) \<Rightarrow>
           asked K w' = (asked K w)(i := k) \<and> data K w' = d \<and>
           sent K w' = (sent K w)(i := sent K w i @ encs rs))))"

text \<open>What a node has sent arrives before the deadline.\<close>

definition delivers :: "'w net \<Rightarrow> ('w, 'd) cluster \<Rightarrow> bool" where
  "delivers N K \<longleftrightarrow> (\<forall>i a t w. peer K w i = Some a \<longrightarrow>
     (\<exists>e w'. netRecv N i t w = (Inr (sent K w i, e), w') \<and> peer K w' = peer K w \<and> asked K w' = asked K w \<and>
        data K w' = data K w \<and> sent K w' = (sent K w)(i := [])))"

definition cluster_net :: "'w net \<Rightarrow> ('w, 'd) cluster \<Rightarrow> bool" where
  "cluster_net N K \<longleftrightarrow>
     (\<forall>w. netCtxErr N w = None) \<and> (\<forall>i t w. netHandshake N i t w = (None, w)) \<and>
     dials_peer N K \<and> answers_in_order N K \<and> delivers N K \<and>
     (\<forall>d a k x. wireable (fst (serve K d a k x))) \<and>
     (\<forall>d a k x. control x \<longrightarrow> serve K d a k x = (SimpleString ''OK'', d))"

text \<open>What the reader makes of a reply.\<close>

definition got :: "Value \<Rightarrow> Value" where
  "got v = setRaw (canon v) (enc v)"

lemma meaning_EncodeCommand: "wf_argv a \<Longrightarrow> meaning (EncodeCommand [] a) a"
  by (simp add: meaning_def cmd.decode_encode)

section \<open>One exchange\<close>

text \<open>A connection to \<open>a\<close> on which nothing is outstanding.\<close>

definition connOK :: "('w, 'd) cluster \<Rightarrow> 'w \<Rightarrow> bytes \<Rightarrow> Conn \<Rightarrow> bool" where
  "connOK K w a c \<longleftrightarrow> inp (rd c) = [] \<and> peer K w (nc c) = Some a \<and> sent K w (nc c) = []"

text \<open>The worlds before and after differ for connection \<open>i\<close> only.\<close>

definition others :: "('w, 'd) cluster \<Rightarrow> nat \<Rightarrow> 'w \<Rightarrow> 'w \<Rightarrow> bool" where
  "others K i w w' \<longleftrightarrow> (\<forall>j. j \<noteq> i \<longrightarrow> peer K w' j = peer K w j \<and> asked K w' j = asked K w j \<and> sent K w' j = sent K w j)"

lemma others_trans: "others K i w w' \<Longrightarrow> others K i w' w'' \<Longrightarrow> others K i w w''"
  by (simp add: others_def)

lemma others_refl [simp]: "others K i w w"
  by (simp add: others_def)

lemma DoRaw_exchange:
  assumes net: "cluster_net N K" and c: "connOK K w a c" and f: "meaning f x"
  obtains c' w' where "DoRaw N c f wt rt w = Some (Ok (Ok (got (fst (serve K (data K w) a (asked K w (nc c)) x))), c'), w')"
    "nc c' = nc c" "connOK K w' a c'" "asked K w' (nc c) = (x = askingCmd)"
    "data K w' = snd (serve K (data K w) a (asked K w (nc c)) x)" "others K (nc c) w w'"
proof -
  let ?i = "nc c"
  obtain v d where v: "serve K (data K w) a (asked K w ?i) x = (v, d)" by fastforce
  have wr: "answers_in_order N K" and recv: "delivers N K"
    and wire: "wireable (fst (serve K (data K w) a (asked K w ?i) x))"
    using net by (simp_all add: cluster_net_def)
  have p: "peer K w ?i = Some a" and s: "sent K w ?i = []" and empty: "inp (rd c) = []"
    using c by (auto simp: connOK_def)
  obtain w1 where w1: "netWrite N ?i f wt w = (None, w1)" "peer K w1 = peer K w" "asked K w1 = (asked K w)(?i := (x = askingCmd))"
    "data K w1 = d" "sent K w1 = (sent K w)(?i := enc v)"
    using wr [unfolded answers_in_order_def, rule_format, OF p, of "[f]" "[x]" wt] f v s by auto
  obtain e w2 where w2: "netRecv N ?i rt w1 = (Inr (enc v, e), w2)" "peer K w2 = peer K w1" "asked K w2 = asked K w1"
    "data K w2 = data K w1" "sent K w2 = (sent K w1)(?i := [])"
    using recv [unfolded delivers_def, rule_format, of w1 ?i a rt] p w1 by auto
  have wv: "wireable v" using wire v by simp
  let ?r = "(rd c)\<lparr>inp := inp (rd c) @ enc v, fin := e\<rparr>"
  have read: "ReadValue ?r = (Ok (got v), ?r\<lparr>inp := [], raw := []\<rparr>)"
    using ReadValue_enc [OF wv, of ?r "[]"] empty by (simp add: got_def)
  show thesis
  proof (rule that)
    show "DoRaw N c f wt rt w = Some (Ok (Ok (got (fst (serve K (data K w) a (asked K w (nc c)) x))),
        c\<lparr>rd := ?r\<lparr>inp := [], raw := []\<rparr>\<rparr>), w2)"
      using w1(1) w2(1) read v by (simp add: DoRaw_def WriteRaw_def ReadConn_def io_eval)
    show "data K w2 = snd (serve K (data K w) a (asked K w (nc c)) x)" "asked K w2 (nc c) = (x = askingCmd)"
      using w1 w2 v by simp_all
    show "connOK K w2 a (c\<lparr>rd := ?r\<lparr>inp := [], raw := []\<rparr>\<rparr>)"
      using w1 w2 p by (simp add: connOK_def)
    show "others K (nc c) w w2"
      using w1 w2 by (simp add: others_def)
  qed simp
qed

lemma not_error_got_OK [simp]: "IsError (got (SimpleString ''OK'')) = False"
  by (simp add: got_def IsError_def SimpleString_def canon.simps line_type_def)

lemma roundTrip_control:
  assumes net: "cluster_net N K" and c: "connOK K w a c" and x: "control x" "wf_argv x"
  obtains c' w' where "roundTrip N c x wt rt w = Some (Ok (None, c'), w')" "nc c' = nc c" "connOK K w' a c'"
    "asked K w' (nc c) = (x = askingCmd)" "data K w' = data K w" "others K (nc c) w w'"
proof -
  have ok: "serve K (data K w) a (asked K w (nc c)) x = (SimpleString ''OK'', data K w)"
    using net x(1) by (simp add: cluster_net_def)
  show thesis
    by (rule DoRaw_exchange [OF net c meaning_EncodeCommand [OF x(2)], of wt rt], rule that)
       (simp_all add: ok roundTrip_def Do_def io_eval)
qed

section \<open>Dialling and the pool\<close>

definition optsOK :: "Options \<Rightarrow> bool" where
  "optsOK os \<longleftrightarrow> length (oUsername os) \<le> 512 * 1024 * 1024 \<and> length (oPassword os) \<le> 512 * 1024 * 1024"

text \<open>A new connection to \<open>a\<close>, nothing outstanding, unknown to the world before.\<close>

definition freshConn :: "('w, 'd) cluster \<Rightarrow> 'w \<Rightarrow> 'w \<Rightarrow> bytes \<Rightarrow> Conn \<Rightarrow> bool" where
  "freshConn K w w' a c \<longleftrightarrow> peer K w (nc c) = None \<and> connOK K w' a c \<and> \<not> asked K w' (nc c) \<and>
     data K w' = data K w \<and> others K (nc c) w w'"

lemma connect_fresh:
  assumes "cluster_net N K"
  obtains c w' where "connect N os w = Some (Ok c, w')" "freshConn K w w' (oAddr os) c"
proof -
  obtain i w' where d: "netDial N (oAddr os) (oDialTimeout os) w = (Inr i, w')" "peer K w i = None"
    "peer K w' = (peer K w)(i \<mapsto> oAddr os)" "asked K w' = (asked K w)(i := False)" "sent K w' = (sent K w)(i := [])"
    "data K w' = data K w"
    using assms unfolding cluster_net_def dials_peer_def by meson
  have h: "netHandshake N i t w = (None, w)" for i t w
    using assms by (simp add: cluster_net_def)
  show thesis
    by (rule that [of "\<lparr>nc = i, rd = NewReader [] EOF\<rparr>" w'])
       (use d h in \<open>simp_all add: connect_def Let_def freshConn_def connOK_def others_def NewReader_def NewReaderSize_def\<close>)
qed

lemma greet_control:
  assumes net: "cluster_net N K" and c: "freshConn K w0 w a c" and x: "control x" "wf_argv x" "x \<noteq> askingCmd"
  shows "\<exists>c' w'. greet N (roundTrip N c x wt rt) k w = k c' w' \<and> freshConn K w0 w' a c'"
proof -
  have "connOK K w a c" using c by (simp add: freshConn_def)
  from roundTrip_control [OF net this x(1,2), of wt rt] obtain c' w' where
    run: "roundTrip N c x wt rt w = Some (Ok (None, c'), w')" and
    c': "nc c' = nc c" "connOK K w' a c'" "asked K w' (nc c) = (x = askingCmd)" "data K w' = data K w" "others K (nc c) w w'"
    by metis
  have "greet N (roundTrip N c x wt rt) k w = k c' w'" using run by (simp add: greet_def)
  moreover have "freshConn K w0 w' a c'" using c c' x(3) by (auto simp: freshConn_def intro: others_trans)
  ultimately show ?thesis by blast
qed

lemma dial_fresh:
  assumes net: "cluster_net N K" and os: "optsOK (opts p)"
  obtains c w' where "dial N (p, w) = Some (Ok c, (p\<lparr>dials := dials p + 1\<rparr>, w'))" "freshConn K w w' (oAddr (opts p)) c"
proof -
  let ?o = "opts p"
  let ?ready = "\<lambda>c. if oReadOnly ?o then greet N (roundTrip N c [Some ''READONLY''] (oWriteTimeout ?o) (oReadTimeout ?o)) ret else ret c"
  let ?auth = "if oUsername ?o \<noteq> [] then [Some ''AUTH'', Some (oUsername ?o), Some (oPassword ?o)] else [Some ''AUTH'', Some (oPassword ?o)]"
  have auth: "control ?auth" "wf_argv ?auth" "?auth \<noteq> askingCmd"
    and ro: "control [Some ''READONLY'']" "wf_argv [Some ''READONLY'']" "[Some ''READONLY''] \<noteq> askingCmd"
    using os by (auto simp: control_def wf_argv_def optsOK_def)
  obtain c w1 where c: "connect N ?o w = Some (Ok c, w1)" "freshConn K w w1 (oAddr ?o) c"
    by (rule connect_fresh [OF net])
  let ?hello = "if oPassword ?o \<noteq> [] then greet N (Backend_Pool.auth N c (oUsername ?o) (oPassword ?o) (oWriteTimeout ?o) (oReadTimeout ?o)) ?ready
      else ?ready c"
  obtain c2 w2 where c2: "?hello w1 = ?ready c2 w2" "freshConn K w w2 (oAddr ?o) c2"
  proof (cases "oPassword ?o = []")
    case True
    then show thesis by (intro that [of c w1]) (simp_all add: c)
  next
    case False
    from greet_control [OF net c(2) auth, of "oWriteTimeout ?o" "oReadTimeout ?o" ?ready]
    obtain c2 w2 where g: "greet N (roundTrip N c ?auth (oWriteTimeout ?o) (oReadTimeout ?o)) ?ready w1 = ?ready c2 w2"
      "freshConn K w w2 (oAddr ?o) c2" by blast
    have "?hello = greet N (roundTrip N c ?auth (oWriteTimeout ?o) (oReadTimeout ?o)) ?ready"
      using False by (simp add: auth_def)
    with g that [of c2 w2] show thesis by (simp only:)
  qed
  obtain c3 w3 where c3: "?ready c2 w2 = Some (Ok c3, w3)" "freshConn K w w3 (oAddr ?o) c3"
  proof (cases "oReadOnly ?o")
    case True
    from greet_control [OF net c2(2) ro, of "oWriteTimeout ?o" "oReadTimeout ?o" ret]
    obtain c3 w3 where g: "greet N (roundTrip N c2 [Some ''READONLY''] (oWriteTimeout ?o) (oReadTimeout ?o)) ret w2 = ret c3 w3"
      "freshConn K w w3 (oAddr ?o) c3" by blast
    show thesis by (rule that [of c3 w3]) (use True g in simp_all)
  next
    case False
    then show thesis by (intro that [of c2 w2]) (simp_all add: c2)
  qed
  show thesis
    by (rule that [of c3 w3]) (use c(1) c2(1) c3 in \<open>simp_all only: dial_def Let_def prod.case option.case res.case\<close>)
qed

text \<open>Idle connections on which nothing is outstanding, all different.\<close>

definition idleOK :: "('w, 'd) cluster \<Rightarrow> 'w \<Rightarrow> Pool \<Rightarrow> bool" where
  "idleOK K w p \<longleftrightarrow> \<not> closed p \<and> distinct (map nc (conns p)) \<and>
     (\<forall>c \<in> set (conns p). connOK K w (oAddr (opts p)) c \<and> \<not> asked K w (nc c))"

lemma idleOK_others:
  assumes "idleOK K w p" and "others K i w w'" and "i \<notin> nc ` set (conns p)"
  shows "idleOK K w' p"
proof -
  have "connOK K w' (oAddr (opts p)) c \<and> \<not> asked K w' (nc c)" if "c \<in> set (conns p)" for c
  proof -
    have "nc c \<noteq> i" using assms(3) that by auto
    then show ?thesis using assms(1,2) that by (simp add: idleOK_def connOK_def others_def)
  qed
  then show ?thesis using assms(1) by (simp add: idleOK_def)
qed

lemma idleOK_counts [simp]:
  "idleOK K w (p\<lparr>active := x\<rparr>) = idleOK K w p" "idleOK K w (p\<lparr>waiters := x\<rparr>) = idleOK K w p"
  "idleOK K w (p\<lparr>dials := y\<rparr>) = idleOK K w p"
  by (simp_all add: idleOK_def)

lemma idle_peer: "idleOK K w p \<Longrightarrow> i \<in> nc ` set (conns p) \<Longrightarrow> peer K w i = Some (oAddr (opts p))"
  by (auto simp: idleOK_def connOK_def)

lemma idleOK_fresh:
  assumes "idleOK K w p" and "freshConn K w w' a c"
  shows "idleOK K w' p"
proof (rule idleOK_others [OF assms(1)])
  show "others K (nc c) w w'" using assms(2) by (simp add: freshConn_def)
  show "nc c \<notin> nc ` set (conns p)"
    using idle_peer [OF assms(1), of "nc c"] assms(2) by (auto simp: freshConn_def)
qed

lemma idleOK_add:
  assumes "idleOK K w p" and "connOK K w (oAddr (opts p)) c" "\<not> asked K w (nc c)" "nc c \<notin> nc ` set (conns p)"
  shows "idleOK K w (p\<lparr>conns := conns p @ [c]\<rparr>)"
  using assms by (auto simp: idleOK_def)

lemma PoolNew_eq:
  "PoolNew N os w = prefill N (nat (min (oMinIdle os) (oMaxSize (normOptions os))))
     (\<lparr>opts = normOptions os, conns = [], active = 0, waiters = 0, closed = False, dials = 0\<rparr>, w)"
proof -
  have norm: "(let o1 = (if oMaxSize os < 1 then os\<lparr>oMaxSize := 1\<rparr> else os)
       in if oDialTimeout o1 \<le> 0 then o1\<lparr>oDialTimeout := 3 * 1000000000\<rparr> else o1) = normOptions os"
    by (cases os) (auto simp: normOptions_def Let_def max_def)
  show ?thesis
    unfolding PoolNew_def norm [unfolded Let_def] Let_def by (auto simp: min_def normOptions_def)
qed

lemma prefill_idle:
  assumes "cluster_net N K" "optsOK (opts p)" "idleOK K w p"
  shows "\<exists>p' w'. prefill N n (p, w) = Some (Ok (), (p', w')) \<and> idleOK K w' p' \<and> opts p' = opts p \<and> active p' = active p \<and>
    data K w' = data K w \<and> (\<forall>q. idleOK K w q \<longrightarrow> idleOK K w' q)"
  using assms(2,3)
proof (induction n arbitrary: p w)
  case (Suc n)
  from dial_fresh [OF assms(1) Suc.prems(1), of w] obtain c w1 where
    d: "dial N (p, w) = Some (Ok c, (p\<lparr>dials := dials p + 1\<rparr>, w1))" and c: "freshConn K w w1 (oAddr (opts p)) c"
    by metis
  let ?p = "p\<lparr>dials := dials p + 1, conns := conns p @ [c]\<rparr>"
  have "nc c \<notin> nc ` set (conns p)"
    using idle_peer [OF Suc.prems(2), of "nc c"] c by (auto simp: freshConn_def)
  then have "idleOK K w1 ?p"
    using idleOK_fresh [OF Suc.prems(2) c] c by (auto simp: freshConn_def idleOK_def)
  from Suc.IH [OF _ this] Suc.prems(1) obtain p' w' where
    "prefill N n (?p, w1) = Some (Ok (), (p', w'))" "idleOK K w' p'" "opts p' = opts p" "active p' = active p"
    "data K w' = data K w1" "\<forall>q. idleOK K w1 q \<longrightarrow> idleOK K w' q"
    by auto
  then show ?case
    using d c idleOK_fresh [OF _ c] by (auto simp: freshConn_def)
qed simp

lemma Get_lends:
  assumes "cluster_net N K" "optsOK (opts p)" "idleOK K w p" "poolOK (opts p) p" "active p = 0"
  shows "\<exists>c p' w'. Get N (p, w) = Some (Ok c, (p', w')) \<and> idleOK K w' p' \<and> opts p' = opts p \<and> active p' = 1 \<and>
    connOK K w' (oAddr (opts p)) c \<and> \<not> asked K w' (nc c) \<and> nc c \<notin> nc ` set (conns p') \<and>
    int (length (conns p')) < oMaxSize (opts p) \<and> data K w' = data K w \<and> (\<forall>q. idleOK K w q \<longrightarrow> idleOK K w' q)"
proof (cases "conns p")
  case (Cons c cs)
  let ?p = "p\<lparr>conns := cs, active := 1\<rparr>"
  have "Get N (p, w) = Some (Ok c, (?p, w))"
    using assms Cons by (simp add: Get_def checkout_def io_eval idleOK_def)
  then show ?thesis
    using assms Cons by (intro exI [of _ c] exI [of _ ?p] exI [of _ w]) (auto simp: idleOK_def poolOK_def)
next
  case Nil
  from dial_fresh [OF assms(1), of "p\<lparr>waiters := waiters p + 1\<rparr>" w] assms(2) obtain c w' where
    d: "dial N (p\<lparr>waiters := waiters p + 1\<rparr>, w) = Some (Ok c, (p\<lparr>waiters := waiters p + 1, dials := dials p + 1\<rparr>, w'))"
    and c: "freshConn K w w' (oAddr (opts p)) c"
    by auto
  let ?p = "p\<lparr>dials := dials p + 1, active := 1\<rparr>"
  have "Get N (p, w) = Some (Ok c, (?p, w'))"
    using assms Nil d by (simp add: Get_def checkout_def io_eval idleOK_def poolOK_def)
  then show ?thesis
    using assms Nil c idleOK_fresh [OF _ c]
    by (intro exI [of _ c] exI [of _ ?p] exI [of _ w']) (auto simp: freshConn_def poolOK_def)
qed

section \<open>The router between commands\<close>

text \<open>No connection is out, and nothing is outstanding on the idle ones.\<close>

definition synced :: "('w, 'd) cluster \<Rightarrow> 'w Router \<Rightarrow> bool" where
  "synced K R \<longleftrightarrow> routerOK R \<and> optsOK (poolOptions R [] False) \<and>
     (\<forall>(a, i) \<in> set (rpools R). idleOK K (world R) (heap R ! i) \<and> optsOK (opts (heap R ! i)) \<and> active (heap R ! i) = 0)"

text \<open>One connection of pool \<open>i\<close>, to address \<open>a\<close>, is out.\<close>

definition lent :: "('w, 'd) cluster \<Rightarrow> 'w Router \<Rightarrow> bytes \<Rightarrow> nat \<Rightarrow> Conn \<Rightarrow> bool" where
  "lent K R a i c \<longleftrightarrow> routerOK R \<and> optsOK (poolOptions R [] False) \<and> (a, i) \<in> set (rpools R) \<and>
     (\<forall>(b, j) \<in> set (rpools R). idleOK K (world R) (heap R ! j) \<and> optsOK (opts (heap R ! j)) \<and>
        active (heap R ! j) = (if j = i then 1 else 0)) \<and>
     connOK K (world R) a c \<and> nc c \<notin> nc ` set (conns (heap R ! i)) \<and>
     int (length (conns (heap R ! i))) < oMaxSize (opts (heap R ! i))"

definition sameCore :: "'w Router \<Rightarrow> 'w Router \<Rightarrow> bool" where
  "sameCore R R' \<longleftrightarrow> rcfg R' = rcfg R \<and> slots R' = slots R \<and> rflavor R' = rflavor R \<and> rtls R' = rtls R \<and>
     ropen R' = ropen R \<and> rclose R' = rclose R \<and> rcount R' = rcount R"

lemma sameCore_trans: "sameCore R R' \<Longrightarrow> sameCore R' R'' \<Longrightarrow> sameCore R R''"
  by (simp add: sameCore_def)

lemma pools_index:
  assumes "routerOK R" and "(a, i) \<in> set (rpools R)"
  shows "i < length (heap R)" "oAddr (opts (heap R ! i)) = a" "poolOK (opts (heap R ! i)) (heap R ! i)"
  using assms by (auto simp: routerOK_def poolsOK_def heapOK_def)

lemma pools_index_inj:
  assumes "routerOK R" and "(a, i) \<in> set (rpools R)" and "(b, i) \<in> set (rpools R)"
  shows "a = b"
  using pools_index(2) [OF assms(1,2)] pools_index(2) [OF assms(1,3)] by simp

lemma poolFor_synced:
  assumes net: "cluster_net N K" and R: "synced K R"
  shows "\<exists>i R'. poolFor N addr replica R = Some (Ok i, R') \<and> synced K R' \<and> (rewriteAddr R addr, i) \<in> set (rpools R') \<and>
    sameCore R R' \<and> data K (world R') = data K (world R)"
proof (cases "map_of (rpools R) (rewriteAddr R addr)")
  case (Some i)
  then show ?thesis
    using R by (intro exI [of _ i] exI [of _ R]) (auto simp: poolFor_def Let_def sameCore_def dest: map_of_SomeD)
next
  case None
  let ?a = "rewriteAddr R addr" and ?os = "poolOptions R (rewriteAddr R addr) replica"
  have os: "optsOK ?os" using R by (simp add: synced_def optsOK_def poolOptions_def)
  let ?p0 = "\<lparr>opts = normOptions ?os, conns = [], active = 0, waiters = 0, closed = False, dials = 0\<rparr>"
  have "optsOK (opts ?p0)" "idleOK K (world R) ?p0"
    using os by (simp_all add: optsOK_def normOptions_def idleOK_def)
  from prefill_idle [OF net this] obtain p w where
    p: "PoolNew N ?os (world R) = Some (Ok (), (p, w))" "idleOK K w p" "opts p = normOptions ?os" "active p = 0"
      "data K w = data K (world R)" "\<forall>q. idleOK K (world R) q \<longrightarrow> idleOK K w q"
    unfolding PoolNew_eq by fastforce
  let ?R = "R\<lparr>heap := heap R @ [p], world := w, rpools := rpools R @ [(?a, length (heap R))]\<rparr>"
  have run: "poolFor N addr replica R = Some (Ok (length (heap R)), ?R)"
    using None p(1) by (simp add: poolFor_def addPool_def newPool_def Let_def io_eval)
  have ok: "routerOK ?R"
    using ensuresD [OF keeps_poolFor _ run] R by (simp add: synced_def)
  have "synced K ?R"
    unfolding synced_def using ok R p os pools_index(1)
    by (auto simp: synced_def nth_append optsOK_def normOptions_def poolOptions_def)
  then show ?thesis using run p by (auto simp: sameCore_def)
qed

lemma poolOptions_same: "sameCore R R' \<Longrightarrow> poolOptions R' a b = poolOptions R a b"
  by (auto simp: poolOptions_def sameCore_def FlavorOf_def split: option.splits)

text \<open>Replacing pool \<open>i\<close> and the world.\<close>

lemma heap_nth_update:
  assumes "routerOK R" and "(a, i) \<in> set (rpools R)"
  shows "(heap R)[i := p] ! j = (if j = i then p else heap R ! j)"
  using pools_index(1) [OF assms] by simp

lemma Get_router:
  assumes net: "cluster_net N K" and R: "synced K R" and i: "(a, i) \<in> set (rpools R)"
  shows "\<exists>c R'. onPool i (Get N) R = Some (Ok c, R') \<and> lent K R' a i c \<and> \<not> asked K (world R') (nc c) \<and>
    sameCore R R' \<and> data K (world R') = data K (world R)"
proof -
  let ?p = "heap R ! i"
  have ok: "routerOK R" using R by (simp add: synced_def)
  have p: "idleOK K (world R) ?p" "optsOK (opts ?p)" "active ?p = 0" "poolOK (opts ?p) ?p" "oAddr (opts ?p) = a"
    using R i pools_index [OF ok i] by (auto simp: synced_def)
  from Get_lends [OF net p(2,1,4,3)] obtain c p' w' where g: "Get N (?p, world R) = Some (Ok c, (p', w'))"
    "idleOK K w' p'" "opts p' = opts ?p" "active p' = 1" "connOK K w' (oAddr (opts ?p)) c" "\<not> asked K w' (nc c)"
    "nc c \<notin> nc ` set (conns p')" "int (length (conns p')) < oMaxSize (opts ?p)" "data K w' = data K (world R)"
    "\<forall>q. idleOK K (world R) q \<longrightarrow> idleOK K w' q"
    by blast
  let ?R = "R\<lparr>heap := (heap R)[i := p'], world := w'\<rparr>"
  have run: "onPool i (Get N) R = Some (Ok c, ?R)"
    using g(1) by (simp add: zoom_def)
  have "routerOK ?R" using ensuresD [OF keeps_pools(1) ok run] .
  moreover have "poolOptions ?R [] False = poolOptions R [] False"
    by (rule poolOptions_same) (simp add: sameCore_def)
  ultimately have "lent K ?R a i c"
    using R g p i by (auto simp: lent_def synced_def heap_nth_update [OF ok i])
  then show ?thesis using run g by (auto simp: sameCore_def)
qed

lemma DoRaw_router:
  assumes net: "cluster_net N K" and R: "lent K R a i c" and f: "meaning f x"
  shows "\<exists>c' R'. onNet (DoRaw N c f wt rt) R =
      Some (Ok (Ok (got (fst (serve K (data K (world R)) a (asked K (world R) (nc c)) x))), c'), R') \<and>
    lent K R' a i c' \<and> nc c' = nc c \<and> asked K (world R') (nc c) = (x = askingCmd) \<and> sameCore R R' \<and>
    data K (world R') = snd (serve K (data K (world R)) a (asked K (world R) (nc c)) x)"
proof -
  have ok: "routerOK R" and c: "connOK K (world R) a c" and i: "(a, i) \<in> set (rpools R)"
    using R by (simp_all add: lent_def)
  from DoRaw_exchange [OF net c f, of wt rt] obtain c' w' where
    d: "DoRaw N c f wt rt (world R) = Some (Ok (Ok (got (fst (serve K (data K (world R)) a (asked K (world R) (nc c)) x))), c'), w')"
    and c': "nc c' = nc c" "connOK K w' a c'" "asked K w' (nc c) = (x = askingCmd)"
      "data K w' = snd (serve K (data K (world R)) a (asked K (world R) (nc c)) x)" "others K (nc c) (world R) w'"
    by metis
  let ?R = "R\<lparr>world := w'\<rparr>"
  have "idleOK K w' (heap R ! j)" if j: "(b, j) \<in> set (rpools R)" for b j
  proof (rule idleOK_others [OF _ c'(5)])
    show "idleOK K (world R) (heap R ! j)" using R j by (auto simp: lent_def)
    show "nc c \<notin> nc ` set (conns (heap R ! j))"
    proof (cases "j = i")
      case False
      then have "b \<noteq> a" using ok i j by (auto simp: routerOK_def poolsOK_def dest: eq_key_imp_eq_value)
      then show ?thesis
        using idle_peer [OF \<open>idleOK K (world R) (heap R ! j)\<close>, of "nc c"] c pools_index(2) [OF ok j] by (auto simp: connOK_def)
    qed (use R in \<open>simp add: lent_def\<close>)
  qed
  moreover have "poolOptions ?R [] False = poolOptions R [] False"
    by (rule poolOptions_same) (simp add: sameCore_def)
  ultimately have "lent K ?R a i c'"
    using R c' by (auto simp: lent_def)
  then show ?thesis
    using d c' by (intro exI [of _ c'] exI [of _ ?R]) (simp add: zoom_def sameCore_def)
qed

lemma Put_router:
  assumes R: "lent K R a i c" and k: "\<not> asked K (world R) (nc c)"
  shows "\<exists>R'. onPool i (Put N c) R = Some (Ok (), R') \<and> synced K R' \<and> sameCore R R' \<and> world R' = world R"
proof -
  let ?p = "heap R ! i"
  have ok: "routerOK R" and i: "(a, i) \<in> set (rpools R)" using R by (simp_all add: lent_def)
  have p: "idleOK K (world R) ?p" "optsOK (opts ?p)" "active ?p = 1" "int (length (conns ?p)) < oMaxSize (opts ?p)"
    "connOK K (world R) (oAddr (opts ?p)) c" "nc c \<notin> nc ` set (conns ?p)"
    using R i pools_index [OF ok i] by (auto simp: lent_def)
  let ?q = "?p\<lparr>active := 0, conns := conns ?p @ [c]\<rparr>"
  let ?R = "R\<lparr>heap := (heap R)[i := ?q]\<rparr>"
  have run: "onPool i (Put N c) R = Some (Ok (), ?R)"
    using p by (simp add: zoom_def Put_def idleOK_def)
  have "idleOK K (world R) ?q"
    using idleOK_add [OF p(1,5) k p(6)] by (simp add: idleOK_def)
  moreover have "routerOK ?R" using ensuresD [OF keeps_pools(2) ok run] .
  moreover have "poolOptions ?R [] False = poolOptions R [] False"
    by (rule poolOptions_same) (simp add: sameCore_def)
  ultimately have "synced K ?R"
    using R p i by (auto simp: lent_def synced_def heap_nth_update [OF ok i] split: if_splits)
  then show ?thesis using run by (auto simp: sameCore_def)
qed

text \<open>The frame a hop sends and what it means.\<close>

definition carries :: "slice \<Rightarrow> argv \<Rightarrow> argv \<Rightarrow> bool" where
  "carries frame a x \<longleftrightarrow> \<not> control x \<and> (case frame of Some f \<Rightarrow> meaning f x | None \<Rightarrow> wf_argv a \<and> x = a)"

lemma sendOn_lent:
  assumes net: "cluster_net N K" and R: "lent K R b i c" and k: "\<not> asked K (world R) (nc c)" and x: "carries frame a x"
  shows "\<exists>R'. sendOn N i frame a readTO asking c R = Some (Ok (got (fst (serve K (data K (world R)) b asking x))), R') \<and>
    synced K R' \<and> sameCore R R' \<and> data K (world R') = snd (serve K (data K (world R)) b asking x)"
proof -
  have "\<exists>v c1 R1. (if asking then doCmd N c askingCmd else ret (Ok zeroValue, c)) R = Some (Ok (Ok v, c1), R1) \<and>
      lent K R1 b i c1 \<and> asked K (world R1) (nc c1) = asking \<and> sameCore R R1 \<and> data K (world R1) = data K (world R)"
  proof (cases asking)
    case True
    have ok: "serve K (data K (world R)) b (asked K (world R) (nc c)) askingCmd = (SimpleString ''OK'', data K (world R))"
      using net by (simp add: cluster_net_def control_def)
    have "meaning (EncodeCommand [] askingCmd) askingCmd"
      by (rule meaning_EncodeCommand) (simp add: wf_argv_def)
    from DoRaw_router [OF net R this, of "WriteTimeout (rcfg R)" "ReadTimeout (rcfg R)"] ok True
    show ?thesis unfolding Do_def by fastforce
  next
    case False
    then show ?thesis using R k by (auto simp: sameCore_def)
  qed
  then obtain v c1 R1 where ask: "(if asking then doCmd N c askingCmd else ret (Ok zeroValue, c)) R = Some (Ok (Ok v, c1), R1)"
    and R1: "lent K R1 b i c1" "asked K (world R1) (nc c1) = asking" "sameCore R R1" "data K (world R1) = data K (world R)"
    by blast
  define f where "f = (case frame of Some f \<Rightarrow> f | None \<Rightarrow> EncodeCommand [] a)"
  have f: "meaning f x" using x by (auto simp: carries_def f_def meaning_EncodeCommand split: option.splits)
  have send: "(case frame of Some f \<Rightarrow> DoRaw N c1 f (WriteTimeout (rcfg R)) readTO
      | None \<Rightarrow> Do N c1 a (WriteTimeout (rcfg R)) readTO) = DoRaw N c1 f (WriteTimeout (rcfg R)) readTO"
    by (simp add: f_def Do_def split: option.splits)
  from DoRaw_router [OF net R1(1) f, of "WriteTimeout (rcfg R)" readTO] obtain c2 R2 where
    d: "onNet (DoRaw N c1 f (WriteTimeout (rcfg R)) readTO) R1 = Some (Ok (Ok (got (fst (serve K (data K (world R)) b asking x))), c2), R2)"
    and R2: "lent K R2 b i c2" "nc c2 = nc c1" "asked K (world R2) (nc c1) = (x = askingCmd)" "sameCore R1 R2"
      "data K (world R2) = snd (serve K (data K (world R)) b asking x)"
    using R1 by auto
  have "\<not> asked K (world R2) (nc c2)" using x R2 by (auto simp: carries_def control_def)
  from Put_router [OF R2(1) this, of N] obtain R3 where
    p: "onPool i (Put N c2) R2 = Some (Ok (), R3)" "synced K R3" "sameCore R2 R3" "world R3 = world R2"
    by blast
  have "sendOn N i frame a readTO asking c R = Some (Ok (got (fst (serve K (data K (world R)) b asking x))), R3)"
    using ask d p(1) send by (simp add: sendOn_def)
  then show ?thesis
    using p R2 R1 by (auto intro: sameCore_trans)
qed

lemma hop_synced:
  assumes net: "cluster_net N K" and R: "synced K R" and x: "carries frame a x"
    and pick: "pickAddr slot (read \<and> \<not> asking) hint R = Some (Ok addr, R)"
  shows "\<exists>R'. hop N slot frame a read readTO asking hint R =
      Some (Ok (got (fst (serve K (data K (world R)) (rewriteAddr R addr) asking x))), R') \<and>
    synced K R' \<and> sameCore R R' \<and> data K (world R') = snd (serve K (data K (world R)) (rewriteAddr R addr) asking x)"
proof -
  let ?b = "rewriteAddr R addr"
  have ctx: "netCtxErr N (world R) = None" using net by (simp add: cluster_net_def)
  from poolFor_synced [OF net R] obtain i R1 where
    p: "poolFor N addr (read \<and> ReadFromReplicas (rcfg R)) R = Some (Ok i, R1)" and
    R1: "synced K R1" "(?b, i) \<in> set (rpools R1)" "sameCore R R1" "data K (world R1) = data K (world R)"
    by blast
  from Get_router [OF net R1(1,2)] obtain c R2 where
    g: "onPool i (Get N) R1 = Some (Ok c, R2)" and
    R2: "lent K R2 ?b i c" "\<not> asked K (world R2) (nc c)" "sameCore R1 R2" "data K (world R2) = data K (world R1)"
    by blast
  from sendOn_lent [OF net R2(1,2) x, of readTO asking] obtain R3 where
    s: "sendOn N i frame a readTO asking c R2 = Some (Ok (got (fst (serve K (data K (world R)) ?b asking x))), R3)" and
    R3: "synced K R3" "sameCore R2 R3" "data K (world R3) = snd (serve K (data K (world R)) ?b asking x)"
    using R1 R2 by auto
  have "hop N slot frame a read readTO asking hint R = Some (Ok (got (fst (serve K (data K (world R)) ?b asking x))), R3)"
    using ctx pick p g s by (simp add: hop_def)
  then show ?thesis
    using R1 R2 R3 by (auto intro: sameCore_trans)
qed

section \<open>Following redirects\<close>

text \<open>
  The abstract client: ask the node at an address, and while it answers with a redirect ask the
  node the redirect names, \<open>n\<close> times at most. The result is the last answer, the data
  afterwards and the redirects that say a slot has moved for good.
\<close>

definition redirectOf :: "Value \<Rightarrow> Redirect option" where
  "redirectOf v = (if IsError v then ParseRedirect (sl (vStr v)) else None)"

fun follow :: "('d \<Rightarrow> bytes \<Rightarrow> bool \<Rightarrow> argv \<Rightarrow> Value \<times> 'd) \<Rightarrow> (bytes \<Rightarrow> bytes) \<Rightarrow> nat \<Rightarrow> bytes \<Rightarrow> bool \<Rightarrow> argv \<Rightarrow>
    Value \<Rightarrow> 'd \<Rightarrow> Value \<times> 'd \<times> Redirect list" where
  "follow S rw 0 addr asking x lst d = (lst, d, [])"
| "follow S rw (Suc n) addr asking x lst d =
     (let (v, d1) = S d (rw addr) asking x in
      case redirectOf (got v) of
        None \<Rightarrow> (got v, d1, [])
      | Some red \<Rightarrow>
          let (u, d2, ms) = follow S rw n (Addr red) (Kind red \<noteq> ''MOVED'') x (got v) d1
          in (u, d2, if Kind red = ''MOVED'' then red # ms else ms))"

text \<open>The slot map after a number of moves.\<close>

primrec moveAll :: "Map \<Rightarrow> Redirect list \<Rightarrow> Map res" where
  "moveAll m [] = Ok m"
| "moveAll m (red # ms) = res_bind (UpdateSlot m (Slot red) (Addr red) []) (\<lambda>m'. moveAll m' ms)"

lemma synced_counts:
  assumes "synced K R" and "routerOK R'" and "rcfg R' = rcfg R" "rpools R' = rpools R" "heap R' = heap R" "world R' = world R"
  shows "synced K R'"
  using assms by (simp add: synced_def optsOK_def poolOptions_def)

lemma rewriteAddr_cfg: "rcfg R' = rcfg R \<Longrightarrow> rewriteAddr R' = rewriteAddr R"
  by (rule ext) (simp add: rewriteAddr_def)

lemma updateSlot_synced:
  assumes R: "synced K R" and slot: "unat slot < 16384" and addr: "addr \<noteq> []"
  shows "\<exists>m. UpdateSlot (slots R) slot addr [] = Ok m \<and> updateSlot slot addr R = Some (Ok (), R\<lparr>slots := m\<rparr>) \<and>
    synced K (R\<lparr>slots := m\<rparr>)"
proof -
  have ok: "routerOK R" and map_ok: "mapOK (slots R)" using R by (simp_all add: synced_def routerOK_def)
  have "\<exists>m. UpdateSlot (slots R) slot addr [] = Ok m"
    using UpdateSlot_eq [OF map_ok addr, of slot "[]"] slot by auto
  then obtain m where m: "UpdateSlot (slots R) slot addr [] = Ok m" ..
  then have run: "updateSlot slot addr R = Some (Ok (), R\<lparr>slots := m\<rparr>)" by (simp add: updateSlot_def)
  have "routerOK (R\<lparr>slots := m\<rparr>)"
    using ok mapOK_UpdateSlot [OF map_ok addr m] by (simp add: routerOK_def)
  then have "synced K (R\<lparr>slots := m\<rparr>)" by (rule synced_counts [OF R]) simp_all
  with m run show ?thesis by blast
qed

lemma hops_follow:
  assumes net: "cluster_net N K" and x: "carries frame a x" and R: "synced K R"
    and pick: "pickAddr slot (read \<and> \<not> asking) hint R = Some (Ok addr, R)"
    and spec: "follow (serve K) (rewriteAddr R) n addr asking x lst (data K (world R)) = (v, d, ms)"
  shows "\<exists>R'. hops N n slot frame a read readTO asking hint lst R = Some (Ok v, R') \<and> synced K R' \<and>
    data K (world R') = d \<and> moveAll (slots R) ms = Ok (slots R')"
  using R pick spec
proof (induction n arbitrary: slot read asking hint addr lst R v d ms)
  case (Suc n)
  obtain v1 d1 where v1: "serve K (data K (world R)) (rewriteAddr R addr) asking x = (v1, d1)" by fastforce
  from hop_synced [OF net Suc.prems(1) x Suc.prems(2)] v1 obtain R1 where
    hop: "hop N slot frame a read readTO asking hint R = Some (Ok (got v1), R1)" and
    R1: "synced K R1" "sameCore R R1" "data K (world R1) = d1"
    by auto
  show ?case
  proof (cases "redirectOf (got v1)")
    case None
    then have ans: "v = got v1" "d = d1" "ms = []" using Suc.prems(3) v1 by simp_all
    let ?R = "R1\<lparr>rcount := rcount R1 @ [(''backend_errors'', ''loading'')]\<rparr>"
    have "synced K ?R" by (rule synced_counts [OF R1(1)]) (use R1(1) in \<open>simp_all add: synced_def routerOK_def\<close>)
    then show ?thesis
      using hop None ans R1 by (auto simp: redirectOf_def sameCore_def inc_def split: if_splits option.splits)
  next
    case (Some red)
    then have red: "IsError (got v1)" "ParseRedirect (sl (vStr (got v1))) = Some red"
      by (auto simp: redirectOf_def split: if_splits)
    have parts: "unat (Slot red) < 16384" "Addr red \<noteq> []"
      by (rule ParseRedirect_sound [OF red(2)], assumption)+
    let ?R = "R1\<lparr>rcount := rcount R1 @ [(''redirects'', Kind red)]\<rparr>"
    have R: "synced K ?R" by (rule synced_counts [OF R1(1)]) (use R1(1) in \<open>simp_all add: synced_def routerOK_def\<close>)
    have pick: "pickAddr s r (Addr red) Q = Some (Ok (Addr red), Q)" for s r Q
      using parts by (simp add: pickAddr_def)
    have rw: "rcfg Q = rcfg R1 \<Longrightarrow> rewriteAddr Q = rewriteAddr R" for Q
      using R1(2) by (intro rewriteAddr_cfg) (simp add: sameCore_def)
    obtain u d2 ns where rest: "follow (serve K) (rewriteAddr R) n (Addr red) (Kind red \<noteq> ''MOVED'') x (got v1) d1 = (u, d2, ns)"
      by (metis prod_cases3)
    show ?thesis
    proof (cases "Kind red = ''MOVED''")
      case True
      from updateSlot_synced [OF R parts] obtain m where
        m: "UpdateSlot (slots ?R) (Slot red) (Addr red) [] = Ok m" "updateSlot (Slot red) (Addr red) ?R = Some (Ok (), ?R\<lparr>slots := m\<rparr>)"
          "synced K (?R\<lparr>slots := m\<rparr>)"
        by blast
      have "follow (serve K) (rewriteAddr (?R\<lparr>slots := m\<rparr>)) n (Addr red) False x (got v1) (data K (world (?R\<lparr>slots := m\<rparr>))) = (u, d2, ns)"
        using rest True R1(3) rw [of "?R\<lparr>slots := m\<rparr>"] by simp
      from Suc.IH [OF m(3) pick this] obtain R' where
        "hops N n (Slot red) frame a read readTO False (Addr red) (got v1) (?R\<lparr>slots := m\<rparr>) = Some (Ok u, R')"
        "synced K R'" "data K (world R') = d2" "moveAll m ns = Ok (slots R')"
        by auto
      then show ?thesis
        using hop red True m rest Suc.prems(3) v1 Some R1(2) by (auto simp: inc_def sameCore_def)
    next
      case False
      have "follow (serve K) (rewriteAddr ?R) n (Addr red) True x (got v1) (data K (world ?R)) = (u, d2, ns)"
        using rest False R1(3) rw [of ?R] by simp
      from Suc.IH [OF R pick this, of _ False] obtain R' where
        "hops N n (Slot red) frame a False readTO True (Addr red) (got v1) ?R = Some (Ok u, R')"
        "synced K R'" "data K (world R') = d2" "moveAll (slots ?R) ns = Ok (slots R')"
        by auto
      then show ?thesis
        using hop red False rest Suc.prems(3) v1 Some R1(2) by (auto simp: inc_def sameCore_def)
    qed
  qed
qed simp

section \<open>A simulated cluster\<close>

text \<open>
  A network that satisfies \<open>cluster_net\<close> for any nodes: connections are numbered, what is
  written is decoded and served at once, and the answers wait to be received.
\<close>

record 'd sim =
  nextc :: nat
  speer :: "nat \<Rightarrow> bytes option"
  sasked :: "nat \<Rightarrow> bool"
  ssent :: "nat \<Rightarrow> bytes"
  sdata :: 'd

fun decodeAll :: "nat \<Rightarrow> bytes \<Rightarrow> argv list" where
  "decodeAll 0 s = []"
| "decodeAll (Suc n) s = (case decodeCommand s of None \<Rightarrow> [] | Some (a, rest) \<Rightarrow> a # decodeAll n rest)"

definition simNet :: "('d \<Rightarrow> bytes \<Rightarrow> bool \<Rightarrow> argv \<Rightarrow> Value \<times> 'd) \<Rightarrow> 'd sim net" where
  "simNet S = \<lparr>
     netDial = (\<lambda>a t w. (Inr (nextc w), w\<lparr>nextc := nextc w + 1, speer := (speer w)(nextc w \<mapsto> a),
                  sasked := (sasked w)(nextc w := False), ssent := (ssent w)(nextc w := [])\<rparr>)),
     netHandshake = (\<lambda>i t w. (None, w)),
     netWrite = (\<lambda>i b t w. case speer w i of
         Some a \<Rightarrow> (case serveAll S (sdata w) a (sasked w i) (decodeAll (length b) b) of (rs, k, d) \<Rightarrow>
           (None, w\<lparr>sasked := (sasked w)(i := k), ssent := (ssent w)(i := ssent w i @ encs rs), sdata := d\<rparr>))
       | None \<Rightarrow> (Some EOF, w)),
     netRecv = (\<lambda>i t w. (Inr (ssent w i, EOF), w\<lparr>ssent := (ssent w)(i := [])\<rparr>)),
     netClose = (\<lambda>i w. w), netCtxErr = (\<lambda>w. None), netWake = (\<lambda>a w. (NoWake, w))\<rparr>"

text \<open>A number no connection has yet is free; the views are restricted to the numbers in use.\<close>

definition simCluster :: "('d \<Rightarrow> bytes \<Rightarrow> bool \<Rightarrow> argv \<Rightarrow> Value \<times> 'd) \<Rightarrow> ('d sim, 'd) cluster" where
  "simCluster S = \<lparr>peer = (\<lambda>w i. if i < nextc w then speer w i else None), asked = sasked, sent = ssent, data = sdata, serve = S\<rparr>"

lemma decodeAll_meaning:
  "list_all2 meaning fs xs \<Longrightarrow> length fs \<le> n \<Longrightarrow> decodeAll n (concat fs) = xs"
proof (induction fs xs arbitrary: n rule: list_all2_induct)
  case (Cons f fs x xs)
  then show ?case by (cases n) (simp_all add: meaning_def)
next
  case Nil
  then show ?case using cmd.decode_Nil by (cases n) simp_all
qed

lemma meaning_not_Nil: "meaning f x \<Longrightarrow> f \<noteq> []"
  using cmd.decode_Nil by (auto simp: meaning_def)

lemma length_concat_meaning: "list_all2 meaning fs xs \<Longrightarrow> length fs \<le> length (concat fs)"
proof (induction fs xs rule: list_all2_induct)
  case (Cons f fs x xs)
  then have "1 \<le> length f" using meaning_not_Nil by (cases f) auto
  with Cons.IH show ?case by simp
qed simp

lemma sim_answers: "answers_in_order (simNet S) (simCluster S)"
proof -
  have "decodeAll (length (concat fs)) (concat fs) = xs" if "list_all2 meaning fs xs" for fs xs
    using decodeAll_meaning [OF that length_concat_meaning [OF that]] .
  then show ?thesis
    by (auto simp: answers_in_order_def simNet_def simCluster_def split: prod.split if_splits)
qed

lemma cluster_net_sim:
  assumes "\<And>d a k x. wireable (fst (S d a k x))" and "\<And>d a k x. control x \<Longrightarrow> S d a k x = (SimpleString ''OK'', d)"
  shows "cluster_net (simNet S) (simCluster S)"
proof -
  have "dials_peer (simNet S) (simCluster S)"
    by (auto simp: dials_peer_def simNet_def simCluster_def fun_eq_iff)
  moreover have "delivers (simNet S) (simCluster S)"
    by (auto simp: delivers_def simNet_def simCluster_def)
  ultimately show ?thesis
    using assms sim_answers [of S] by (simp add: cluster_net_def) (simp add: simNet_def simCluster_def)
qed

section \<open>Properties\<close>

text \<open>
  C2. Redirects are transparent. Over a cluster that works, a command that the router executes
  behaves like the abstract client that asks the node of the slot and goes where the redirects
  lead, \<open>ASKING\<close> sent exactly before a command redirected by \<open>ASK\<close>, at most
  \<open>MovedHopLimit\<close> times: the call returns the same reply, the nodes' data change in the same
  way, the slot map is patched by exactly the \<open>MOVED\<close> redirects met, in their order, and
  every connection is back in its pool with nothing outstanding.
\<close>

theorem execFrame_follows_redirects:
  assumes "cluster_net N K" and "synced K R" and "carries frame a x"
    and "pickAddr slot (read \<and> \<not> asking) [] R = Some (Ok addr, R)"
    and "follow (serve K) (rewriteAddr R) (nat (MovedHopLimit (rcfg R))) addr asking x zeroValue (data K (world R)) = (v, d, ms)"
  shows "\<exists>R'. execFrame N slot frame a read readTO asking R = Some (Ok v, R') \<and> synced K R' \<and>
    data K (world R') = d \<and> moveAll (slots R) ms = Ok (slots R')"
  using hops_follow [OF assms(1,3,2,4,5)] by (simp add: execFrame_def)

text \<open>Node \<open>a:1\<close> has given slot 5 to \<open>b:1\<close>, which counts the commands it serves.\<close>

definition movedServe :: "nat \<Rightarrow> bytes \<Rightarrow> bool \<Rightarrow> argv \<Rightarrow> Value \<times> nat" where
  "movedServe d addr asking x =
     (if control x then (SimpleString ''OK'', d)
      else if addr = ''a:1'' then (Error ''MOVED 5 b:1'', d)
      else (Integer 1, d + 1))"

definition simRouter :: "nat sim Router" where
  "simRouter = \<lparr>rcfg = demoConfig\<lparr>MovedHopLimit := 3\<rparr>, slots = \<lparr>ptr = None, gen = 0\<rparr>, rflavor = FlavorRedis, rpools = [], heap = [],
     rtls = False, ropen = CHR ''{'', rclose = CHR ''}'', rcount = [],
     world = \<lparr>nextc = 0, speer = (\<lambda>_. None), sasked = (\<lambda>_. False), ssent = (\<lambda>_. []), sdata = 0\<rparr>\<rparr>"

theorem execFrame_follows_redirects_witness:
  "\<exists>R'. execFrame (simNet movedServe) 5 None [Some ''INCR'', Some ''k''] False 0 False simRouter = Some (Ok (got (Integer 1)), R') \<and>
    sdata (world R') = 1 \<and> UpdateSlot (slots simRouter) 5 ''b:1'' [] = Ok (slots R')"
proof -
  let ?x = "[Some ''INCR'', Some ''k'']"
  have red: "ParseRedirect ''MOVED 5 b:1'' = Some \<lparr>Kind = ''MOVED'', Slot = 5, Addr = ''b:1''\<rparr>"
    by (simp add: ParseRedirect_def Let_def atoi16_def upto_space_def is_digit_def)
  have net: "cluster_net (simNet movedServe) (simCluster movedServe)"
    by (rule cluster_net_sim) (auto simp: movedServe_def wireable.simps SimpleString_def Error_def Integer_def line_type_def int64_def)
  have R: "synced (simCluster movedServe) simRouter"
    by (simp add: synced_def simRouter_def routerOK_def poolsOK_def heapOK_def optsOK_def poolOptions_def mapOK_def demoConfig_def Defaults_def)
  have x: "carries None ?x ?x" by (simp add: carries_def control_def wf_argv_def)
  have pick: "pickAddr 5 (False \<and> \<not> False) [] simRouter = Some (Ok ''a:1'', simRouter)"
    by (simp add: pickAddr_def RouteSlot_def AnyMaster_def simRouter_def demoConfig_def Load_def)
  have rw: "rewriteAddr simRouter = (\<lambda>a. a)"
    by (rule ext) (simp add: rewriteAddr_def simRouter_def demoConfig_def Defaults_def)
  have f: "follow (serve (simCluster movedServe)) (rewriteAddr simRouter) (nat (MovedHopLimit (rcfg simRouter))) ''a:1'' False ?x zeroValue
      (data (simCluster movedServe) (world simRouter)) = (got (Integer 1), 1, [\<lparr>Kind = ''MOVED'', Slot = 5, Addr = ''b:1''\<rparr>])"
    unfolding rw by (simp add: simRouter_def simCluster_def movedServe_def control_def redirectOf_def got_def
      numeral_3_eq_3 canon.simps IsError_def line_type_def red Error_def Integer_def clone_def)
  from execFrame_follows_redirects [OF net R x pick f, of 0] show ?thesis
    by (auto simp: res_bind_eq_Ok simCluster_def)
qed

end
