(* ===== verification/Pubsub_Session.thy ===== *)
theory Pubsub_Session
  imports Cluster_Net Command_DB
begin

text \<open>
  \<open>internal/pubsub/pubsub.go\<close>: the subscriber side of one client. Every node the client
  subscribes on has a backend: a connection, a reader goroutine (\<open>forward\<close>) and the
  acknowledgements the reader has passed on. The reader runs when somebody waits for an
  acknowledgement (\<open>waitAck\<close>) or when the network is scheduled (\<open>forward\<close> as a step of its
  own); \<open>patience\<close> is how many values it passes on before the timer of a wait fires, any
  number. A goroutine started by \<open>maybeResub\<close> is a channel in \<open>resubs\<close> until it runs. The
  capacities of the two Go channels (16 and 64) are not modelled.
\<close>

section \<open>State\<close>

datatype Mode = ModePassthrough | ModeShardedRewrite

record backend =
  bPool :: nat
  bConn :: Conn
  acks :: "Value list"
  alive :: bool

record Session =
  mode :: Mode
  psWriteTO :: int
  psReadTO :: int
  subs :: "(bytes \<times> bytes) list"
  backends :: "(bytes \<times> backend) list"
  subCount :: int
  pushes :: "Value list"
  resubs :: "bytes list"
  patience :: nat

type_synonym 'w ps = "Session \<times> 'w Router"

abbreviation onR :: "('w Router, 'a) io \<Rightarrow> ('w ps, 'a) io" where
  "onR \<equiv> zoom snd (\<lambda>R (p, _). (p, R))"

abbreviation modP :: "(Session \<Rightarrow> Session) \<Rightarrow> ('w ps, unit) io" where
  "modP f \<equiv> modify (\<lambda>(p, R). (f p, R))"

definition NewSession :: "int \<Rightarrow> int \<Rightarrow> nat \<Rightarrow> 'w Router \<Rightarrow> Session" where
  "NewSession wt rt n R =
     \<lparr>mode = (if FlavorOf R = FlavorDragonfly then ModeShardedRewrite else ModePassthrough),
      psWriteTO = wt, psReadTO = rt, subs = [], backends = [], subCount = 0, pushes = [], resubs = [], patience = n\<rparr>"

definition putBackend :: "bytes \<Rightarrow> backend \<Rightarrow> Session \<Rightarrow> Session" where
  "putBackend addr be p = p\<lparr>backends := AList.update addr be (backends p)\<rparr>"

section \<open>Messages\<close>

text \<open>
  \<open>bytes.EqualFold\<close> against an ASCII word: besides the letters in either case, the long s
  (bytes C5 BF) folds to s and the Kelvin sign (E2 84 AA) to k.
\<close>

fun EqualFold :: "bytes \<Rightarrow> bytes \<Rightarrow> bool" where
  "EqualFold s [] \<longleftrightarrow> s = []"
| "EqualFold [] (c # cs) \<longleftrightarrow> False"
| "EqualFold (b # bs) (c # cs) \<longleftrightarrow>
     (if lower_byte b = lower_byte c then EqualFold bs cs
      else if lower_byte c = CHR ''s'' \<and> b = CHR 0xC5 \<and> take 1 bs = [CHR 0xBF] then EqualFold (tl bs) cs
      else if lower_byte c = CHR ''k'' \<and> b = CHR 0xE2 \<and> take 2 bs = [CHR 0x84, CHR 0xAA] then EqualFold (drop 2 bs) cs
      else False)"

definition isAck :: "Value \<Rightarrow> bool" where
  "isAck v \<longleftrightarrow> (vType v = TypeArray \<or> vType v = TypePush) \<and> vValues v \<noteq> [] \<and>
     list_ex (\<lambda>k. EqualFold (sl (vStr (vValues v ! 0))) k)
       [''subscribe'', ''ssubscribe'', ''unsubscribe'', ''sunsubscribe'', ''psubscribe'', ''punsubscribe'']"

definition isUnsub :: "Value \<Rightarrow> bool" where
  "isUnsub v \<longleftrightarrow> vValues v \<noteq> [] \<and>
     (EqualFold (sl (vStr (vValues v ! 0))) ''unsubscribe'' \<or> EqualFold (sl (vStr (vValues v ! 0))) ''sunsubscribe'')"

definition clientAck :: "Value \<Rightarrow> bytes \<Rightarrow> slice \<Rightarrow> int \<Rightarrow> bool \<Rightarrow> Value" where
  "clientAck v kind ch n rewrite =
     (if \<not> rewrite \<and> vRaw v \<noteq> [] then v
      else Array [BulkString (Some kind), BulkString ch, Integer n])"

definition renameKind :: "Value \<Rightarrow> bytes \<Rightarrow> Value" where
  "renameKind v k = setRaw (setValues v ((vValues v)[0 := putStr (vValues v ! 0) (Some k)])) []"

definition rewriteIncoming :: "Value \<Rightarrow> Value" where
  "rewriteIncoming v =
     (if (vType v \<noteq> TypeArray \<and> vType v \<noteq> TypePush) \<or> vValues v = [] then v
      else let k = sl (vStr (vValues v ! 0)) in
        if EqualFold k ''smessage'' then renameKind v ''message''
        else if EqualFold k ''ssubscribe'' then renameKind v ''subscribe''
        else if EqualFold k ''sunsubscribe'' then renameKind v ''unsubscribe''
        else v)"

definition RewritePublish :: "Flavor \<Rightarrow> argv \<Rightarrow> argv \<times> bool" where
  "RewritePublish flavor a =
     (if flavor \<noteq> FlavorDragonfly \<or> length a < 2 then (a, False)
      else if ClassifyPubSub (sl (a ! 0)) \<noteq> PubSubPublish then (a, False)
      else (a[0 := Some ''SPUBLISH''], True))"

section \<open>The reader\<close>

definition maybeResub :: "Value \<Rightarrow> ('w ps, bool) io" where
  "maybeResub v =
     (if length (vValues v) < 2 then ret False
      else let ch = sl (vStr (vValues v ! 1)) in
        withS (\<lambda>(p, R). case map_of (subs p) ch of
          None \<Rightarrow> ret False
        | Some _ \<Rightarrow> thenE (onR (inc ''pubsub_resub'' [])) (thenE (modP (\<lambda>p. p\<lparr>resubs := resubs p @ [ch]\<rparr>)) (ret True))))"

definition toAcks :: "bytes \<Rightarrow> Value \<Rightarrow> ('w ps, unit) io" where
  "toAcks addr v = modP (\<lambda>p. case map_of (backends p) addr of
     Some be \<Rightarrow> putBackend addr (be\<lparr>acks := acks be @ [v]\<rparr>) p
   | None \<Rightarrow> p)"

definition deliver :: "bytes \<Rightarrow> Value \<Rightarrow> ('w ps, unit) io" where
  "deliver addr v = withS (\<lambda>(p, R).
     let w = (if mode p = ModeShardedRewrite then rewriteIncoming v else v) in
     if isAck v then
       (if isUnsub w then bindE (maybeResub w) (\<lambda>handled. if handled then ret () else toAcks addr w)
        else toAcks addr w)
     else modP (\<lambda>p. p\<lparr>pushes := pushes p @ [w]\<rparr>))"

text \<open>One turn of the loop of \<open>forward\<close>.\<close>

definition forward :: "'w net \<Rightarrow> bytes \<Rightarrow> ('w ps, unit) io" where
  "forward N addr = withS (\<lambda>(p, R). case map_of (backends p) addr of
     None \<Rightarrow> ret ()
   | Some be \<Rightarrow>
       if \<not> alive be then ret ()
       else if netCtxErr N (world R) \<noteq> None then modP (putBackend addr (be\<lparr>alive := False\<rparr>))
       else bindE (onR (onNet (ReadConn N (bConn be) (psReadTO p)))) (\<lambda>(r, c). case r of
         Err e \<Rightarrow> withS (\<lambda>(p, R). modP (putBackend addr (be\<lparr>bConn := c, alive := \<not> (e = EOF \<or> netCtxErr N (world R) \<noteq> None)\<rparr>)))
       | Panic \<Rightarrow> liftR Panic
       | Ok v \<Rightarrow> thenE (modP (putBackend addr (be\<lparr>bConn := c\<rparr>))) (deliver addr v)))"

section \<open>Commands\<close>

definition errAckTimeout :: gerr where
  "errAckTimeout = GoErr ''timeout waiting for subscribe ack''"

primrec waitAck :: "'w net \<Rightarrow> nat \<Rightarrow> bytes \<Rightarrow> ('w ps, Value) io" where
  "waitAck N 0 addr = withS (\<lambda>(p, R). case map_of (backends p) addr of
     Some be \<Rightarrow> (case acks be of
         v # vs \<Rightarrow> thenE (modP (putBackend addr (be\<lparr>acks := vs\<rparr>))) (ret v)
       | [] \<Rightarrow> fail (case netCtxErr N (world R) of Some e \<Rightarrow> e | None \<Rightarrow> errAckTimeout))
   | None \<Rightarrow> fail errAckTimeout)"
| "waitAck N (Suc n) addr = withS (\<lambda>(p, R). case map_of (backends p) addr of
     Some be \<Rightarrow> (case acks be of
         v # vs \<Rightarrow> thenE (modP (putBackend addr (be\<lparr>acks := vs\<rparr>))) (ret v)
       | [] \<Rightarrow> (case netCtxErr N (world R) of
           Some e \<Rightarrow> fail e
         | None \<Rightarrow> thenE (forward N addr) (waitAck N n addr)))
   | None \<Rightarrow> fail errAckTimeout)"

definition ensureBackend :: "'w net \<Rightarrow> bytes \<Rightarrow> ('w ps, unit) io" where
  "ensureBackend N addr = withS (\<lambda>(p, R). case map_of (backends p) addr of
     Some be \<Rightarrow> ret ()
   | None \<Rightarrow> bindE (onR (CheckoutAddr N addr)) (\<lambda>(c, i).
       modP (putBackend addr \<lparr>bPool = i, bConn = c, acks = [], alive = True\<rparr>)))"

text \<open>
  The exchange with a backend: \<open>ensureBackend\<close>, \<open>WriteRaw\<close>, \<open>waitAck\<close>, the error of any of
  them returned.
\<close>

definition sendTo :: "'w net \<Rightarrow> bytes \<Rightarrow> argv \<Rightarrow> ('w ps, unit) io" where
  "sendTo N addr a = withS (\<lambda>(p, R). case map_of (backends p) addr of
     Some be \<Rightarrow> onR (onNet (WriteRaw N (bConn be) (EncodeCommand [] a) (psWriteTO p)))
   | None \<Rightarrow> ret ())"

definition exchange :: "'w net \<Rightarrow> bytes \<Rightarrow> argv \<Rightarrow> ('w ps, Value) io" where
  "exchange N addr a =
     thenE (ensureBackend N addr) (thenE (sendTo N addr a) (withS (\<lambda>(p, R). waitAck N (patience p) addr)))"

definition nodeFor :: "'w Router \<Rightarrow> slice \<Rightarrow> Node option" where
  "nodeFor R ch = (case RouteSlot R (SlotOf R (sl ch)) False of Some n \<Rightarrow> Some n | None \<Rightarrow> AnyMaster R)"

definition addSub :: "bytes \<Rightarrow> bytes \<Rightarrow> Session \<Rightarrow> Session" where
  "addSub ch addr p =
     p\<lparr>subCount := (if map_of (subs p) ch = None then subCount p + 1 else subCount p), subs := AList.update ch addr (subs p)\<rparr>"

fun subscribeLoop :: "'w net \<Rightarrow> bytes \<Rightarrow> bytes \<Rightarrow> bool \<Rightarrow> argv \<Rightarrow> Value list \<Rightarrow> ('w ps, Value list) io" where
  "subscribeLoop N cmd kind rewrite [] replies = ret replies"
| "subscribeLoop N cmd kind rewrite (ch # chs) replies = withS (\<lambda>(p, R). case nodeFor R ch of
     None \<Rightarrow> ret [Error ''ERR no backend nodes'']
   | Some n \<Rightarrow> tryE (exchange N (nAddr n) [Some cmd, ch]) (\<lambda>r. case r of
       Ok ack \<Rightarrow> thenE (modP (addSub (sl ch) (nAddr n)))
           (withS (\<lambda>(p, R). subscribeLoop N cmd kind rewrite chs (replies @ [clientAck ack kind ch (subCount p) rewrite])))
     | Err e \<Rightarrow> ret [Error (''ERR '' @ err_string e)]
     | Panic \<Rightarrow> liftR Panic))"

definition subscribe :: "'w net \<Rightarrow> argv \<Rightarrow> bool \<Rightarrow> ('w ps, Value list) io" where
  "subscribe N channels fromGlobal = withS (\<lambda>(p, R).
     let rewrite = (mode p = ModeShardedRewrite \<and> fromGlobal) in
     if channels = [] then ret [Error ''ERR wrong number of arguments for 'subscribe' command'']
     else thenE (if rewrite then onR (inc ''pubsub_rewrites'' []) else ret ())
       (subscribeLoop N (if rewrite \<or> \<not> fromGlobal then ''SSUBSCRIBE'' else ''SUBSCRIBE'')
          (if fromGlobal then ''subscribe'' else ''ssubscribe'') rewrite channels []))"

definition removeSub :: "bytes \<Rightarrow> Session \<Rightarrow> Session" where
  "removeSub ch p = p\<lparr>subs := AList.delete ch (subs p), subCount := (if subCount p > 0 then subCount p - 1 else subCount p)\<rparr>"

text \<open>The acknowledgement of an \<open>UNSUBSCRIBE\<close>, if there is a backend and it comes in time.\<close>

definition unsubAck :: "'w net \<Rightarrow> bytes \<Rightarrow> slice \<Rightarrow> ('w ps, Value option) io" where
  "unsubAck N cmd ch = withS (\<lambda>(p, R).
     let addr = (case map_of (subs p) (sl ch) of Some a \<Rightarrow> a | None \<Rightarrow> []) in
     case map_of (backends p) addr of
       None \<Rightarrow> ret None
     | Some be \<Rightarrow>
         tryE (sendTo N addr [Some cmd, ch]) (\<lambda>_.
         tryE (waitAck N (patience p) addr) (\<lambda>r. ret (case r of Ok v \<Rightarrow> Some v | _ \<Rightarrow> None))))"

fun unsubscribeLoop :: "'w net \<Rightarrow> bytes \<Rightarrow> bytes \<Rightarrow> bool \<Rightarrow> argv \<Rightarrow> Value list \<Rightarrow> ('w ps, Value list) io" where
  "unsubscribeLoop N cmd kind rewrite [] replies = ret replies"
| "unsubscribeLoop N cmd kind rewrite (ch # chs) replies =
     bindE (unsubAck N cmd ch) (\<lambda>ack.
     thenE (modP (removeSub (sl ch)))
       (withS (\<lambda>(p, R). unsubscribeLoop N cmd kind rewrite chs (replies @
          [case ack of
             Some v \<Rightarrow> clientAck v kind ch (subCount p) rewrite
           | None \<Rightarrow> Array [BulkString (Some kind), BulkString ch, Integer (subCount p)]]))))"

definition unsubscribe :: "'w net \<Rightarrow> argv \<Rightarrow> bool \<Rightarrow> ('w ps, Value list) io" where
  "unsubscribe N channels fromGlobal = withS (\<lambda>(p, R).
     let rewrite = (mode p = ModeShardedRewrite \<and> fromGlobal) in
     unsubscribeLoop N (if rewrite \<or> \<not> fromGlobal then ''SUNSUBSCRIBE'' else ''UNSUBSCRIBE'')
       (if fromGlobal then ''unsubscribe'' else ''sunsubscribe'') rewrite
       (if channels = [] then map (\<lambda>(ch, _). Some ch) (subs p) else channels) [])"

definition passOn :: "'w net \<Rightarrow> argv \<Rightarrow> ('w ps, Value list) io" where
  "passOn N a = withS (\<lambda>(p, R). case AnyMaster R of
     None \<Rightarrow> ret [Error ''ERR no backend nodes'']
   | Some n \<Rightarrow> tryE (exchange N (nAddr n) a) (\<lambda>r. case r of
       Ok ack \<Rightarrow> ret [ack]
     | Err e \<Rightarrow> ret [Error (''ERR '' @ err_string e)]
     | Panic \<Rightarrow> liftR Panic))"

definition HandleClientCmd :: "'w net \<Rightarrow> argv \<Rightarrow> ('w ps, Value list) io" where
  "HandleClientCmd N a =
     (if a = [] then fail (GoErr ''empty'')
      else withS (\<lambda>(p, R). case ClassifyPubSub (sl (a ! 0)) of
        PubSubPSubscribe \<Rightarrow>
          if mode p = ModeShardedRewrite then ret [Error ''ERR PSUBSCRIBE is not supported against Dragonfly cluster''] else passOn N a
      | PubSubPUnsubscribe \<Rightarrow>
          if mode p = ModeShardedRewrite then ret [Error ''ERR PSUBSCRIBE is not supported against Dragonfly cluster''] else passOn N a
      | PubSubSubscribe \<Rightarrow> subscribe N (tl a) True
      | PubSubSSubscribe \<Rightarrow> subscribe N (tl a) False
      | PubSubUnsubscribe \<Rightarrow> unsubscribe N (tl a) True
      | PubSubSUnsubscribe \<Rightarrow> unsubscribe N (tl a) False
      | _ \<Rightarrow> ret [Error ''ERR only (UN)SUBSCRIBE / PING / QUIT allowed in this mode'']))"

text \<open>A goroutine of \<open>maybeResub\<close>; its replies are thrown away.\<close>

definition runResub :: "'w net \<Rightarrow> ('w ps, unit) io" where
  "runResub N = withS (\<lambda>(p, R). case resubs p of
     [] \<Rightarrow> ret ()
   | ch # chs \<Rightarrow> thenE (modP (\<lambda>p. p\<lparr>resubs := chs\<rparr>)) (thenE (subscribe N [Some ch] True) (ret ())))"

definition CloseSession :: "'w net \<Rightarrow> ('w ps, unit) io" where
  "CloseSession N = withS (\<lambda>(p, R).
     thenE (forE (\<lambda>(addr, be). onR (onPool (bPool be) (Drop N (bConn be)))) (backends p))
       (modP (\<lambda>p. p\<lparr>backends := [], subs := []\<rparr>)))"

section \<open>The router's invariant\<close>

abbreviation psOK :: "'w ps \<Rightarrow> bool" where
  "psOK s \<equiv> routerOK (snd s)"

lemma keeps_onR: "keeps routerOK m \<Longrightarrow> keeps psOK (onR m)"
  by (rule keeps_zoom [where I = routerOK]) auto

lemma keeps_modP [io_rule]: "keeps psOK (modP f)"
  by (rule keeps_modify) auto

lemmas keeps_ps [io_rule] = keeps_onR [OF keeps_onNet] keeps_onR [OF keeps_inc] keeps_onR [OF keeps_Checkout(2)] keeps_onR [OF keeps_pools(3)]

lemma keeps_forward [io_rule]: "keeps psOK (forward N addr)"
  unfolding forward_def deliver_def maybeResub_def toAcks_def by (intro io_rule)

lemma keeps_waitAck [io_rule]: "keeps psOK (waitAck N n addr)"
  by (induction n) (unfold waitAck.simps, (intro io_rule, assumption?)+)

lemma keeps_exchange [io_rule]: "keeps psOK (exchange N addr a)"
  unfolding exchange_def ensureBackend_def sendTo_def by (intro io_rule)

lemma keeps_subscribeLoop [io_rule]: "keeps psOK (subscribeLoop N cmd kind rewrite chs replies)"
  by (induction chs arbitrary: replies) (unfold subscribeLoop.simps, (intro io_rule, assumption?)+)

lemma keeps_unsubscribeLoop [io_rule]: "keeps psOK (unsubscribeLoop N cmd kind rewrite chs replies)"
  by (induction chs arbitrary: replies) (unfold unsubscribeLoop.simps unsubAck_def sendTo_def, (intro io_rule, assumption?)+)

lemma keeps_subscriber [io_rule]:
  "keeps psOK (HandleClientCmd N a)" "keeps psOK (runResub N)" "keeps psOK (CloseSession N)"
proof -
  have sub: "keeps psOK (subscribe N chs g)" "keeps psOK (unsubscribe N chs g)" for chs g
    unfolding subscribe_def unsubscribe_def by (intro io_rule)+
  have pass: "keeps psOK (passOn N a)" for a
    unfolding passOn_def by (intro io_rule)
  show "keeps psOK (HandleClientCmd N a)"
    unfolding HandleClientCmd_def
    by (intro io_rule) (auto intro!: sub pass ensures_if keeps_basic split: PubSubOp.split)
  show "keeps psOK (runResub N)" "keeps psOK (CloseSession N)"
    unfolding runResub_def CloseSession_def by (intro io_rule sub)+
qed

section \<open>Waiting for nothing\<close>

text \<open>A backend at \<open>addr\<close> on which nothing is under way and no acknowledgement waits.\<close>

definition quiet :: "('w, 'd) cluster \<Rightarrow> bytes \<Rightarrow> bytes \<Rightarrow> 'w ps \<Rightarrow> bool" where
  "quiet K a addr s \<longleftrightarrow> (\<exists>be. map_of (backends (fst s)) addr = Some be \<and> acks be = [] \<and> connOK K (world (snd s)) a (bConn be))"

text \<open>What the client sees of a subscriber session.\<close>

abbreviation view :: "Session \<Rightarrow> Mode \<times> (bytes \<times> bytes) list \<times> int \<times> bytes list \<times> Value list \<times> nat" where
  "view p \<equiv> (mode p, subs p, subCount p, resubs p, pushes p, patience p)"

lemma putBackend_simps [simp]:
  "mode (putBackend addr be p) = mode p" "subs (putBackend addr be p) = subs p"
  "subCount (putBackend addr be p) = subCount p" "resubs (putBackend addr be p) = resubs p"
  "pushes (putBackend addr be p) = pushes p" "patience (putBackend addr be p) = patience p"
  "psReadTO (putBackend addr be p) = psReadTO p" "map_of (backends (putBackend addr be p)) addr = Some be"
  by (simp_all add: putBackend_def update_conv')

lemma ReadValue_Nil: "inp r = [] \<Longrightarrow> \<exists>r'. ReadValue r = (Err (fin r), r') \<and> inp r' = []"
  by (simp add: ReadValue_def readValue.simps readLine_ref)

lemma ReadConn_nothing:
  assumes net: "cluster_net N K" and c: "connOK K w a c"
  shows "\<exists>e c' w'. ReadConn N c t w = Some (Ok (Err e, c'), w') \<and> connOK K w' a c' \<and> data K w' = data K w"
proof -
  have p: "peer K w (nc c) = Some a" and s: "sent K w (nc c) = []" and i: "inp (rd c) = []"
    using c by (simp_all add: connOK_def)
  have "delivers N K" using net by (simp add: cluster_net_def)
  then obtain e w' where w': "netRecv N (nc c) t w = (Inr ([], e), w')" "peer K w' = peer K w" "data K w' = data K w"
    "sent K w' = (sent K w)(nc c := [])"
    using p s unfolding delivers_def by fastforce
  obtain r where "ReadValue ((rd c)\<lparr>inp := [], fin := e\<rparr>) = (Err e, r)" "inp r = []"
    using ReadValue_Nil [of "(rd c)\<lparr>inp := [], fin := e\<rparr>"] by auto
  then show ?thesis
    using w' p i by (auto simp: ReadConn_def connOK_def)
qed

lemma forward_quiet:
  assumes net: "cluster_net N K" and q: "quiet K a addr (p, R)"
  shows "\<exists>p' R'. forward N addr (p, R) = Some (Ok (), (p', R')) \<and> quiet K a addr (p', R') \<and> view p' = view p"
proof -
  obtain be where be: "map_of (backends p) addr = Some be" "acks be = []" "connOK K (world R) a (bConn be)"
    using q by (auto simp: quiet_def)
  have ctx: "netCtxErr N w = None" for w using net by (simp add: cluster_net_def)
  from ReadConn_nothing [OF net be(3), of "psReadTO p"] obtain e c w' where
    r: "ReadConn N (bConn be) (psReadTO p) (world R) = Some (Ok (Err e, c), w')" "connOK K w' a c" by blast
  show ?thesis
  proof (cases "alive be")
    case False
    then show ?thesis using be q by (auto simp: forward_def)
  next
    case True
    let ?be = "be\<lparr>bConn := c, alive := e \<noteq> EOF\<rparr>"
    have "forward N addr (p, R) = Some (Ok (), (putBackend addr ?be p, R\<lparr>world := w'\<rparr>))"
      using be True r(1) by (simp add: forward_def ctx zoom_def)
    then show ?thesis using be(2) r(2) by (auto simp: quiet_def)
  qed
qed

lemma waitAck_quiet:
  assumes net: "cluster_net N K"
  shows "quiet K a addr (p, R) \<Longrightarrow>
    \<exists>p' R'. waitAck N n addr (p, R) = Some (Err errAckTimeout, (p', R')) \<and> quiet K a addr (p', R') \<and> view p' = view p"
proof (induction n arbitrary: p R)
  case 0
  have ctx: "netCtxErr N w = None" for w using net by (simp add: cluster_net_def)
  show ?case using 0 by (auto simp: quiet_def ctx)
next
  case (Suc n)
  have ctx: "netCtxErr N w = None" for w using net by (simp add: cluster_net_def)
  from forward_quiet [OF net Suc.prems] obtain p1 R1 where
    f: "forward N addr (p, R) = Some (Ok (), (p1, R1))" "quiet K a addr (p1, R1)" "view p1 = view p" by blast
  from Suc.IH [OF f(2)] f Suc.prems show ?case by (auto simp: quiet_def ctx)
qed

section \<open>Leaving a channel\<close>

text \<open>The acknowledgement a node sends for an \<open>UNSUBSCRIBE\<close>.\<close>

abbreviation unsubReply :: "bytes \<Rightarrow> int \<Rightarrow> Value" where
  "unsubReply ch n \<equiv> Array [BulkString (Some ''unsubscribe''), BulkString (Some ch), Integer n]"

lemma got_unsubReply:
  "isAck (got (unsubReply ch n))" "isUnsub (got (unsubReply ch n))" "2 \<le> length (vValues (got (unsubReply ch n)))"
  "sl (vStr (vValues (got (unsubReply ch n)) ! 1)) = ch"
  by (simp_all add: got_def Array_def BulkString_def Integer_def canon.simps line_type_def isAck_def isUnsub_def clone_def)

lemma DoRaw_split:
  assumes "DoRaw N c f wt rt w = Some (Ok (Ok v, c'), w')"
  shows "\<exists>w1. WriteRaw N c f wt w = Some (Ok (), w1) \<and> ReadConn N c rt w1 = Some (Ok (Ok v, c'), w')"
  using assms by (auto simp: DoRaw_def tryE_def split: option.splits res.splits)

lemma unsubAck_swallowed:
  assumes net: "cluster_net N K" and sub: "map_of (subs p) ch = Some addr" and m: "mode p = ModePassthrough"
    and be: "map_of (backends p) addr = Some be" "acks be = []" "alive be" "connOK K (world R) a (bConn be)"
    and small: "length ch \<le> 512 * 1024 * 1024" and n: "1 \<le> patience p"
    and answer: "fst (serve K (data K (world R)) a (asked K (world R) (nc (bConn be))) [Some ''UNSUBSCRIBE'', Some ch]) = unsubReply ch k"
  shows "\<exists>p' R'. unsubAck N ''UNSUBSCRIBE'' (Some ch) (p, R) = Some (Ok None, (p', R')) \<and>
    view p' = view (p\<lparr>resubs := resubs p @ [ch]\<rparr>)"
proof -
  let ?x = "[Some ''UNSUBSCRIBE'', Some ch]" and ?v = "got (unsubReply ch k)"
  have ctx: "netCtxErr N w = None" for w using net by (simp add: cluster_net_def)
  have "meaning (EncodeCommand [] ?x) ?x"
    using small by (intro meaning_EncodeCommand) (simp add: wf_argv_def)
  from DoRaw_exchange [OF net be(4) this, of "psWriteTO p" "psReadTO p"] answer obtain c w2 where
    "DoRaw N (bConn be) (EncodeCommand [] ?x) (psWriteTO p) (psReadTO p) (world R) = Some (Ok (Ok ?v, c), w2)"
    and c: "connOK K w2 a c" by metis
  from DoRaw_split [OF this(1)] obtain w1 where
    wr: "WriteRaw N (bConn be) (EncodeCommand [] ?x) (psWriteTO p) (world R) = Some (Ok (), w1)" and
    rd: "ReadConn N (bConn be) (psReadTO p) w1 = Some (Ok (Ok ?v, c), w2)" by blast
  define p1 where "p1 = (putBackend addr (be\<lparr>bConn := c\<rparr>) p)\<lparr>resubs := resubs p @ [ch]\<rparr>"
  define R2 where "R2 = R\<lparr>world := w2, rcount := rcount R @ [(''pubsub_resub'', [])]\<rparr>"
  have send: "sendTo N addr ?x (p, R) = Some (Ok (), (p, R\<lparr>world := w1\<rparr>))"
    using be(1) wr by (simp add: sendTo_def zoom_def)
  have "deliver addr ?v (putBackend addr (be\<lparr>bConn := c\<rparr>) p, R\<lparr>world := w2\<rparr>) = Some (Ok (), (p1, R2))"
    using m sub got_unsubReply [of ch k]
    by (simp add: deliver_def maybeResub_def Let_def zoom_def inc_def p1_def R2_def)
  then have fwd: "forward N addr (p, R\<lparr>world := w1\<rparr>) = Some (Ok (), (p1, R2))"
    using be rd by (simp add: forward_def ctx zoom_def)
  have "quiet K a addr (p1, R2)" using be c by (simp add: quiet_def p1_def R2_def putBackend_def update_conv')
  from waitAck_quiet [OF net this, of "patience p - 1"] obtain p' R' where
    w: "waitAck N (patience p - 1) addr (p1, R2) = Some (Err errAckTimeout, (p', R'))" "view p' = view p1" by blast
  have "waitAck N (patience p) addr (p, R\<lparr>world := w1\<rparr>) = Some (Err errAckTimeout, (p', R'))"
    using n be fwd w(1) by (cases "patience p") (simp_all add: ctx)
  then show ?thesis
    using sub be(1) send w(2) by (auto simp: unsubAck_def p1_def putBackend_def)
qed

section \<open>Properties\<close>


text \<open>A node that acknowledges leaving \<open>news\<close>, and a client subscribed to it.\<close>

definition newsServe :: "unit \<Rightarrow> bytes \<Rightarrow> bool \<Rightarrow> argv \<Rightarrow> Value \<times> unit" where
  "newsServe d addr asking x = (if x = [Some ''UNSUBSCRIBE'', Some ''news''] then unsubReply ''news'' 0 else SimpleString ''OK'', d)"

definition newsRouter :: "unit sim Router" where
  "newsRouter = \<lparr>rcfg = demoConfig, slots = \<lparr>ptr = None, gen = 0\<rparr>, rflavor = FlavorRedis, rpools = [], heap = [],
     rtls = False, ropen = CHR ''{'', rclose = CHR ''}'', rcount = [],
     world = \<lparr>nextc = 1, speer = [0 \<mapsto> ''a:1''], sasked = (\<lambda>_. False), ssent = (\<lambda>_. []), sdata = ()\<rparr>\<rparr>"

definition newsReader :: Session where
  "newsReader = \<lparr>mode = ModePassthrough, psWriteTO = 1, psReadTO = 1, subs = [(''news'', ''a:1'')],
     backends = [(''a:1'', \<lparr>bPool = 0, bConn = \<lparr>nc = 0, rd = NewReader [] EOF\<rparr>, acks = [], alive = True\<rparr>)],
     subCount = 1, pushes = [], resubs = [], patience = 3\<rparr>"


end
