(* ===== verification/Proxy_State.thy ===== *)
theory Proxy_State
  imports Pubsub_Session Command_Fanout
begin

text \<open>
  The state of a client session (\<open>internal/proxy/session.go\<close>) and what every handler uses of
  it: replies, the pinned connection, reading from the client. The router is shared by all
  sessions; a session works on it while it handles a command. \<open>replied\<close> lists the values
  written to the client so far, \<open>observed\<close> the metric calls. \<open>sched n\<close> is the order in
  which \<open>n\<close> goroutines of one command finish, any permutation.
\<close>

section \<open>State\<close>

record 'w session =
  cfg :: Config
  rt :: "'w Router"
  cconn :: nat
  cr :: reader
  deadline :: int
  wfail :: "gerr option"
  replied :: "Value list"
  requireAuth :: bool
  authed :: bool
  clientPass :: bytes
  quit :: bool
  db :: int
  multi :: bool
  queued :: "argv list"
  watched :: argv
  pin :: "(Conn \<times> nat) option"
  pinGen :: "64 word"
  sub :: "Session option"
  observed :: "(bytes \<times> bytes) list"
  sched :: "nat \<Rightarrow> nat list"
  pace :: nat

abbreviation onRt :: "('w Router, 'a) io \<Rightarrow> ('w session, 'a) io" where
  "onRt \<equiv> zoom rt (\<lambda>R s. s\<lparr>rt := R\<rparr>)"

abbreviation onSub :: "('w ps, 'a) io \<Rightarrow> ('w session, 'a) io" where
  "onSub \<equiv> zoom (\<lambda>s. (the (sub s), rt s)) (\<lambda>(p, R) s. s\<lparr>sub := Some p, rt := R\<rparr>)"

definition newSession :: "Config \<Rightarrow> 'w Router \<Rightarrow> nat \<Rightarrow> (nat \<Rightarrow> nat list) \<Rightarrow> nat \<Rightarrow> 'w session" where
  "newSession c R i sc n =
     \<lparr>cfg = c, rt = R, cconn = i, cr = NewReaderSize [] EOF (256 * 1024), deadline = 0, wfail = None, replied = [],
      requireAuth = (ClientAuthPassword c \<noteq> []), authed = (ClientAuthPassword c = []), clientPass = ClientAuthPassword c,
      quit = False, db = 0, multi = False, queued = [], watched = [], pin = None, pinGen = 0, sub = None, observed = [],
      sched = sc, pace = n\<rparr>"

section \<open>Talking to the client\<close>

text \<open>The buffered writer keeps its first error.\<close>

definition sendClient :: "'w net \<Rightarrow> Value list \<Rightarrow> ('w session, unit) io" where
  "sendClient N vs = withS (\<lambda>s. case wfail s of
     Some e \<Rightarrow> fail e
   | None \<Rightarrow> tryE (onRt (onNet (\<lambda>w. case netWrite N (cconn s) (encs vs) (WriteTimeout (cfg s)) w of
         (Some e, w') \<Rightarrow> Some (Err e, w') | (None, w') \<Rightarrow> Some (Ok (), w')))) (\<lambda>r. case r of
       Err e \<Rightarrow> thenE (modify (\<lambda>s. s\<lparr>wfail := Some e\<rparr>)) (fail e)
     | _ \<Rightarrow> modify (\<lambda>s. s\<lparr>replied := replied s @ vs\<rparr>)))"

definition reply :: "'w net \<Rightarrow> Value \<Rightarrow> ('w session, unit) io" where
  "reply N v = sendClient N [v]"

abbreviation replyErr :: "'w net \<Rightarrow> gerr \<Rightarrow> ('w session, unit) io" where
  "replyErr N e \<equiv> reply N (Error (''ERR '' @ err_string e))"

definition observe :: "bytes \<Rightarrow> bytes \<Rightarrow> ('w session, unit) io" where
  "observe name result = modify (\<lambda>s. s\<lparr>observed := observed s @ [(name, result)]\<rparr>)"

text \<open>
  A read from the client sees the bytes left over, then what arrives before the deadline, then
  the error.
\<close>

definition readClient :: "'w net \<Rightarrow> ('w session, Value) io" where
  "readClient N = withS (\<lambda>s.
     bindE (onRt (onNet (\<lambda>w. case netRecv N (cconn s) (deadline s) w of
       (Inl e, w') \<Rightarrow> Some (Err e, w') | (Inr x, w') \<Rightarrow> Some (Ok x, w')))) (\<lambda>(bs, e).
     case ReadValue ((cr s)\<lparr>inp := inp (cr s) @ bs, fin := e\<rparr>) of
       (v, r) \<Rightarrow> thenE (modify (\<lambda>s. s\<lparr>cr := r\<rparr>)) (liftR v)))"

text \<open>\<open>Peek(1)\<close>: whether a byte arrives before the deadline.\<close>

definition peekClient :: "'w net \<Rightarrow> ('w session, bool) io" where
  "peekClient N = withS (\<lambda>s.
     tryE (onRt (onNet (\<lambda>w. case netRecv N (cconn s) (deadline s) w of
       (Inl e, w') \<Rightarrow> Some (Err e, w') | (Inr x, w') \<Rightarrow> Some (Ok x, w')))) (\<lambda>r. case r of
       Ok (bs, e) \<Rightarrow> thenE (modify (\<lambda>s. s\<lparr>cr := (cr s)\<lparr>inp := inp (cr s) @ bs, fin := e\<rparr>\<rparr>)) (ret (bs \<noteq> []))
     | _ \<Rightarrow> ret False))"

definition setDeadline :: "int \<Rightarrow> ('w session, unit) io" where
  "setDeadline t = modify (\<lambda>s. s\<lparr>deadline := t\<rparr>)"

section \<open>Transactions\<close>

definition dropPin :: "'w net \<Rightarrow> ('w session, unit) io" where
  "dropPin N = withS (\<lambda>s. case pin s of
     Some (c, i) \<Rightarrow> thenE (onRt (onPool i (Drop N c))) (modify (\<lambda>s. s\<lparr>pin := None\<rparr>))
   | None \<Rightarrow> ret ())"

definition resetTxn :: "'w net \<Rightarrow> ('w session, unit) io" where
  "resetTxn N = thenE (modify (\<lambda>s. s\<lparr>multi := False, queued := [], watched := []\<rparr>)) (dropPin N)"

definition upperName :: "slice \<Rightarrow> bytes" where
  "upperName b = UpperASCII (sl b)"

text \<open>\<open>name := "unknown"; if len(argv) > 0 { name = upperName(argv[0]) }\<close>\<close>

definition nameOf :: "argv \<Rightarrow> bytes" where
  "nameOf a = (if a = [] then ''unknown'' else upperName (a ! 0))"

text \<open>The copy of queued commands; \<open>append([]byte(nil), a...)\<close> turns an empty argument into nil.\<close>

definition copyArgv :: "argv \<Rightarrow> argv" where
  "copyArgv a = map (\<lambda>b. append_nil (sl b)) a"

definition isTimeout :: "gerr \<Rightarrow> bool" where
  "isTimeout e = (case e of NetErr m t \<Rightarrow> t | _ \<Rightarrow> False)"

end
