(* ===== verification/Proxy_Local.thy ===== *)
theory Proxy_Local
  imports Proxy_State
begin

text \<open>
  \<open>internal/proxy/local.go\<close>: the commands the proxy answers itself. \<open>handleLocal\<close> returns
  \<open>None\<close> where the code returns \<open>false\<close>. The version string can be replaced at link time;
  here it is the default of \<open>internal/version/version.go\<close>.
\<close>

section \<open>Fixed replies\<close>

definition errCluster :: Value where
  "errCluster = Error ''ERR This instance has cluster support disabled''"

definition errSwapDB :: Value where
  "errSwapDB = Error ''ERR SWAPDB is not supported''"

definition errFlushAll :: Value where
  "errFlushAll = Error ''ERR FLUSHALL is not supported; use FLUSHDB on a virtual database''"

definition errAuth :: Value where
  "errAuth = Error ''WRONGPASS invalid username-password pair or user is disabled.''"

definition errNoAuth :: Value where
  "errNoAuth = Error ''NOAUTH Authentication required.''"

definition errCross :: Value where
  "errCross = Error (''CROSSSLOT Keys in request don'' @ [CHR 0x27] @ ''t hash to the same slot'')"

definition errNoMulti :: Value where
  "errNoMulti = Error ''ERR EXEC without MULTI''"

definition errNested :: Value where
  "errNested = Error ''ERR MULTI calls can not be nested''"

definition errWatchTxn :: Value where
  "errWatchTxn = Error ''ERR WATCH inside MULTI is not allowed''"

definition queuedReply :: Value where
  "queuedReply = SimpleString ''QUEUED''"

definition plusPong :: Value where
  "plusPong = SimpleString ''PONG''"

definition errArgs :: "bytes \<Rightarrow> Value" where
  "errArgs cmd = Error (''ERR wrong number of arguments for '' @ [CHR 0x27] @ cmd @ [CHR 0x27] @ '' command'')"

abbreviation (input) bulk :: "bytes \<Rightarrow> Value" where
  "bulk b \<equiv> BulkString (Some b)"

definition Version :: bytes where
  "Version = ''dev''"

definition infoReply :: Value where
  "infoReply = bulk (''# Server'' @ CRLF @ ''redis_version:7.2.0'' @ CRLF @ ''redis_mode:standalone'' @ CRLF @ ''os:proxy'' @ CRLF @
     ''dcrp_version:'' @ Version @ CRLF @ ''cluster_enabled:0'' @ CRLF)"

definition helloReply :: Value where
  "helloReply = Array [bulk ''server'', bulk ''redis'', bulk ''version'', bulk ''7.2.0'', bulk ''proto'', Integer 2,
     bulk ''id'', Integer 1, bulk ''mode'', bulk ''standalone'', bulk ''role'', bulk ''master'', bulk ''modules'', Array []]"

text \<open>
  \<open>strings.ToUpper\<close>, as far as the comparison with an ASCII word can tell: besides the letters,
  the dotless i (C4 B1) becomes I and the long s (C5 BF) becomes S; every other rune above
  127 stays above 127.
\<close>

fun upperRunes :: "bytes \<Rightarrow> bytes" where
  "upperRunes (a # b # s) =
     (if a = CHR 0xC4 \<and> b = CHR 0xB1 then CHR ''I'' # upperRunes s
      else if a = CHR 0xC5 \<and> b = CHR 0xBF then CHR ''S'' # upperRunes s
      else upper_byte a # upperRunes (b # s))"
| "upperRunes [a] = [upper_byte a]"
| "upperRunes [] = []"

definition handleCluster :: "argv \<Rightarrow> Value" where
  "handleCluster a =
     (if length a < 2 then errCluster
      else let s = upperRunes (sl (a ! 1)) in
        if s = ''HELP'' then Array [bulk ''CLUSTER HELP'', bulk ''This instance has cluster support disabled'']
        else if s = ''INFO'' then bulk (''cluster_state:fail'' @ CRLF @ ''cluster_slots_assigned:0'' @ CRLF @ ''cluster_enabled:0'' @ CRLF)
        else errCluster)"

section \<open>Authentication\<close>

definition logIn :: "('w session, unit) io" where
  "logIn = modify (\<lambda>s. s\<lparr>authed := True\<rparr>)"

definition doAuth :: "argv \<Rightarrow> ('w session, Value) io" where
  "doAuth a = withS (\<lambda>s.
     if \<not> requireAuth s then ret (SimpleString ''OK'')
     else if length a \<noteq> 2 \<and> length a \<noteq> 3 then ret (errArgs ''auth'')
     else if sl (a ! (length a - 1)) = clientPass s then thenE logIn (ret (SimpleString ''OK''))
     else ret errAuth)"

definition helloAuth :: "argv \<Rightarrow> ('w session, Value option) io" where
  "helloAuth a = withS (\<lambda>s. case find (\<lambda>i. EqualFold (sl (a ! i)) ''AUTH'') [1..<length a - 1] of
     None \<Rightarrow> ret None
   | Some i \<Rightarrow>
       if i + 2 \<ge> length a then ret (Some errAuth)
       else if sl (a ! (i + 2)) = clientPass s then thenE logIn (ret (Some helloReply))
       else ret (Some errAuth))"

section \<open>Local commands\<close>

definition handleLocal :: "'w net \<Rightarrow> argv \<Rightarrow> ('w session, Value option) io" where
  "handleLocal N a =
     (if a = [] then ret None
      else let name = upperName (a ! 0) in withS (\<lambda>s.
        if name = ''PING'' then
          ret (Some (if \<not> authed s then errNoAuth else if length a = 1 then plusPong else BulkString (a ! 1)))
        else if name = ''ECHO'' then
          ret (Some (if \<not> authed s then errNoAuth else if length a \<noteq> 2 then errArgs ''echo'' else BulkString (a ! 1)))
        else if name = ''AUTH'' then bindE (doAuth a) (\<lambda>v. ret (Some v))
        else if name = ''QUIT'' then thenE (modify (\<lambda>s. s\<lparr>quit := True\<rparr>)) (ret (Some (SimpleString ''OK'')))
        else if name = ''CLUSTER'' then ret (Some (if \<not> authed s then errNoAuth else handleCluster a))
        else if name = ''COMMAND'' then ret None
        else if name = ''INFO'' then ret (Some (if \<not> authed s then errNoAuth else infoReply))
        else if name = ''HELLO'' then
          (if \<not> authed s \<and> requireAuth s
           then bindE (helloAuth a) (\<lambda>v. ret (Some (case v of Some v \<Rightarrow> v | None \<Rightarrow> errNoAuth)))
           else ret (Some helloReply))
        else if name = ''RESET'' then
          thenE (resetTxn N) (thenE (modify (\<lambda>s. s\<lparr>db := 0, authed := \<not> requireAuth s\<rparr>)) (ret (Some (SimpleString ''OK''))))
        else if requireAuth s \<and> \<not> authed s then ret (Some errNoAuth)
        else ret None))"

end
