(* ===== verification/Go_Loop.thy ===== *)
theory Go_Loop
  imports Go_IO
begin

text \<open>
  Loops that may run forever. A call that does not return has no result, so an unbounded
  \<open>for\<close> is a \<open>partial_function (option)\<close> over the calls of \<open>Go_IO\<close>; the combinators are
  monotone, which is what such a definition needs.
\<close>

lemma bindE_bind:
  "bindE m k s = Option.bind (m s) (\<lambda>(r, s'). case r of Ok a \<Rightarrow> k a s' | Err e \<Rightarrow> Some (Err e, s') | Panic \<Rightarrow> Some (Panic, s'))"
  by (auto simp: bindE_def split: option.split)

lemma tryE_bind: "tryE m k s = Option.bind (m s) (\<lambda>(r, s'). case r of Panic \<Rightarrow> Some (Panic, s') | _ \<Rightarrow> k r s')"
  by (auto simp: tryE_def split: option.split res.split)

lemma bindE_mono [partial_function_mono]:
  assumes m: "\<And>s. mono_option (\<lambda>f. m f s)" and k: "\<And>a s. mono_option (\<lambda>f. k a f s)"
  shows "mono_option (\<lambda>f. bindE (m f) (\<lambda>a. k a f) s)"
  unfolding bindE_bind
proof (intro bind_mono m)
  fix y
  show "mono_option (\<lambda>f. case y of (r, s') \<Rightarrow> (case r of Ok a \<Rightarrow> k a f s' | Err e \<Rightarrow> Some (Err e, s') | Panic \<Rightarrow> Some (Panic, s')))"
    by (cases y; cases "fst y") (auto intro: k option.const_mono)
qed

lemma tryE_mono [partial_function_mono]:
  assumes m: "\<And>s. mono_option (\<lambda>f. m f s)" and k: "\<And>a s. mono_option (\<lambda>f. k a f s)"
  shows "mono_option (\<lambda>f. tryE (m f) (\<lambda>a. k a f) s)"
  unfolding tryE_bind
proof (intro bind_mono m)
  fix y
  show "mono_option (\<lambda>f. case y of (r, s') \<Rightarrow> (case r of Panic \<Rightarrow> Some (Panic, s') | _ \<Rightarrow> k r f s'))"
    by (cases y; cases "fst y") (auto intro: k option.const_mono)
qed

lemma thenE_mono [partial_function_mono]:
  "(\<And>s. mono_option (\<lambda>f. m f s)) \<Longrightarrow> (\<And>s. mono_option (\<lambda>f. n f s)) \<Longrightarrow> mono_option (\<lambda>f. thenE (m f) (n f) s)"
  unfolding thenE_def by (intro bindE_mono)

lemma withS_mono [partial_function_mono]:
  "mono_option (\<lambda>f. k s f s) \<Longrightarrow> mono_option (\<lambda>f. withS (\<lambda>s. k s f) s)"
  unfolding withS_def .

lemma if_io_mono [partial_function_mono]:
  "mono_option (\<lambda>f. m f s) \<Longrightarrow> mono_option (\<lambda>f. n f s) \<Longrightarrow> mono_option (\<lambda>f. (if b then m f else n f) s)"
  by (cases b) auto

lemma case_res_io_mono [partial_function_mono]:
  "(\<And>a. mono_option (\<lambda>f. m1 a f s)) \<Longrightarrow> (\<And>e. mono_option (\<lambda>f. m2 e f s)) \<Longrightarrow> mono_option (\<lambda>f. m3 f s) \<Longrightarrow>
   mono_option (\<lambda>f. (case r of Ok a \<Rightarrow> m1 a f | Err e \<Rightarrow> m2 e f | Panic \<Rightarrow> m3 f) s)"
  by (cases r) auto

lemma case_prod_io_mono [partial_function_mono]:
  "(\<And>a b. mono_option (\<lambda>f. g a b f s)) \<Longrightarrow> mono_option (\<lambda>f. (case p of (a, b) \<Rightarrow> g a b f) s)"
  by (cases p) auto

lemma case_option_io_mono [partial_function_mono]:
  "mono_option (\<lambda>f. m f s) \<Longrightarrow> (\<And>a. mono_option (\<lambda>f. h a f s)) \<Longrightarrow>
   mono_option (\<lambda>f. (case x of None \<Rightarrow> m f | Some a \<Rightarrow> h a f) s)"
  by (cases x) auto

end
