(* ===== verification/Proxy_Session.thy ===== *)
theory Proxy_Session
  imports Proxy_Local Go_Loop
begin

text \<open>
  \<open>internal/proxy/session.go\<close>: the handlers of one client session. Every handler is a call on
  the session state; its result is the error of writing the reply. The goroutines of a fan-out
  run one after another in the order \<open>sched\<close>, each call of the router being atomic. A scan
  that never ends is a call that does not return.
\<close>

section \<open>Executing on the backends\<close>

definition classifyErr :: "Value \<Rightarrow> bytes" where
  "classifyErr v =
     (if EqualKind v ''MOVED'' then ''moved'' else if EqualKind v ''ASK'' then ''ask''
      else if EqualKind v ''LOADING'' then ''error'' else ''error'')"

definition isRedirectKind :: "Value \<Rightarrow> bool" where
  "isRedirectKind v \<longleftrightarrow> EqualKind v ''MOVED'' \<or> EqualKind v ''ASK''"

definition errExhausted :: Value where
  "errExhausted = Error ''ERR backend redirect exhausted''"

definition needsRewrite :: "argv \<Rightarrow> bool res" where
  "needsRewrite a = (if a = [] then Panic else Ok (ClassifyPubSub (sl (a ! 0)) = PubSubPublish))"

definition doBlocking :: "'w net \<Rightarrow> uint16 \<Rightarrow> argv \<Rightarrow> int \<Rightarrow> ('w session, Value) io" where
  "doBlocking N slot a rto = withS (\<lambda>s.
     bindE (onRt (Checkout N slot)) (\<lambda>(c, i).
     bindE (onRt (onNet (Do N c a (WriteTimeout (cfg s)) rto))) (\<lambda>(r, c). case r of
       Err e \<Rightarrow> thenE (onRt (onPool i (Drop N c))) (fail e)
     | Panic \<Rightarrow> liftR Panic
     | Ok v \<Rightarrow>
         (case if IsError v then ParseRedirect (sl (vStr v)) else None of
            Some red \<Rightarrow>
              if Kind red = ''MOVED''
              then thenE (onRt (onPool i (Drop N c))) (thenE (onRt (updateSlot (Slot red) (Addr red))) (onRt (Exec N (Slot red) a False rto)))
              else thenE (onRt (onPool i (Put N c))) (ret v)
          | None \<Rightarrow> thenE (onRt (onPool i (Put N c))) (ret v)))))"

section \<open>Fan-out\<close>

fun runGroups :: "'w net \<Rightarrow> (uint16 \<times> argv) list \<Rightarrow> bool \<Rightarrow> int \<Rightarrow> nat list \<Rightarrow> Value list \<Rightarrow> gerr list \<Rightarrow>
    ('w session, Value list \<times> gerr list) io" where
  "runGroups N gs read rto [] reps errs = ret (reps, errs)"
| "runGroups N gs read rto (i # is) reps errs =
     tryE (onRt (Exec N (fst (gs ! i)) (snd (gs ! i)) read rto)) (\<lambda>r. case r of
       Ok v \<Rightarrow> runGroups N gs read rto is (reps[i := v]) errs
     | Err e \<Rightarrow> runGroups N gs read rto is reps (errs @ [e])
     | Panic \<Rightarrow> liftR Panic)"

fun rebuildAll :: "argv \<Rightarrow> KeyGroup list \<Rightarrow> (uint16 \<times> argv) list res" where
  "rebuildAll a [] = Ok []"
| "rebuildAll a (g # gs) = res_bind (RebuildFanoutArgv a g) (\<lambda>x. res_bind (rebuildAll a gs) (\<lambda>xs. Ok ((gSlot g, x) # xs)))"

definition mergeReplies :: "argv \<Rightarrow> argv \<Rightarrow> KeyGroup list \<Rightarrow> Value list \<Rightarrow> Value option" where
  "mergeReplies a keys groups reps = (case FanoutOf (args a) of
     FanoutSum \<Rightarrow> Some (MergeSum reps)
   | FanoutMGet \<Rightarrow> Some (MergeMGet (int (length keys)) groups reps)
   | FanoutMSet \<Rightarrow> Some (MergeMSet reps)
   | _ \<Rightarrow> None)"

definition finishFanout :: "'w net \<Rightarrow> bytes \<Rightarrow> argv \<Rightarrow> argv \<Rightarrow> KeyGroup list \<Rightarrow> Value list \<times> gerr list \<Rightarrow> ('w session, unit) io" where
  "finishFanout N name a keys groups res = (case res of (reps, errs) \<Rightarrow>
     case errs of
       e # _ \<Rightarrow> thenE (observe name ''error'') (replyErr N e)
     | [] \<Rightarrow>
         (case find IsError reps of
            Some r \<Rightarrow> thenE (observe name (classifyErr r)) (reply N (if isRedirectKind r then errExhausted else r))
          | None \<Rightarrow>
              (case mergeReplies a keys groups reps of
                 None \<Rightarrow> thenE (observe name ''error'') (reply N errCross)
               | Some v \<Rightarrow>
                   if IsError v then thenE (observe name (classifyErr v)) (reply N v)
                   else withS (\<lambda>s. thenE (observe name ''ok'') (reply N (StripReplyKeys name (db s) v))))))"

definition cmdFanout :: "'w net \<Rightarrow> argv \<Rightarrow> bytes \<Rightarrow> ('w session, unit) io" where
  "cmdFanout N a name = withS (\<lambda>s.
     bindE (liftR (ExtractKeys a)) (\<lambda>keys.
     let groups = GroupBySlot (args keys) (SlotOf (rt s)) in
     if groups = [] then thenE (observe name ''error'') (reply N errCross)
     else bindE (liftR (rebuildAll a groups)) (\<lambda>gs.
       bindE (runGroups N gs (KindOf (sl (a ! 0)) = KindRead) (ReadTimeout (cfg s)) (sched s (length gs)) (map (\<lambda>_. zeroValue) gs) [])
         (finishFanout N name a keys groups))))"

section \<open>Transactions\<close>

definition cmdMulti :: "'w net \<Rightarrow> ('w session, unit) io" where
  "cmdMulti N = withS (\<lambda>s.
     if multi s then reply N errNested
     else thenE (modify (\<lambda>s. s\<lparr>multi := True, queued := []\<rparr>)) (reply N (SimpleString ''OK'')))"

definition cmdDiscard :: "'w net \<Rightarrow> ('w session, unit) io" where
  "cmdDiscard N = withS (\<lambda>s.
     if \<not> multi s then reply N (Error ''ERR DISCARD without MULTI'')
     else thenE (modify (\<lambda>s. s\<lparr>multi := False, queued := []\<rparr>)) (reply N (SimpleString ''OK'')))"

definition cmdSelect :: "'w net \<Rightarrow> argv \<Rightarrow> ('w session, unit) io" where
  "cmdSelect N a = withS (\<lambda>s.
     if \<not> authed s then reply N errNoAuth
     else if length a \<noteq> 2 then reply N (errArgs ''select'')
     else (case ParseDBIndex (sl (a ! 1)) (MaxDatabases (cfg s)) of
       Err e \<Rightarrow> reply N (DBIndexError (Some e))
     | Panic \<Rightarrow> liftR Panic
     | Ok n \<Rightarrow>
         if multi s then thenE (modify (\<lambda>s. s\<lparr>queued := queued s @ [copyArgv a]\<rparr>)) (reply N queuedReply)
         else thenE (modify (\<lambda>s. s\<lparr>db := n\<rparr>)) (reply N (SimpleString ''OK''))))"

text \<open>The connection a \<open>WATCH\<close> pins, with the generation of the slot map it was chosen under.\<close>

definition ensurePin :: "'w net \<Rightarrow> uint16 \<Rightarrow> ('w session, unit) io" where
  "ensurePin N slot = withS (\<lambda>s. case pin s of
     Some _ \<Rightarrow> ret ()
   | None \<Rightarrow> bindE (onRt (Checkout N slot)) (\<lambda>x. modify (\<lambda>s. s\<lparr>pin := Some x, pinGen := GenerationOf (rt s)\<rparr>)))"

definition doPinned :: "'w net \<Rightarrow> argv \<Rightarrow> ('w session, Value res) io" where
  "doPinned N a = withS (\<lambda>s. case pin s of
     None \<Rightarrow> liftR Panic
   | Some (c, i) \<Rightarrow>
       bindE (onRt (onNet (Do N c a (WriteTimeout (cfg s)) (ReadTimeout (cfg s))))) (\<lambda>(r, c).
         thenE (modify (\<lambda>s. s\<lparr>pin := Some (c, i)\<rparr>)) (ret r)))"

definition cmdWatch :: "'w net \<Rightarrow> argv \<Rightarrow> ('w session, unit) io" where
  "cmdWatch N a0 = withS (\<lambda>s.
     if multi s then reply N errWatchTxn
     else bindE (liftR (RewriteArgv a0 (db s))) (\<lambda>a.
       bindE (liftR (ExtractKeys a)) (\<lambda>keys.
       if keys = [] then reply N (errArgs ''watch'')
       else if CrossSlot (rt s) (args keys) then reply N errCross
       else tryE (ensurePin N (SlotOf (rt s) (sl (keys ! 0)))) (\<lambda>r. case r of
         Err e \<Rightarrow> replyErr N e
       | _ \<Rightarrow> bindE (doPinned N a) (\<lambda>r. case r of
           Err e \<Rightarrow> thenE (dropPin N) (replyErr N e)
         | Panic \<Rightarrow> liftR Panic
         | Ok v \<Rightarrow> thenE (modify (\<lambda>s. s\<lparr>watched := watched s @ copyArgv keys\<rparr>)) (reply N v))))))"

definition cmdUnwatch :: "'w net \<Rightarrow> ('w session, unit) io" where
  "cmdUnwatch N = withS (\<lambda>s.
     thenE (if pin s \<noteq> None then thenE (bindE (doPinned N [Some ''UNWATCH'']) (\<lambda>_. ret ())) (dropPin N) else ret ())
       (thenE (modify (\<lambda>s. s\<lparr>watched := []\<rparr>)) (reply N (SimpleString ''OK''))))"

record execItem =
  itemLocal :: Value
  itemArgv :: "argv option"

text \<open>The queued commands rewritten, a \<open>SELECT\<close> among them answered locally: items, keys, database.\<close>

fun execItems :: "int \<Rightarrow> argv list \<Rightarrow> int \<Rightarrow> (execItem list \<times> argv \<times> int) res" where
  "execItems mx [] d = Ok ([], [], d)"
| "execItems mx (a # qs) d =
     (let loc = (\<lambda>v d. res_bind (execItems mx qs d) (\<lambda>(its, ks, d). Ok (\<lparr>itemLocal = v, itemArgv = None\<rparr> # its, ks, d))) in
      if a \<noteq> [] \<and> upperName (a ! 0) = ''SELECT'' then
        (if length a \<noteq> 2 then loc (errArgs ''select'') d
         else (case ParseDBIndex (sl (a ! 1)) mx of
             Err e \<Rightarrow> loc (DBIndexError (Some e)) d
           | Panic \<Rightarrow> Panic
           | Ok n \<Rightarrow> loc (SimpleString ''OK'') n))
      else res_bind (RewriteArgv a d) (\<lambda>x.
        res_bind (ExtractKeys x) (\<lambda>k.
        res_bind (execItems mx qs d) (\<lambda>(its, ks, d).
          Ok (\<lparr>itemLocal = zeroValue, itemArgv = Some x\<rparr> # its, k @ ks, d)))))"

fun mergeItems :: "execItem list \<Rightarrow> Value list \<Rightarrow> Value list" where
  "mergeItems [] vs = []"
| "mergeItems (it # its) vs =
     (case itemArgv it of
        None \<Rightarrow> itemLocal it # mergeItems its vs
      | Some _ \<Rightarrow> (case vs of
          v # vs \<Rightarrow> v # mergeItems its vs
        | [] \<Rightarrow> Error ''ERR EXEC reply missing'' # mergeItems its []))"

definition mergeExecReply :: "execItem list \<Rightarrow> Value \<Rightarrow> Value" where
  "mergeExecReply its v =
     (if vType v \<noteq> TypeArray \<or> vNull v then v else Array (mergeItems its (vValues v)))"

text \<open>One command of the transaction on the connection: an error drops it and is the reply.\<close>

definition txnStep :: "'w net \<Rightarrow> nat \<Rightarrow> Conn \<Rightarrow> argv \<Rightarrow> (Value \<Rightarrow> Conn \<Rightarrow> ('w session, unit) io) \<Rightarrow> ('w session, unit) io" where
  "txnStep N i c a k = withS (\<lambda>s.
     bindE (onRt (onNet (Do N c a (WriteTimeout (cfg s)) (ReadTimeout (cfg s))))) (\<lambda>(r, c). case r of
       Err e \<Rightarrow> thenE (onRt (onPool i (Drop N c))) (replyErr N e)
     | Panic \<Rightarrow> liftR Panic
     | Ok v \<Rightarrow> k v c))"

fun txnSteps :: "'w net \<Rightarrow> nat \<Rightarrow> argv list \<Rightarrow> Conn \<Rightarrow> (Conn \<Rightarrow> ('w session, unit) io) \<Rightarrow> ('w session, unit) io" where
  "txnSteps N i [] c k = k c"
| "txnSteps N i (a # as) c k = txnStep N i c a (\<lambda>_ c. txnSteps N i as c k)"

text \<open>The reply is sent first, then the deferred \<open>Put\<close> runs.\<close>

definition finishExec :: "'w net \<Rightarrow> nat \<Rightarrow> execItem list \<Rightarrow> int \<Rightarrow> Value \<Rightarrow> Conn \<Rightarrow> ('w session, unit) io" where
  "finishExec N i its d v c =
     thenE (modify (\<lambda>s. s\<lparr>watched := []\<rparr>))
       (tryE (if vNull v then reply N v else thenE (modify (\<lambda>s. s\<lparr>db := d\<rparr>)) (reply N (mergeExecReply its v)))
          (\<lambda>r. thenE (onRt (onPool i (Put N c))) (liftR r)))"

definition execOn :: "'w net \<Rightarrow> execItem list \<Rightarrow> argv list \<Rightarrow> int \<Rightarrow> Conn \<times> nat \<Rightarrow> ('w session, unit) io" where
  "execOn N its backend d x = (case x of (c, i) \<Rightarrow>
     txnSteps N i ([Some ''MULTI''] # backend) c (\<lambda>c.
       txnStep N i c [Some ''EXEC''] (finishExec N i its d)))"

definition cmdExec :: "'w net \<Rightarrow> ('w session, unit) io" where
  "cmdExec N = withS (\<lambda>s.
     if \<not> multi s then reply N errNoMulti
     else thenE (modify (\<lambda>s. s\<lparr>multi := False, queued := []\<rparr>))
      (if pin s \<noteq> None \<and> pinGen s \<noteq> GenerationOf (rt s)
       then thenE (dropPin N) (reply N (Error ''EXECABORT Transaction discarded because of topology change''))
       else bindE (liftR (execItems (MaxDatabases (cfg s)) (queued s) (db s))) (\<lambda>(its, ks, d).
         let keys = watched s @ ks; backend = concat (map (\<lambda>it. case itemArgv it of Some a \<Rightarrow> [a] | None \<Rightarrow> []) its) in
         if length keys > 1 \<and> CrossSlot (rt s) (args keys) then thenE (dropPin N) (reply N errCross)
         else if backend = [] then
           thenE (modify (\<lambda>s. s\<lparr>db := d, watched := []\<rparr>)) (reply N (Array (map itemLocal its)))
         else thenE (modify (\<lambda>s. s\<lparr>pin := None\<rparr>))
           (tryE (case pin s of
               Some x \<Rightarrow> ret x
             | None \<Rightarrow> onRt (Checkout N (if keys \<noteq> [] then SlotOf (rt s) (sl (keys ! 0)) else 0))) (\<lambda>r. case r of
              Ok x \<Rightarrow> execOn N its backend d x
            | Err e \<Rightarrow> replyErr N e
            | Panic \<Rightarrow> liftR Panic)))))"

section \<open>Keys across databases\<close>

definition errFromValue :: "Value \<Rightarrow> gerr" where
  "errFromValue v = GoErr (if sl (vStr v) = [] then ''backend error'' else sl (vStr v))"

abbreviation ask :: "'w net \<Rightarrow> slice \<Rightarrow> argv \<Rightarrow> bool \<Rightarrow> ('w session, Value) io" where
  "ask N key a read \<equiv> withS (\<lambda>s. onRt (Exec N (SlotOf (rt s) (sl key)) a read (ReadTimeout (cfg s))))"

text \<open>An error reply of a backend becomes an error.\<close>

abbreviation must :: "('w session, Value) io \<Rightarrow> (Value \<Rightarrow> ('w session, 'a) io) \<Rightarrow> ('w session, 'a) io" where
  "must m k \<equiv> bindE m (\<lambda>v. if IsError v then fail (errFromValue v) else k v)"

definition moveInSlot :: "'w net \<Rightarrow> slice \<Rightarrow> slice \<Rightarrow> bool \<Rightarrow> bool \<Rightarrow> ('w session, int) io" where
  "moveInSlot N src dst delSrc replace =
     must (ask N src (if delSrc then [Some ''RENAME'', src, dst]
                      else [Some ''COPY'', src, dst] @ (if replace then [Some ''REPLACE''] else [])) False)
       (\<lambda>v. ret (if delSrc then 1 else if vType v = TypeInteger then vInt v else 1))"

definition moveAcross :: "'w net \<Rightarrow> slice \<Rightarrow> slice \<Rightarrow> bool \<Rightarrow> bool \<Rightarrow> ('w session, int) io" where
  "moveAcross N src dst delSrc replace =
     must (ask N src [Some ''DUMP'', src] True) (\<lambda>dump.
     if vNull dump \<or> sl (vStr dump) = [] then ret 0
     else must (ask N dst ([Some ''RESTORE'', dst, Some ''0'', vStr dump] @ (if replace then [Some ''REPLACE''] else [])) False) (\<lambda>_.
       if delSrc then tryE (ask N src [Some ''DEL'', src] False) (\<lambda>_. ret 1) else ret 1))"

definition transferKey :: "'w net \<Rightarrow> slice \<Rightarrow> slice \<Rightarrow> bool \<Rightarrow> bool \<Rightarrow> ('w session, int) io" where
  "transferKey N src dst delSrc replace =
     bindE (if replace then ret False
            else bindE (ask N dst [Some ''EXISTS'', dst] True) (\<lambda>ex. ret (\<not> IsError ex \<and> vType ex = TypeInteger \<and> vInt ex > 0)))
       (\<lambda>there. if there then ret 0
         else withS (\<lambda>s. if SlotOf (rt s) (sl src) = SlotOf (rt s) (sl dst)
           then moveInSlot N src dst delSrc replace else moveAcross N src dst delSrc replace))"

definition replyInt :: "'w net \<Rightarrow> ('w session, int) io \<Rightarrow> ('w session, unit) io" where
  "replyInt N m = tryE m (\<lambda>r. case r of Ok n \<Rightarrow> reply N (Integer n) | Err e \<Rightarrow> replyErr N e | Panic \<Rightarrow> liftR Panic)"

definition cmdMove :: "'w net \<Rightarrow> argv \<Rightarrow> ('w session, unit) io" where
  "cmdMove N a = withS (\<lambda>s.
     if length a \<noteq> 3 then reply N (errArgs ''move'')
     else (case ParseDBIndex (sl (a ! 2)) (MaxDatabases (cfg s)) of
       Err e \<Rightarrow> reply N (DBIndexError (Some e))
     | Panic \<Rightarrow> liftR Panic
     | Ok destDB \<Rightarrow>
         if destDB = db s then reply N (Error ''ERR source and destination objects are the same'')
         else replyInt N (transferKey N (PrefixKey (db s) (a ! 1)) (PrefixKey destDB (a ! 1)) True False)))"

text \<open>The options of \<open>COPY\<close>: the destination database and \<open>REPLACE\<close>, or the error reply.\<close>

fun copyOpts :: "int \<Rightarrow> argv \<Rightarrow> int \<Rightarrow> bool \<Rightarrow> Value + int \<times> bool" where
  "copyOpts mx [] d rep = Inr (d, rep)"
| "copyOpts mx (x # xs) d rep =
     (if EqualFoldASCII (sl x) ''REPLACE'' then copyOpts mx xs d True
      else if EqualFoldASCII (sl x) ''DB'' then
        (case xs of
           [] \<Rightarrow> Inl (Error ''ERR syntax error'')
         | y # ys \<Rightarrow> (case ParseDBIndex (sl y) mx of Ok n \<Rightarrow> copyOpts mx ys n rep | Err e \<Rightarrow> Inl (DBIndexError (Some e)) | Panic \<Rightarrow> Inl zeroValue))
      else copyOpts mx xs d rep)"

definition cmdCopy :: "'w net \<Rightarrow> argv \<Rightarrow> ('w session, unit) io" where
  "cmdCopy N a = withS (\<lambda>s.
     if length a < 3 then reply N (errArgs ''copy'')
     else (case copyOpts (MaxDatabases (cfg s)) (drop 3 a) (db s) False of
       Inl v \<Rightarrow> reply N v
     | Inr (destDB, rep) \<Rightarrow> replyInt N (transferKey N (PrefixKey (db s) (a ! 1)) (PrefixKey destDB (a ! 2)) False rep)))"

section \<open>Whole databases\<close>

text \<open>One turn of the loop of \<open>scanDeleteOn\<close>: the next cursor, or the end with the connection put back.\<close>

definition scanTurn :: "'w net \<Rightarrow> slice \<Rightarrow> nat \<Rightarrow> slice \<Rightarrow> Conn \<Rightarrow> ('w session, (slice \<times> Conn) option) io" where
  "scanTurn N pat i cursor c = withS (\<lambda>s.
     let call = (\<lambda>c a k. bindE (onRt (onNet (Do N c a (WriteTimeout (cfg s)) (ReadTimeout (cfg s))))) (\<lambda>(r, c). case r of
           Err e \<Rightarrow> thenE (onRt (onPool i (Drop N c))) (fail e)
         | Panic \<Rightarrow> liftR Panic
         | Ok v \<Rightarrow> k v c));
         stop = (\<lambda>c m. thenE (onRt (onPool i (Put N c))) m)
     in call c [Some ''SCAN'', cursor, Some ''MATCH'', pat, Some ''COUNT'', Some ''256''] (\<lambda>v c.
       if IsError v then stop c (fail (errFromValue v))
       else if vType v \<noteq> TypeArray \<or> length (vValues v) < 2 then stop c (ret None)
       else let cur = append_nil (sl (vStr (vValues v ! 0))); keys = vValues v ! 1;
                del = (if vType keys = TypeArray then filter (\<lambda>k. sl k \<noteq> []) (map vStr (vValues keys)) else []);
                next = (\<lambda>c. if sl cur = ''0'' then stop c (ret None) else ret (Some (cur, c)))
            in if del \<noteq> [] then call c (Some ''DEL'' # del) (\<lambda>_ c. next c) else next c))"

partial_function (option) scanLoop :: "'w net \<Rightarrow> slice \<Rightarrow> nat \<Rightarrow> slice \<Rightarrow> Conn \<Rightarrow> 'w session \<Rightarrow> (unit res \<times> 'w session) option" where
  "scanLoop N pat i cursor c s =
     bindE (scanTurn N pat i cursor c) (\<lambda>x. case x of None \<Rightarrow> ret () | Some (cur, c) \<Rightarrow> scanLoop N pat i cur c) s"

definition scanDeleteOn :: "'w net \<Rightarrow> bytes \<Rightarrow> slice \<Rightarrow> ('w session, unit) io" where
  "scanDeleteOn N addr pat =
     bindE (onRt (PoolOf N addr)) (\<lambda>i. bindE (onRt (onPool i (Get N))) (\<lambda>c. scanLoop N pat i (Some ''0'') c))"

definition cmdFlushDB :: "'w net \<Rightarrow> ('w session, unit) io" where
  "cmdFlushDB N = withS (\<lambda>s.
     if db s = 0 then
       tryE (onRt (Exec N 0 [Some ''FLUSHDB''] False (ReadTimeout (cfg s)))) (\<lambda>r. case r of
         Ok v \<Rightarrow> reply N v | Err e \<Rightarrow> replyErr N e | Panic \<Rightarrow> liftR Panic)
     else tryE (forE (\<lambda>addr. scanDeleteOn N addr (Some (DBPrefix (db s) @ ''*''))) (MasterAddrs (rt s))) (\<lambda>r. case r of
         Ok _ \<Rightarrow> reply N (SimpleString ''OK'') | Err e \<Rightarrow> replyErr N e | Panic \<Rightarrow> liftR Panic))"

definition randomOf :: "int \<Rightarrow> Value \<Rightarrow> Value" where
  "randomOf d v =
     (if d = 0 then (if \<not> vNull v \<and> HasVirtualDBPrefix (sl (vStr v)) then NullBulk else v)
      else if IsError v then v
      else if vType v = TypeArray \<and> length (vValues v) \<ge> 2 \<and> vType (vValues v ! 1) = TypeArray \<and> vValues (vValues v ! 1) \<noteq> []
      then BulkString (StripKey d (vStr (hd (vValues (vValues v ! 1)))))
      else NullBulk)"

definition cmdRandomKey :: "'w net \<Rightarrow> ('w session, unit) io" where
  "cmdRandomKey N = withS (\<lambda>s.
     tryE (onRt (Exec N 0 (if db s = 0 then [Some ''RANDOMKEY'']
         else [Some ''SCAN'', Some ''0'', Some ''MATCH'', Some (DBPrefix (db s) @ ''*''), Some ''COUNT'', Some ''16'']) True (ReadTimeout (cfg s))))
       (\<lambda>r. case r of Ok v \<Rightarrow> reply N (randomOf (db s) v) | Err e \<Rightarrow> replyErr N e | Panic \<Rightarrow> liftR Panic))"

section \<open>Publish and subscribe\<close>

definition cmdPublish :: "'w net \<Rightarrow> argv \<Rightarrow> bytes \<Rightarrow> ('w session, unit) io" where
  "cmdPublish N a name = withS (\<lambda>s.
     case RewritePublish (FlavorOf (rt s)) a of (b, did) \<Rightarrow>
     thenE (if did then onRt (inc ''pubsub_rewrites'' []) else ret ())
       (tryE (onRt (Exec N (if length b > 1 then SlotOf (rt s) (sl (b ! 1)) else 0) b False (ReadTimeout (cfg s)))) (\<lambda>r. case r of
          Ok v \<Rightarrow> thenE (observe name ''ok'') (reply N v)
        | Err e \<Rightarrow> thenE (observe name ''error'') (replyErr N e)
        | Panic \<Rightarrow> liftR Panic)))"

definition enterSub :: "'w net \<Rightarrow> argv \<Rightarrow> bytes \<Rightarrow> ('w session, unit) io" where
  "enterSub N a name =
     thenE (modify (\<lambda>s. s\<lparr>sub := Some (NewSession (WriteTimeout (cfg s)) (ReadTimeout (cfg s)) (pace s) (rt s))\<rparr>))
       (thenE (onRt (inc ''pubsub_subscribers'' ''inc''))
         (tryE (onSub (HandleClientCmd N a)) (\<lambda>r. case r of
            Ok vs \<Rightarrow> thenE (observe name ''ok'') (forE (reply N) vs)
          | Err e \<Rightarrow> thenE (observe name ''error'') (replyErr N e)
          | Panic \<Rightarrow> liftR Panic)))"

definition handleSub :: "'w net \<Rightarrow> argv \<Rightarrow> ('w session, unit) io" where
  "handleSub N a =
     (if a = [] then liftR Panic
      else let name = upperName (a ! 0) in
        if name = ''PING'' then reply N (Array [bulk ''pong'', if length a = 1 then bulk [] else BulkString (a ! 1)])
        else if name = ''QUIT'' then thenE (modify (\<lambda>s. s\<lparr>quit := True\<rparr>)) (reply N (SimpleString ''OK''))
        else tryE (onSub (HandleClientCmd N a)) (\<lambda>r. case r of
          Ok vs \<Rightarrow> forE (reply N) vs
        | Err e \<Rightarrow> replyErr N e
        | Panic \<Rightarrow> liftR Panic))"

text \<open>One turn of \<open>writePushes\<close>.\<close>

definition writePush :: "'w net \<Rightarrow> ('w session, unit) io" where
  "writePush N = withS (\<lambda>s. case sub s of
     None \<Rightarrow> ret ()
   | Some p \<Rightarrow> (case pushes p of
       [] \<Rightarrow> ret ()
     | v # vs \<Rightarrow> thenE (modify (\<lambda>s. s\<lparr>sub := Some (p\<lparr>pushes := vs\<rparr>)\<rparr>)) (reply N v)))"

definition cleanup :: "'w net \<Rightarrow> ('w session, unit) io" where
  "cleanup N =
     thenE (resetTxn N) (withS (\<lambda>s.
       thenE (if sub s \<noteq> None then thenE (onSub (CloseSession N)) (onRt (inc ''pubsub_subscribers'' ''dec'')) else ret ())
         (onRt (onNet (modify (netClose N (cconn s)))))))"

section \<open>The dispatcher\<close>

text \<open>A command for the backends: the part of \<open>handle\<close> after the commands it treats by name.\<close>

definition slotFor :: "'w Router \<Rightarrow> argv \<Rightarrow> uint16" where
  "slotFor R keys = (if keys \<noteq> [] then SlotOf R (sl (keys ! 0)) else 0)"

definition execCmd :: "'w net \<Rightarrow> argv \<Rightarrow> bytes \<Rightarrow> uint16 \<Rightarrow> ('w session, Value) io" where
  "execCmd N a frame slot = withS (\<lambda>s.
     let blocking = IsBlocking (args a); read = (KindOf (sl (a ! 0)) = KindRead) in
     if blocking then doBlocking N slot a (BlockingMaxWait (cfg s))
     else bindE (if frame \<noteq> [] then liftR (needsRewrite a) else ret True) (\<lambda>rewrite.
       if \<not> rewrite then onRt (ExecRaw N slot (Some frame) read (ReadTimeout (cfg s)))
       else onRt (Exec N slot a read (ReadTimeout (cfg s)))))"

definition finishCmd :: "'w net \<Rightarrow> bytes \<Rightarrow> Value res \<Rightarrow> ('w session, unit) io" where
  "finishCmd N name r = (case r of
     Err e \<Rightarrow> thenE (observe name ''error'') (replyErr N e)
   | Panic \<Rightarrow> liftR Panic
   | Ok v \<Rightarrow>
       if IsError v then thenE (observe name (classifyErr v)) (reply N (if isRedirectKind v then errExhausted else v))
       else withS (\<lambda>s. thenE (observe name ''ok'') (reply N (StripReplyKeys name (db s) v))))"

definition runCommand :: "'w net \<Rightarrow> argv \<Rightarrow> bytes \<Rightarrow> bytes \<Rightarrow> ('w session, unit) io" where
  "runCommand N a0 frame0 name = withS (\<lambda>s.
     bindE (liftR (RewriteArgv a0 (db s))) (\<lambda>rewritten.
     let a = (if db s > 0 then rewritten else a0); frame = (if db s > 0 then [] else frame0) in
     bindE (liftR (ExtractKeys a)) (\<lambda>keys.
     if length keys > 1 \<and> CrossSlot (rt s) (args keys) then
       (if FanoutOf (args a) \<noteq> FanoutNone then cmdFanout N a name
        else thenE (observe name ''error'') (reply N errCross))
     else tryE (execCmd N a frame (slotFor (rt s) keys)) (finishCmd N name))))"

abbreviation thenObserve :: "bytes \<Rightarrow> ('w session, unit) io \<Rightarrow> ('w session, unit) io" where
  "thenObserve name m \<equiv> tryE m (\<lambda>r. thenE (observe name ''ok'') (liftR r))"

definition handleBackend :: "'w net \<Rightarrow> argv \<Rightarrow> bytes \<Rightarrow> bytes \<Rightarrow> ('w session, unit) io" where
  "handleBackend N a frame name =
     (if a = [] then liftR Panic
      else let p = ClassifyPubSub (sl (a ! 0)) in
        if p = PubSubSubscribe \<or> p = PubSubPSubscribe \<or> p = PubSubSSubscribe then enterSub N a name
        else if p = PubSubPublish \<or> p = PubSubSPublish then cmdPublish N a name
        else if name = ''SWAPDB'' then thenE (observe name ''error'') (reply N errSwapDB)
        else if name = ''FLUSHALL'' then thenE (observe name ''error'') (reply N errFlushAll)
        else if name = ''FLUSHDB'' then thenObserve name (cmdFlushDB N)
        else if name = ''MOVE'' then thenObserve name (cmdMove N a)
        else if name = ''COPY'' then thenObserve name (cmdCopy N a)
        else if name = ''RANDOMKEY'' then thenObserve name (cmdRandomKey N)
        else runCommand N a frame name)"

definition handleTxn :: "'w net \<Rightarrow> argv \<Rightarrow> bytes \<Rightarrow> bytes \<Rightarrow> ('w session, unit) io" where
  "handleTxn N a frame name =
     (if name = ''MULTI'' then thenE (observe name ''ok'') (cmdMulti N)
      else if name = ''DISCARD'' then thenE (observe name ''ok'') (cmdDiscard N)
      else if name = ''EXEC'' then thenObserve name (cmdExec N)
      else if name = ''WATCH'' then thenObserve name (cmdWatch N a)
      else if name = ''UNWATCH'' then thenObserve name (cmdUnwatch N)
      else withS (\<lambda>s. if multi s
        then thenE (modify (\<lambda>s. s\<lparr>queued := queued s @ [copyArgv a]\<rparr>)) (thenE (observe name ''ok'') (reply N queuedReply))
        else handleBackend N a frame name))"

definition handle :: "'w net \<Rightarrow> argv \<Rightarrow> bytes \<Rightarrow> ('w session, unit) io" where
  "handle N a frame = withS (\<lambda>s. let name = nameOf a in
     if sub s \<noteq> None then thenObserve name (handleSub N a)
     else if name = ''SELECT'' then thenObserve name (cmdSelect N a)
     else bindE (handleLocal N a) (\<lambda>loc. case loc of
       Some v \<Rightarrow> thenE (observe name (if IsError v then ''error'' else ''ok'')) (reply N v)
     | None \<Rightarrow> handleTxn N a frame name))"

end
