(* ===== verification/Proxy_Pipeline.thy ===== *)
theory Proxy_Pipeline
  imports Proxy_Session
begin

text \<open>
  \<open>internal/proxy/pipeline.go\<close>, and the loop of \<open>session.go\<close> that feeds it: commands that
  arrive together are handled as a batch. A batch without commands that need care is grouped
  by node, each group written as one burst; the groups are flushed by goroutines that finish
  in the order \<open>sched\<close>.
\<close>

section \<open>Batches\<close>

record clientCmd =
  cArgv :: argv
  cRaw :: bytes
  cName :: bytes

record pipeItem =
  pCmd :: clientCmd
  pLocal :: Value
  hasLocal :: bool
  slow :: bool
  pSlot :: uint16
  pAddr :: bytes
  pFrame :: bytes
  pArgv :: argv
  pRead :: bool
  pReply :: Value

definition newItem :: "clientCmd \<Rightarrow> pipeItem" where
  "newItem c = \<lparr>pCmd = c, pLocal = zeroValue, hasLocal = False, slow = False, pSlot = 0, pAddr = [], pFrame = [],
     pArgv = [], pRead = False, pReply = zeroValue\<rparr>"

definition maxPipeline :: "Config \<Rightarrow> nat" where
  "maxPipeline c = (if MaxPipeline c < 1 then 128 else nat (MaxPipeline c))"

definition toCmd :: "Value \<Rightarrow> clientCmd res" where
  "toCmd v = res_bind (ArrayToArgv v) (\<lambda>a. Ok \<lparr>cArgv = a, cRaw = vRaw v, cName = nameOf a\<rparr>)"

text \<open>
  \<open>drainBatch\<close>: up to \<open>n\<close> more commands, as long as bytes are buffered or arrive within a
  millisecond.
\<close>

primrec drainMore :: "'w net \<Rightarrow> nat \<Rightarrow> clientCmd list \<Rightarrow> ('w session, clientCmd list) io" where
  "drainMore N 0 batch = ret batch"
| "drainMore N (Suc n) batch = withS (\<lambda>s.
     bindE (if inp (cr s) = [] then thenE (setDeadline 1000000) (peekClient N) else ret True) (\<lambda>more.
     if \<not> more then ret batch
     else tryE (readClient N) (\<lambda>r. case r of
       Ok v \<Rightarrow> bindE (liftR (toCmd v)) (\<lambda>c. drainMore N n (batch @ [c]))
     | Err e \<Rightarrow> if batch \<noteq> [] \<and> isTimeout e then ret batch else fail e
     | Panic \<Rightarrow> liftR Panic)))"

definition drainBatch :: "'w net \<Rightarrow> clientCmd \<Rightarrow> ('w session, clientCmd list) io" where
  "drainBatch N first = withS (\<lambda>s.
     bindE (drainMore N (maxPipeline (cfg s) - 1) [first]) (\<lambda>batch.
       thenE (setDeadline (ReadTimeout (cfg s) * 4)) (ret batch)))"

definition slowNames :: "bytes list" where
  "slowNames = [''MULTI'', ''EXEC'', ''DISCARD'', ''WATCH'', ''UNWATCH'',
     ''SUBSCRIBE'', ''SSUBSCRIBE'', ''PSUBSCRIBE'',
     ''UNSUBSCRIBE'', ''SUNSUBSCRIBE'', ''PUNSUBSCRIBE'',
     ''PUBLISH'', ''SPUBLISH'', ''PUBSUB'',
     ''MOVE'', ''COPY'', ''FLUSHDB'', ''FLUSHALL'', ''SWAPDB'', ''RANDOMKEY'',
     ''QUIT'']"

definition pipelineSlow :: "bytes \<Rightarrow> argv \<Rightarrow> bool" where
  "pipelineSlow name a = (if IsBlocking (args a) then True else List.member slowNames name)"

section \<open>Classification\<close>

abbreviation answered :: "pipeItem \<Rightarrow> Value \<Rightarrow> pipeItem" where
  "answered it v \<equiv> it\<lparr>pLocal := v, hasLocal := True\<rparr>"

definition classifySelect :: "pipeItem \<Rightarrow> argv \<Rightarrow> ('w session, pipeItem) io" where
  "classifySelect it a = withS (\<lambda>s.
     if \<not> authed s then ret (answered it errNoAuth)
     else if length a \<noteq> 2 then ret (answered it (errArgs ''select''))
     else (case ParseDBIndex (sl (a ! 1)) (MaxDatabases (cfg s)) of
       Err e \<Rightarrow> ret (answered it (DBIndexError (Some e)))
     | Panic \<Rightarrow> liftR Panic
     | Ok n \<Rightarrow> thenE (modify (\<lambda>s. s\<lparr>db := n\<rparr>)) (ret (answered it (SimpleString ''OK'')))))"

definition frameOf :: "argv \<Rightarrow> bytes \<Rightarrow> bytes res" where
  "frameOf a frame =
     (if frame = [] then Ok (EncodeCommand [] a)
      else res_bind (needsRewrite a) (\<lambda>r. Ok (if r then EncodeCommand [] a else frame)))"

definition classifyRoute :: "pipeItem \<Rightarrow> ('w session, pipeItem) io" where
  "classifyRoute it = withS (\<lambda>s. let c = pCmd it in
     bindE (liftR (if db s > 0 then RewriteArgv (cArgv c) (db s) else Ok (cArgv c))) (\<lambda>a.
     bindE (liftR (ExtractKeys a)) (\<lambda>keys.
     if length keys > 1 \<and> CrossSlot (rt s) (args keys) then
       ret (if FanoutOf (args a) \<noteq> FanoutNone then it\<lparr>slow := True\<rparr> else answered it errCross)
     else let slot = slotFor (rt s) keys in
       case (case RouteSlot (rt s) slot False of Some n \<Rightarrow> Some n | None \<Rightarrow> AnyMaster (rt s)) of
         None \<Rightarrow> ret (answered it (Error ''ERR no backend nodes''))
       | Some n \<Rightarrow> bindE (liftR (frameOf a (if db s > 0 then [] else cRaw c))) (\<lambda>f.
           if cArgv c = [] then liftR Panic
           else ret (it\<lparr>pSlot := slot, pAddr := nAddr n, pFrame := f, pArgv := a, pRead := (KindOf (sl (cArgv c ! 0)) = KindRead)\<rparr>)))))"

definition classifyPipe :: "'w net \<Rightarrow> clientCmd \<Rightarrow> ('w session, pipeItem) io" where
  "classifyPipe N c = withS (\<lambda>s. let it = newItem c in
     if sub s \<noteq> None \<or> pipelineSlow (cName c) (cArgv c) then ret (it\<lparr>slow := True\<rparr>)
     else if cName c = ''SELECT'' then classifySelect it (cArgv c)
     else bindE (handleLocal N (cArgv c)) (\<lambda>loc. case loc of
       Some v \<Rightarrow> ret (answered it v)
     | None \<Rightarrow> classifyRoute it))"

fun classifyAll :: "'w net \<Rightarrow> clientCmd list \<Rightarrow> ('w session, pipeItem list) io" where
  "classifyAll N [] = ret []"
| "classifyAll N (c # cs) = bindE (classifyPipe N c) (\<lambda>it. bindE (classifyAll N cs) (\<lambda>its. ret (it # its)))"

section \<open>Flushing\<close>

fun readReplies :: "'w net \<Rightarrow> nat \<Rightarrow> nat list \<Rightarrow> pipeItem list \<Rightarrow> Conn \<Rightarrow> ('w session, pipeItem list) io" where
  "readReplies N i [] items c = thenE (onRt (onPool i (Put N c))) (ret items)"
| "readReplies N i (k # ks) items c = withS (\<lambda>s.
     bindE (onRt (onNet (ReadConn N c (ReadTimeout (cfg s))))) (\<lambda>(r, c). case r of
       Err e \<Rightarrow> thenE (onRt (onPool i (Drop N c))) (fail e)
     | Panic \<Rightarrow> liftR Panic
     | Ok v \<Rightarrow> readReplies N i ks (items[k := (items ! k)\<lparr>pReply := v\<rparr>]) c))"

fun followRedirects :: "'w net \<Rightarrow> nat list \<Rightarrow> pipeItem list \<Rightarrow> ('w session, pipeItem list) io" where
  "followRedirects N [] items = ret items"
| "followRedirects N (k # ks) items =
     (if isRedirect (pReply (items ! k)) then
        withS (\<lambda>s. bindE (onRt (Exec N (pSlot (items ! k)) (pArgv (items ! k)) (pRead (items ! k)) (ReadTimeout (cfg s)))) (\<lambda>v.
          followRedirects N ks (items[k := (items ! k)\<lparr>pReply := v\<rparr>])))
      else followRedirects N ks items)"

definition flushGroup :: "'w net \<Rightarrow> bytes \<Rightarrow> nat list \<Rightarrow> pipeItem list \<Rightarrow> ('w session, pipeItem list) io" where
  "flushGroup N addr idx items = withS (\<lambda>s.
     bindE (onRt (CheckoutAddr N addr)) (\<lambda>(c, i).
     tryE (onRt (onNet (WriteRaw N c (concat (map (\<lambda>k. pFrame (items ! k)) idx)) (WriteTimeout (cfg s))))) (\<lambda>r. case r of
       Err e \<Rightarrow> thenE (onRt (onPool i (Drop N c))) (fail e)
     | Panic \<Rightarrow> liftR Panic
     | Ok _ \<Rightarrow> bindE (readReplies N i idx items c) (followRedirects N idx))))"

text \<open>The groups: addresses in the order they first occur, each with its positions.\<close>

definition addToGroup :: "pipeItem list \<Rightarrow> (bytes \<times> nat list) list \<Rightarrow> nat \<Rightarrow> (bytes \<times> nat list) list" where
  "addToGroup items gs i =
     (if hasLocal (items ! i) then gs
      else let a = pAddr (items ! i) in
        case map_of gs a of
          None \<Rightarrow> gs @ [(a, [i])]
        | Some idx \<Rightarrow> AList.update a (idx @ [i]) gs)"

definition groupsOf :: "pipeItem list \<Rightarrow> (bytes \<times> nat list) list" where
  "groupsOf items = foldl (addToGroup items) [] [0..<length items]"

fun flushGroups :: "'w net \<Rightarrow> (bytes \<times> nat list) list \<Rightarrow> nat list \<Rightarrow> pipeItem list \<Rightarrow> gerr list \<Rightarrow>
    ('w session, pipeItem list \<times> gerr list) io" where
  "flushGroups N gs [] items errs = ret (items, errs)"
| "flushGroups N gs (g # order) items errs =
     tryE (flushGroup N (fst (gs ! g)) (snd (gs ! g)) items) (\<lambda>r. case r of
       Ok items \<Rightarrow> flushGroups N gs order items errs
     | Err e \<Rightarrow> flushGroups N gs order items (errs @ [e])
     | Panic \<Rightarrow> liftR Panic)"

definition presentReply :: "int \<Rightarrow> pipeItem \<Rightarrow> (bytes \<times> bytes) \<times> Value" where
  "presentReply d it = (let name = cName (pCmd it); v = pReply it in
     if IsError v then ((name, classifyErr v), if isRedirectKind v then errExhausted else v)
     else ((name, ''ok''), StripReplyKeys name d v))"

definition writeReplies :: "'w net \<Rightarrow> pipeItem list \<Rightarrow> ('w session, unit) io" where
  "writeReplies N items = withS (\<lambda>s. let out = map (presentReply (db s)) items in
     thenE (modify (\<lambda>s. s\<lparr>observed := observed s @ map fst out\<rparr>)) (sendClient N (map snd out)))"

definition execFastPipeline :: "'w net \<Rightarrow> pipeItem list \<Rightarrow> ('w session, unit) io" where
  "execFastPipeline N items0 = withS (\<lambda>s.
     let items = map (\<lambda>it. if hasLocal it then it\<lparr>pReply := pLocal it\<rparr> else it) items0; gs = groupsOf items in
     bindE (flushGroups N gs (sched s (length gs)) items []) (\<lambda>(items, errs). case errs of
       e # _ \<Rightarrow> replyErr N e
     | [] \<Rightarrow> writeReplies N items))"

definition handleBatch :: "'w net \<Rightarrow> clientCmd list \<Rightarrow> ('w session, unit) io" where
  "handleBatch N batch =
     (if length batch = 1 then handle N (cArgv (batch ! 0)) (cRaw (batch ! 0))
      else bindE (classifyAll N batch) (\<lambda>items.
        if list_ex slow items then forE (\<lambda>c. handle N (cArgv c) (cRaw c)) batch
        else execFastPipeline N items))"

section \<open>The session loop\<close>

text \<open>One turn of \<open>run\<close>: \<open>False\<close> when the session is over.\<close>

definition runTurn :: "'w net \<Rightarrow> ('w session, bool) io" where
  "runTurn N = withS (\<lambda>s.
     if quit s \<or> netCtxErr N (world (rt s)) \<noteq> None then ret False
     else thenE (setDeadline (ReadTimeout (cfg s) * 4))
       (tryE (readClient N) (\<lambda>r. case r of
          Ok v \<Rightarrow> (case toCmd v of
              Ok c \<Rightarrow> tryE (bindE (drainBatch N c) (handleBatch N)) (\<lambda>r. ret (r = Ok ()))
            | Err e \<Rightarrow> tryE (reply N (Error ''ERR protocol error'')) (\<lambda>_. ret False)
            | Panic \<Rightarrow> liftR Panic)
        | Err e \<Rightarrow> ret False
        | Panic \<Rightarrow> liftR Panic)))"

partial_function (option) runLoop :: "'w net \<Rightarrow> 'w session \<Rightarrow> (unit res \<times> 'w session) option" where
  "runLoop N s = bindE (runTurn N) (\<lambda>more. if more then runLoop N else ret ()) s"

definition run :: "'w net \<Rightarrow> ('w session, unit) io" where
  "run N = thenE (runLoop N) (cleanup N)"

end
