(* ===== verification/Session_Auth.thy ===== *)
theory Session_Auth
  imports Proxy_Session
begin

text \<open>
  Authentication: until a client of a protected proxy has given the password, its commands
  are answered by the proxy alone.
\<close>

section \<open>The gate\<close>

text \<open>A session that has not authenticated holds no transaction, no connection and no subscription.\<close>

definition locked :: "'w session \<Rightarrow> bool" where
  "locked s \<longleftrightarrow> requireAuth s \<and> \<not> authed s \<and> \<not> multi s \<and> pin s = None \<and> sub s = None"

text \<open>Commands that are answered before authentication with something else than \<open>NOAUTH\<close>.\<close>

abbreviation openNames :: "bytes set" where
  "openNames \<equiv> {''AUTH'', ''HELLO'', ''QUIT'', ''RESET''}"

lemma helloAuth_locked:
  "\<exists>v s0. helloAuth a s = Some (Ok v, s0) \<and> rt s0 = rt s \<and> (s0 = s \<or> s0 = s\<lparr>authed := True\<rparr> \<and> clientPass s \<in> set (args a))"
proof (cases "find (\<lambda>i. EqualFold (sl (a ! i)) ''AUTH'') [1..<length a - 1]")
  case None
  then show ?thesis by (simp add: helloAuth_def)
next
  case (Some i)
  have "clientPass s \<in> set (args a)" if "i + 2 < length a" "sl (a ! (i + 2)) = clientPass s"
    using that nth_mem [of "i + 2" "args a"] by auto
  then show ?thesis using Some by (auto simp: helloAuth_def logIn_def thenE_def bindE_def)
qed

lemma doAuth_locked:
  "\<exists>v s0. doAuth a s = Some (Ok v, s0) \<and> rt s0 = rt s \<and> (s0 = s \<or> s0 = s\<lparr>authed := True\<rparr> \<and> clientPass s \<in> set (args a))"
proof -
  have "clientPass s \<in> set (args a)" if "length a = 2 \<or> length a = 3" "sl (a ! (length a - 1)) = clientPass s"
    using that nth_mem [of "length a - 1" "args a"] by auto
  then show ?thesis by (auto simp: doAuth_def logIn_def)
qed


lemma handleLocal_locked:
  assumes l: "locked s" and "a \<noteq> []" and "nameOf a \<noteq> ''COMMAND''"
  shows "\<exists>v s0. handleLocal N a s = Some (Ok (Some v), s0) \<and> rt s0 = rt s \<and> replied s0 = replied s \<and>
    cfg s0 = cfg s \<and> cconn s0 = cconn s \<and> wfail s0 = wfail s \<and>
    (authed s0 \<longrightarrow> clientPass s \<in> set (args a)) \<and> (\<not> authed s0 \<longrightarrow> locked s0) \<and>
    (nameOf a \<notin> openNames \<longrightarrow> v = errNoAuth)"
proof -
  have name: "upperName (a ! 0) = nameOf a" using assms(2) by (simp add: nameOf_def)
  consider (auth) "nameOf a = ''AUTH''" | (hello) "nameOf a = ''HELLO''" | (quit) "nameOf a = ''QUIT''"
    | (reset) "nameOf a = ''RESET''" | (other) "nameOf a \<notin> openNames" by blast
  then show ?thesis
  proof cases
    case auth
    then have "handleLocal N a s = bindE (doAuth a) (\<lambda>v. ret (Some v)) s"
      using assms(2) by (simp add: handleLocal_def name)
    moreover obtain v s0 where "doAuth a s = Some (Ok v, s0)" "rt s0 = rt s" "s0 = s \<or> s0 = s\<lparr>authed := True\<rparr> \<and> clientPass s \<in> set (args a)"
      using doAuth_locked [of a s] by blast
    ultimately show ?thesis using l auth by (intro exI [of _ v] exI [of _ s0]) (auto simp: locked_def)
  next
    case hello
    then have "handleLocal N a s = bindE (helloAuth a) (\<lambda>v. ret (Some (case v of Some v \<Rightarrow> v | None \<Rightarrow> errNoAuth))) s"
      using assms(2) l by (simp add: handleLocal_def name locked_def)
    moreover obtain v s0 where "helloAuth a s = Some (Ok v, s0)" "rt s0 = rt s" "s0 = s \<or> s0 = s\<lparr>authed := True\<rparr> \<and> clientPass s \<in> set (args a)"
      using helloAuth_locked [of a s] by blast
    ultimately show ?thesis using l hello by (intro exI [of _ "case v of Some v \<Rightarrow> v | None \<Rightarrow> errNoAuth"] exI [of _ s0]) (auto simp: locked_def)
  next
    case quit
    then have "handleLocal N a s = Some (Ok (Some (SimpleString ''OK'')), s\<lparr>quit := True\<rparr>)"
      using assms(2) by (simp add: handleLocal_def name)
    then show ?thesis using l quit by (simp add: locked_def)
  next
    case reset
    let ?s = "s\<lparr>multi := False, queued := [], watched := [], db := 0, authed := False\<rparr>"
    have "handleLocal N a s = Some (Ok (Some (SimpleString ''OK'')), ?s)"
      using assms(2) l reset by (simp add: handleLocal_def name resetTxn_def dropPin_def locked_def)
    then show ?thesis using l reset by (simp add: locked_def)
  next
    case other
    then have "handleLocal N a s = Some (Ok (Some errNoAuth), s)"
      using assms l by (simp add: handleLocal_def name locked_def Let_def)
    then show ?thesis using l by (simp add: locked_def)
  qed
qed

lemma thenObserve_eq:
  assumes "m s = Some (r, s')" and "r \<noteq> Panic"
  shows "thenObserve name m s = Some (r, s'\<lparr>observed := observed s' @ [(name, ''ok'')]\<rparr>)"
  using assms by (simp add: tryE_def thenE_def bindE_def observe_def split: res.split)

text \<open>The world after one reply to the client.\<close>

definition afterReply :: "'w net \<Rightarrow> 'w session \<Rightarrow> Value \<Rightarrow> 'w" where
  "afterReply N s v = snd (netWrite N (cconn s) (enc v) (WriteTimeout (cfg s)) (world (rt s)))"

lemma reply_effect:
  assumes "wfail s = None"
  shows "\<exists>r s'. reply N v s = Some (r, s') \<and> r \<noteq> Panic \<and> rt s' = (rt s)\<lparr>world := afterReply N s v\<rparr> \<and>
    (authed s' = authed s) \<and> (locked s' = locked s) \<and> (r = Ok () \<longrightarrow> replied s' = replied s @ [v])"
proof (cases "netWrite N (cconn s) (enc v) (WriteTimeout (cfg s)) (world (rt s))")
  case (Pair x w)
  then show ?thesis
    using assms by (cases x) (simp_all add: reply_def sendClient_def zoom_def afterReply_def locked_def)
qed

section \<open>Properties\<close>

text \<open>
  C4. Before authentication nothing leaves the proxy. On a protected proxy the command of a
  client that has not authenticated returns, and its only effect outside the session is one
  reply to that client: no pool, no connection and no slot is touched. The reply is \<open>NOAUTH\<close>
  but for \<open>AUTH\<close>, \<open>HELLO\<close>, \<open>QUIT\<close> and \<open>RESET\<close>. The client is authenticated
  afterwards only if the password was among the arguments; otherwise it still holds no
  transaction, no connection and no subscription. The exceptions are \<open>COMMAND\<close>, which is
  forwarded, and the empty command.
\<close>

theorem unauthenticated_stays_local:
  assumes "locked s" and "wfail s = None" and "a \<noteq> []" and "nameOf a \<noteq> ''COMMAND''"
  shows "\<exists>r s' v. handle N a frame s = Some (r, s') \<and> rt s' = (rt s)\<lparr>world := afterReply N s v\<rparr> \<and>
    (r = Ok () \<longrightarrow> replied s' = replied s @ [v]) \<and> (nameOf a \<notin> openNames \<longrightarrow> v = errNoAuth) \<and>
    (authed s' \<longrightarrow> clientPass s \<in> set (args a)) \<and> (\<not> authed s' \<longrightarrow> locked s')"
proof (cases "nameOf a = ''SELECT''")
  case True
  obtain r s' where r: "reply N errNoAuth s = Some (r, s')" "r \<noteq> Panic" "rt s' = (rt s)\<lparr>world := afterReply N s errNoAuth\<rparr>"
    "authed s' = authed s" "locked s' = locked s" "r = Ok () \<longrightarrow> replied s' = replied s @ [errNoAuth]"
    using reply_effect [OF assms(2)] by blast
  have sel: "cmdSelect N a s = Some (r, s')" using assms(1) r(1) by (simp add: cmdSelect_def locked_def)
  have "handle N a frame s = thenObserve (nameOf a) (cmdSelect N a) s"
    using True assms(1) by (simp add: handle_def locked_def Let_def)
  also have "\<dots> = Some (r, s'\<lparr>observed := observed s' @ [(nameOf a, ''ok'')]\<rparr>)"
    by (rule thenObserve_eq) (fact sel r(2))+
  finally have "handle N a frame s = Some (r, s'\<lparr>observed := observed s' @ [(nameOf a, ''ok'')]\<rparr>)" .
  moreover have "\<not> authed s'" "locked s'" using r assms(1) by (simp_all add: locked_def)
  ultimately show ?thesis
    using r by (intro exI [of _ r] exI [of _ "s'\<lparr>observed := observed s' @ [(nameOf a, ''ok'')]\<rparr>"] exI [of _ errNoAuth])
      (simp add: locked_def)
next
  case False
  obtain v s0 where l: "handleLocal N a s = Some (Ok (Some v), s0)" "rt s0 = rt s" "replied s0 = replied s"
    "cfg s0 = cfg s" "cconn s0 = cconn s" "wfail s0 = wfail s" "authed s0 \<longrightarrow> clientPass s \<in> set (args a)" "\<not> authed s0 \<longrightarrow> locked s0"
    "nameOf a \<notin> openNames \<longrightarrow> v = errNoAuth"
    using handleLocal_locked [OF assms(1,3,4), of N] by blast
  let ?s = "s0\<lparr>observed := observed s0 @ [(nameOf a, if IsError v then ''error'' else ''ok'')]\<rparr>"
  have "wfail ?s = None" using l assms(2) by simp
  from reply_effect [OF this, of N v] obtain r s' where r: "reply N v ?s = Some (r, s')" "rt s' = (rt ?s)\<lparr>world := afterReply N ?s v\<rparr>"
    "authed s' = authed ?s" "locked s' = locked ?s" "r = Ok () \<longrightarrow> replied s' = replied ?s @ [v]"
    by blast
  have "handle N a frame s = Some (r, s')"
    using False assms(1) l(1) r(1) by (simp add: handle_def locked_def observe_def Let_def)
  moreover have "afterReply N ?s v = afterReply N s v" using l by (simp add: afterReply_def)
  moreover have "locked ?s = locked s0" by (simp add: locked_def)
  ultimately show ?thesis
    using l r by (intro exI [of _ r] exI [of _ s'] exI [of _ v]) simp
qed

text \<open>A session that waits for the password \<open>pw\<close>.\<close>

definition lockedSession :: "unit session" where
  "lockedSession = newSession (demoConfig\<lparr>ClientAuthPassword := ''pw''\<rparr>) demoRouter 0 (\<lambda>n. [0..<n]) 1"

theorem unauthenticated_stays_local_witness:
  "\<exists>r s'. handle deadNet [Some ''FLUSHDB''] [] lockedSession = Some (r, s') \<and> rt s' = demoRouter \<and> \<not> authed s'"
proof -
  have name: "nameOf [Some ''FLUSHDB''] = ''FLUSHDB''"
    by (simp add: nameOf_def upperName_def UpperASCII_map upper_byte_def)
  have "\<exists>r s' v. handle deadNet [Some ''FLUSHDB''] [] lockedSession = Some (r, s') \<and>
    rt s' = (rt lockedSession)\<lparr>world := afterReply deadNet lockedSession v\<rparr> \<and> (r = Ok () \<longrightarrow> replied s' = replied lockedSession @ [v]) \<and>
    (nameOf [Some ''FLUSHDB''] \<notin> openNames \<longrightarrow> v = errNoAuth) \<and>
    (authed s' \<longrightarrow> clientPass lockedSession \<in> set (args [Some ''FLUSHDB''])) \<and> (\<not> authed s' \<longrightarrow> locked s')"
    by (rule unauthenticated_stays_local) (simp_all add: lockedSession_def newSession_def locked_def name)
  then show ?thesis by (auto simp: lockedSession_def newSession_def afterReply_def deadNet_def demoRouter_def)
qed

end
