(* ===== verification/Session_Replies.thy ===== *)
theory Session_Replies
  imports Proxy_Session
begin

text \<open>
  One reply per command: every handler that is not a subscription writes exactly one value to
  the client when it succeeds. The proofs follow the code with the rules of \<open>Go_IO\<close>: what a
  handler does before it replies is silent, and every path ends in one \<open>reply\<close>.
\<close>

section \<open>Silent calls and answers\<close>

abbreviation at :: "Value list \<Rightarrow> 'w session \<Rightarrow> bool" where
  "at l s \<equiv> replied s = l"

definition one :: "Value list \<Rightarrow> 'a res \<Rightarrow> 'w session \<Rightarrow> bool" where
  "one l r s = (case r of Ok _ \<Rightarrow> (\<exists>v. replied s = l @ [v]) | _ \<Rightarrow> replied s = l \<or> (\<exists>v. replied s = l @ [v]))"

abbreviation silent :: "Value list \<Rightarrow> ('w session, 'a) io \<Rightarrow> bool" where
  "silent l m \<equiv> keeps (at l) m"

abbreviation answers :: "Value list \<Rightarrow> ('w session, 'a) io \<Rightarrow> bool" where
  "answers l m \<equiv> ensures (at l) m (one l)"

named_theorems answer_rule \<open>calls that answer, and calls that do not\<close>

lemma silent_onRt [answer_rule]: "silent l (onRt m)"
  by (rule keeps_zoom_frame) simp

lemma silent_modify: "(\<And>s. replied (f s) = replied s) \<Longrightarrow> silent l (modify f)"
  by (rule keeps_modify) simp

lemma silent_observe [answer_rule]: "silent l (observe name result)"
  unfolding observe_def by (rule silent_modify) simp

lemma answers_reply [answer_rule]: "answers l (reply N v)"
proof (rule ensuresI)
  fix s r s'
  assume "at l s" and "reply N v s = Some (r, s')"
  then show "one l r s'"
    by (auto simp: reply_def sendClient_def one_def tryE_def zoom_def split: option.splits res.splits prod.splits)
qed

lemma answers_bindE [answer_rule]: "silent l m \<Longrightarrow> (\<And>a. answers l (k a)) \<Longrightarrow> answers l (bindE m k)"
  by (rule ensures_bindE [where R = "\<lambda>_. at l"]) (auto simp: one_def)

lemma answers_thenE [answer_rule]: "silent l m \<Longrightarrow> answers l n \<Longrightarrow> answers l (thenE m n)"
  unfolding thenE_def by (rule answers_bindE)

lemma answers_tryE [answer_rule]: "silent l m \<Longrightarrow> (\<And>r. answers l (k r)) \<Longrightarrow> answers l (tryE m k)"
  by (rule ensures_tryE [where R = "\<lambda>_. at l"]) (auto simp: one_def)

lemma answers_fail [answer_rule]: "answers l (fail e)" "answers l (liftR Panic)"
  by (simp_all add: ensures_def one_def)

lemma one_frame: "replied s' = replied s \<Longrightarrow> one l r s' = one l r s"
  by (cases r) (simp_all add: one_def)

text \<open>A call that runs after the answer, whatever the answer was.\<close>

lemma answers_finally:
  assumes m: "answers l m" and n: "\<And>l. silent l n"
  shows "answers l (tryE m (\<lambda>r. thenE n (liftR r)))"
proof (rule ensures_tryE [OF m])
  fix r :: "'b res"
  have "keeps (\<lambda>s. one l r s) n"
    unfolding ensures_def using n [unfolded ensures_def] one_frame by metis
  then show "ensures (one l r) (thenE n (liftR r)) (one l)"
    unfolding thenE_def
    by (rule ensures_bindE) (auto simp: ensures_def one_def split: res.splits)
qed (simp add: one_def)

lemma answers_thenObserve [answer_rule]: "answers l m \<Longrightarrow> answers l (thenObserve name m)"
  by (rule answers_finally) (assumption, rule silent_observe)

section \<open>The handlers\<close>

lemma silent_dropPin [answer_rule]: "silent l (dropPin N)"
  unfolding dropPin_def by (intro io_rule answer_rule silent_modify) simp_all

lemma silent_doBlocking [answer_rule]: "silent l (doBlocking N slot a rto)"
  unfolding doBlocking_def by (intro io_rule answer_rule)

lemma silent_runGroups [answer_rule]: "silent l (runGroups N gs read rto order reps errs)"
  by (induction order arbitrary: reps errs) (unfold runGroups.simps, (intro io_rule answer_rule, assumption?)+)

lemma answers_finishFanout [answer_rule]: "answers l (finishFanout N name a keys groups res)"
  unfolding finishFanout_def by (intro io_rule answer_rule)

lemma answers_cmdFanout [answer_rule]: "answers l (cmdFanout N a name)"
  unfolding cmdFanout_def by (intro io_rule answer_rule)

lemma answers_cmdMulti [answer_rule]: "answers l (cmdMulti N)" "answers l (cmdDiscard N)" "answers l (cmdSelect N a)"
  unfolding cmdMulti_def cmdDiscard_def cmdSelect_def by (intro io_rule answer_rule silent_modify; simp)+

lemma silent_doPinned [answer_rule]: "silent l (doPinned N a)" "silent l (ensurePin N slot)"
  unfolding doPinned_def ensurePin_def by (intro io_rule answer_rule silent_modify; simp)+

lemma answers_cmdWatch [answer_rule]: "answers l (cmdWatch N a)" "answers l (cmdUnwatch N)"
  unfolding cmdWatch_def cmdUnwatch_def by (intro io_rule answer_rule silent_modify; simp)+

lemma answers_txnStep: "(\<And>v c. answers l (k v c)) \<Longrightarrow> answers l (txnStep N i c a k)"
  unfolding txnStep_def by (intro io_rule answer_rule)

lemma answers_txnSteps: "(\<And>c. answers l (k c)) \<Longrightarrow> answers l (txnSteps N i as c k)"
proof (induction as arbitrary: c)
  case (Cons a as)
  show ?case unfolding txnSteps.simps by (intro answers_txnStep Cons.IH Cons.prems)
qed simp

lemma answers_finishExec: "answers l (finishExec N i its d v c)"
  unfolding finishExec_def by (intro io_rule answer_rule silent_modify answers_finally; simp)

lemma answers_execOn [answer_rule]: "answers l (execOn N its backend d x)"
  unfolding execOn_def by (intro io_rule answers_txnSteps answers_txnStep answers_finishExec)

lemma answers_cmdExec [answer_rule]: "answers l (cmdExec N)"
  unfolding cmdExec_def by (intro io_rule answer_rule silent_modify; simp)

lemma silent_transferKey [answer_rule]: "silent l (transferKey N src dst delSrc replace)"
  unfolding transferKey_def moveInSlot_def moveAcross_def by (intro io_rule answer_rule)

lemma answers_replyInt: "silent l m \<Longrightarrow> answers l (replyInt N m)"
  unfolding replyInt_def by (intro io_rule answer_rule)

lemma answers_cmdMove [answer_rule]: "answers l (cmdMove N a)" "answers l (cmdCopy N a)"
  unfolding cmdMove_def cmdCopy_def
  by (intro io_rule answer_rule answers_replyInt)
     (auto intro!: keeps_withS answer_rule answers_replyInt ensures_if split: sum.split)

lemma silent_scanTurn: "silent l (scanTurn N pat i cursor c)"
  unfolding scanTurn_def Let_def by (intro io_rule answer_rule)

lemma silent_scanLoop: "silent l (scanLoop N pat i cursor c)"
proof -
  have "replied (snd y) = replied s" if "scanLoop N pat i cursor c s = Some y" for s y
  proof (rule scanLoop.raw_induct [of "\<lambda>N pat i cursor c s y. replied (snd y) = replied s", OF _ that], goal_cases)
    case (1 f N pat i cursor c s y)
    have rest: "silent l (\<lambda>s. f N pat i cur c s)" for l cur c
      using 1(1) by (force simp: ensures_def)
    have "silent (replied s) (bindE (scanTurn N pat i cursor c) (\<lambda>x. case x of None \<Rightarrow> ret () | Some (cur, c) \<Rightarrow> f N pat i cur c))"
      by (intro io_rule silent_scanTurn rest)
    from ensuresD [OF this refl] 1(2) show ?case by (cases y) auto
  qed
  then show ?thesis by (force simp: ensures_def)
qed

lemma silent_scanDeleteOn [answer_rule]: "silent l (scanDeleteOn N addr pat)"
  unfolding scanDeleteOn_def by (intro io_rule answer_rule silent_scanLoop)

lemma answers_keyspace [answer_rule]: "answers l (cmdFlushDB N)" "answers l (cmdRandomKey N)" "answers l (cmdPublish N a name)"
  unfolding cmdFlushDB_def cmdRandomKey_def cmdPublish_def by (intro io_rule answer_rule)+

lemma answers_runCommand [answer_rule]: "answers l (runCommand N a frame name)"
proof -
  have "silent l (execCmd N a frame slot)" for a frame slot
    unfolding execCmd_def by (intro io_rule answer_rule)
  moreover have "answers l (finishCmd N name r)" for r
    unfolding finishCmd_def by (intro io_rule answer_rule)
  ultimately show ?thesis
    unfolding runCommand_def by (intro io_rule answer_rule)
qed

definition subscribing :: "argv \<Rightarrow> bool" where
  "subscribing a \<longleftrightarrow> a \<noteq> [] \<and> ClassifyPubSub (sl (a ! 0)) \<in> {PubSubSubscribe, PubSubPSubscribe, PubSubSSubscribe}"

lemma answers_handleBackend: "\<not> subscribing a \<Longrightarrow> answers l (handleBackend N a frame name)"
  unfolding handleBackend_def Let_def
  by (intro ensures_if answer_rule) (auto simp: subscribing_def)

lemma answers_handleTxn:
  assumes "\<not> subscribing a \<or> multi s" and "handleTxn N a frame name s = Some (r, s')"
  shows "one (replied s) r s'"
proof -
  let ?q = "thenE (modify (\<lambda>s. s\<lparr>queued := queued s @ [copyArgv a]\<rparr>)) (thenE (observe name ''ok'') (reply N queuedReply))"
  have q: "answers l ?q" for l by (intro answer_rule silent_modify) simp
  have "answers l (if name = ''MULTI'' then thenE (observe name ''ok'') (cmdMulti N)
      else if name = ''DISCARD'' then thenE (observe name ''ok'') (cmdDiscard N)
      else if name = ''EXEC'' then thenObserve name (cmdExec N)
      else if name = ''WATCH'' then thenObserve name (cmdWatch N a)
      else if name = ''UNWATCH'' then thenObserve name (cmdUnwatch N)
      else if multi s then ?q else handleBackend N a frame name)" for l
    using assms(1) by (intro ensures_if answer_rule q answers_handleBackend) blast
  from ensuresD [OF this refl, of s r s'] show ?thesis
    using assms(2) by (simp add: handleTxn_def split: if_splits)
qed

lemma handleLocal_None:
  assumes "handleLocal N a s = Some (Ok None, s')"
  shows "s' = s"
proof -
  let ?Q = "\<lambda>r t. r = Ok None \<longrightarrow> t = s"
  have bind: "ensures P (bindE m (\<lambda>v. ret (Some (g v)))) ?Q" for P and m :: "('a session, 'b) io" and g
    by (rule ensures_bindE [where R = "\<lambda>_ _. True"]) (auto simp: ensures_def)
  have seq: "ensures P (thenE m (ret (Some v))) ?Q" for P and m :: "('a session, 'b) io" and v
    unfolding thenE_def by (rule bind)
  have seq2: "ensures P (thenE m (thenE n (ret (Some v)))) ?Q" for P and m n :: "('a session, unit) io" and v
    unfolding thenE_def by (rule ensures_bindE [where R = "\<lambda>_ _. True"]) (auto simp: ensures_def bindE_def split: option.splits res.splits)
  have plain: "ensures (\<lambda>t. t = s) (ret x) ?Q" for x
    by (simp add: ensures_def)
  have "ensures (\<lambda>t. t = s) (handleLocal N a) ?Q"
    unfolding handleLocal_def by (intro keeps_withS ensures_if ensures_Let bind seq seq2 plain)
  from ensuresD [OF this refl assms] show ?thesis by simp
qed

lemma silent_handleLocal: "silent l (handleLocal N a)"
proof -
  have "silent l logIn" unfolding logIn_def by (rule silent_modify) simp
  moreover have "silent l (resetTxn N)" unfolding resetTxn_def by (intro io_rule answer_rule silent_modify) simp
  ultimately show ?thesis
    unfolding handleLocal_def doAuth_def helloAuth_def by (intro io_rule answer_rule silent_modify; simp)
qed

section \<open>Properties\<close>

text \<open>
  C5. One reply per command. A command of a client that is not in subscriber mode, other than a
  subscription that takes effect, writes exactly one value to the client when its handler
  succeeds, and never more than one. This covers every path: local commands, transactions,
  fan-out over several nodes, moves between databases, scans and all errors.
\<close>

theorem one_reply_per_command:
  assumes "sub s = None" and "\<not> subscribing a \<or> multi s" and "handle N a frame s = Some (r, s')"
  shows "length (replied s') \<le> length (replied s) + 1 \<and> (r = Ok () \<longrightarrow> (\<exists>v. replied s' = replied s @ [v]))"
proof -
  have "one (replied s) r s'"
  proof (cases "nameOf a = ''SELECT''")
    case True
    then have "handle N a frame s = thenObserve (nameOf a) (cmdSelect N a) s"
      using assms(1) by (simp add: handle_def Let_def)
    moreover have "answers (replied s) (thenObserve (nameOf a) (cmdSelect N a))" by (intro answer_rule)
    ultimately show ?thesis using assms(3) by (simp add: ensures_def)
  next
    case False
    let ?k = "\<lambda>loc. case loc of
       Some v \<Rightarrow> thenE (observe (nameOf a) (if IsError v then ''error'' else ''ok'')) (reply N v)
     | None \<Rightarrow> handleTxn N a frame (nameOf a)"
    have run: "bindE (handleLocal N a) ?k s = Some (r, s')"
      using False assms(1,3) by (simp add: handle_def Let_def)
    then obtain r1 s1 where l: "handleLocal N a s = Some (r1, s1)"
      by (cases "handleLocal N a s") auto
    have s1: "replied s1 = replied s" by (rule ensuresD [OF silent_handleLocal refl l])
    have ans: "answers l (thenE (observe n x) (reply N v))" for l n x v by (intro answer_rule)
    show ?thesis
    proof (cases r1)
      case (Ok loc)
      show ?thesis
      proof (cases loc)
        case None
        then show ?thesis using answers_handleTxn [OF assms(2)] run l Ok handleLocal_None [of N a s s1] by auto
      next
        case (Some v)
        then show ?thesis using ensuresD [OF ans s1] run l Ok by simp
      qed
    qed (use run l s1 in \<open>auto simp: one_def\<close>)
  qed
  then show ?thesis by (cases r) (auto simp: one_def)
qed

text \<open>An open proxy whose backends are all unreachable.\<close>

definition openSession :: "unit session" where
  "openSession = newSession demoConfig demoRouter 0 (\<lambda>n. [0..<n]) 1"

definition mutedNet :: "unit net" where
  "mutedNet = deadNet\<lparr>netWrite := (\<lambda>i b t w. (None, w))\<rparr>"

theorem one_reply_per_command_witness:
  "\<exists>s' v. handle mutedNet [Some ''PING''] [] openSession = Some (Ok (), s') \<and> replied s' = [v]"
proof -
  have ok: "\<exists>s'. reply mutedNet v s = Some (Ok (), s')" if "wfail s = None" for v s
    using that by (simp add: reply_def sendClient_def mutedNet_def zoom_def)
  have o: "sub openSession = None" "authed openSession" "wfail openSession = None" "replied openSession = []"
    by (simp_all add: openSession_def newSession_def demoConfig_def Defaults_def)
  have name: "nameOf [Some ''PING''] = ''PING''" "upperName (Some ''PING'') = ''PING''"
    by (simp_all add: nameOf_def upperName_def UpperASCII_map upper_byte_def)
  have "handleLocal mutedNet [Some ''PING''] openSession = Some (Ok (Some plusPong), openSession)"
    using o(2) by (simp add: handleLocal_def name Let_def)
  then have "handle mutedNet [Some ''PING''] [] openSession =
      reply mutedNet plusPong (openSession\<lparr>observed := observed openSession @ [(''PING'', if IsError plusPong then ''error'' else ''ok'')]\<rparr>)"
    using o(1) by (simp add: handle_def Let_def name observe_def)
  then obtain s' where h: "handle mutedNet [Some ''PING''] [] openSession = Some (Ok (), s')"
    using ok [of "openSession\<lparr>observed := observed openSession @ [(''PING'', if IsError plusPong then ''error'' else ''ok'')]\<rparr>"] o(3) by auto
  have "\<not> subscribing [Some ''PING''] \<or> multi openSession"
    by (simp add: subscribing_def ClassifyPubSub_def UpperASCII_map upper_byte_def)
  from one_reply_per_command [OF o(1) this h] h o(4) show ?thesis by auto
qed

end
