(* ===== verification/Session_Returns.thy ===== *)
theory Session_Returns
  imports Proxy_Pipeline
begin

text \<open>
  Termination. A call can fail to return for two reasons only: a caller of \<open>Pool.Get\<close> that
  nobody wakes, and a scan whose cursor never comes back to 0. Without these every command of
  a session is handled. \<open>returns\<close> is closed under the combinators, so the proofs follow the code.
\<close>

section \<open>Calls that return\<close>

definition returns :: "('s, 'a) io \<Rightarrow> bool" where
  "returns m \<longleftrightarrow> (\<forall>s. m s \<noteq> None)"

named_theorems return_rule \<open>calls that return\<close>

lemma returnsD: "returns m \<Longrightarrow> \<exists>r s'. m s = Some (r, s')"
  unfolding returns_def by (metis option.exhaust surj_pair)

lemma returns_basic [return_rule]:
  "returns (ret a)" "returns (fail e)" "returns (liftR r)" "returns (gets f)" "returns (modify g)"
  by (simp_all add: returns_def)

lemma returns_bindE [return_rule]: "returns m \<Longrightarrow> (\<And>a. returns (k a)) \<Longrightarrow> returns (bindE m k)"
  by (simp add: returns_def bindE_def split: option.split res.split)

lemma returns_tryE [return_rule]: "returns m \<Longrightarrow> (\<And>r. returns (k r)) \<Longrightarrow> returns (tryE m k)"
  by (simp add: returns_def tryE_def split: option.split res.split)

lemma returns_thenE [return_rule]: "returns m \<Longrightarrow> returns n \<Longrightarrow> returns (thenE m n)"
  unfolding thenE_def by (rule returns_bindE)

lemma returns_forE [return_rule]: "(\<And>x. returns (f x)) \<Longrightarrow> returns (forE f xs)"
  by (induction xs) (auto intro: return_rule)

lemma returns_withS [return_rule]: "(\<And>s. returns (f s)) \<Longrightarrow> returns (withS f)"
  by (simp add: returns_def)

lemma returns_zoom [return_rule]: "returns m \<Longrightarrow> returns (zoom get put m)"
  by (auto simp: returns_def zoom_def split: option.split)

lemma returns_case [return_rule]:
  "(\<And>a. returns (f a)) \<Longrightarrow> (\<And>e. returns (g e)) \<Longrightarrow> returns h \<Longrightarrow> returns (case r of Ok a \<Rightarrow> f a | Err e \<Rightarrow> g e | Panic \<Rightarrow> h)"
  "(\<And>a b. returns (p a b)) \<Longrightarrow> returns (case x of (a, b) \<Rightarrow> p a b)"
  "returns h \<Longrightarrow> (\<And>a. returns (f a)) \<Longrightarrow> returns (case y of None \<Rightarrow> h | Some a \<Rightarrow> f a)"
  "returns h \<Longrightarrow> (\<And>a as. returns (q a as)) \<Longrightarrow> returns (case z of [] \<Rightarrow> h | a # as \<Rightarrow> q a as)"
  "(\<And>a. returns (f a)) \<Longrightarrow> (\<And>e. returns (g' e)) \<Longrightarrow> returns (case t of Inl a \<Rightarrow> f a | Inr e \<Rightarrow> g' e)"
  "returns h \<Longrightarrow> returns h' \<Longrightarrow> returns (if b then h else h')"
  "(\<And>a. returns (f a)) \<Longrightarrow> returns (let a = u in f a)"
  by (auto split: res.split prod.split option.split list.split sum.split)

section \<open>Connections, pools and the router\<close>

text \<open>Nobody waits for a connection forever.\<close>

definition never_stuck :: "'w net \<Rightarrow> bool" where
  "never_stuck N \<longleftrightarrow> (\<forall>a w. fst (netWake N a w) \<noteq> NoWake)"

lemma returns_Conn [return_rule]:
  "returns (ReadConn N c t)" "returns (WriteRaw N c f t)" "returns (DoRaw N c f wt rto)" "returns (Do N c a wt rto)"
proof -
  show rdr: "returns (ReadConn N c t)" for t
    by (auto simp: returns_def ReadConn_def split: prod.split sum.split res.split)
  show wr: "returns (WriteRaw N c f t)" for f t
    by (auto simp: returns_def WriteRaw_def split: prod.split option.split)
  show "returns (DoRaw N c f wt rto)" "returns (Do N c a wt rto)"
    unfolding Do_def DoRaw_def by (intro return_rule rdr wr)+
qed

lemma returns_connect: "returns (connect N os)"
  by (auto simp: returns_def connect_def Let_def split: prod.split sum.split option.split)

lemma returns_greet: "returns m \<Longrightarrow> (\<And>c. returns (k c)) \<Longrightarrow> returns (greet N m k)"
  unfolding greet_def closeConn_def by (intro return_rule)

lemma returns_roundTrip: "returns (roundTrip N c a wt rto)"
  unfolding roundTrip_def by (intro return_rule)

lemma returns_dial: "returns (dial N)"
proof -
  have hello: "returns (if oPassword os \<noteq> []
      then greet N (auth N c (oUsername os) (oPassword os) (oWriteTimeout os) (oReadTimeout os))
        (\<lambda>c. if oReadOnly os then greet N (roundTrip N c [Some ''READONLY''] (oWriteTimeout os) (oReadTimeout os)) ret else ret c)
      else (if oReadOnly os then greet N (roundTrip N c [Some ''READONLY''] (oWriteTimeout os) (oReadTimeout os)) ret else ret c))" for os c
    unfolding auth_def by (intro return_rule returns_greet returns_roundTrip)
  have "dial N (p, w) \<noteq> None" for p w
  proof -
    obtain r w1 where c: "connect N (opts p) w = Some (r, w1)" using returnsD [OF returns_connect [of N "opts p"], of w] by blast
    show ?thesis
    proof (cases r)
      case (Ok k)
      obtain r2 w2 where h: "(if oPassword (opts p) \<noteq> []
        then greet N (auth N k (oUsername (opts p)) (oPassword (opts p)) (oWriteTimeout (opts p)) (oReadTimeout (opts p)))
          (\<lambda>c. if oReadOnly (opts p) then greet N (roundTrip N c [Some ''READONLY''] (oWriteTimeout (opts p)) (oReadTimeout (opts p))) ret else ret c)
        else (if oReadOnly (opts p) then greet N (roundTrip N k [Some ''READONLY''] (oWriteTimeout (opts p)) (oReadTimeout (opts p))) ret else ret k)) w1
          = Some (r2, w2)"
        using returnsD [OF hello [of "opts p" k], of w1] by blast
      show ?thesis by (simp only: dial_def prod.case c Ok option.case res.case Let_def h) simp
    qed (simp_all add: dial_def c)
  qed
  then show ?thesis by (auto simp: returns_def)
qed

lemma returns_Get:
  assumes "never_stuck N"
  shows "returns (Get N)"
proof -
  have "awaitConn N (p, w) \<noteq> None" for p w
    using assms [unfolded never_stuck_def, rule_format, of "oAddr (opts p)" w]
    by (cases "netWake N (oAddr (opts p)) w") (auto simp: awaitConn_def split: wake.split)
  then have wait: "returns (awaitConn N)" by (auto simp: returns_def)
  have ctx: "returns (\<lambda>(p, w). case netCtxErr N w of Some _ \<Rightarrow> fail e (p, w) | None \<Rightarrow> awaitConn N (p, w))" for e
    using wait by (auto simp: returns_def split: option.split)
  have new: "returns (tryE (dial N) (\<lambda>r. case r of
       Ok c \<Rightarrow> thenE (modify (\<lambda>(p, w). (p\<lparr>active := active p + 1\<rparr>, w))) (ret c)
     | Err e \<Rightarrow> (\<lambda>(p, w). case netCtxErr N w of Some _ \<Rightarrow> fail e (p, w) | None \<Rightarrow> awaitConn N (p, w))
     | Panic \<Rightarrow> liftR Panic))"
    by (intro return_rule returns_dial ctx)
  have "returns (checkout N)"
    using new wait by (auto simp: returns_def checkout_def split: list.split)
  then have "returns (thenE (modify (\<lambda>(p, w). (p\<lparr>waiters := waiters p + 1\<rparr>, w)))
      (tryE (checkout N) (\<lambda>r. thenE (modify (\<lambda>(p, w). (p\<lparr>waiters := waiters p - 1\<rparr>, w))) (liftR r))))"
    by (intro return_rule)
  then show ?thesis by (auto simp: returns_def Get_def)
qed

lemma returns_Put [return_rule]: "returns (Put N c)" "returns (Drop N c)"
  by (auto simp: returns_def Put_def Drop_def Let_def)

lemma returns_prefill: "returns (prefill N n)"
proof (induction n)
  case (Suc n)
  then show ?case unfolding prefill.simps by (intro return_rule returns_dial)
qed (simp add: returns_def)

lemma returns_poolFor [return_rule]: "returns (poolFor N addr replica)" "returns (PoolOf N addr)"
proof -
  have "PoolNew N os w \<noteq> None" for os w
    using returns_prefill unfolding PoolNew_def Let_def returns_def by blast
  then have "returns (newPool N addr replica)" for addr replica
    by (auto simp: returns_def newPool_def split: option.split res.split)
  then show p: "returns (poolFor N addr replica)" for addr replica
    unfolding poolFor_def addPool_def by (intro return_rule)
  show "returns (PoolOf N addr)" unfolding PoolOf_def by (rule p)
qed

lemma returns_router:
  assumes N: "never_stuck N"
  shows "returns (Exec N slot a read rto)" "returns (ExecRaw N slot frame read rto)"
    "returns (Checkout N slot)" "returns (CheckoutAddr N addr)"
proof -
  have up: "returns (updateSlot slot addr)" for slot addr
    unfolding updateSlot_def by (intro return_rule)
  have "returns (hop N slot frame a read rto asking hint)" for slot frame a read asking hint
    unfolding hop_def pickAddr_def sendOn_def by (intro return_rule returns_Get [OF N])
  note hop = this
  have "returns (hops N n slot frame a read rto asking hint lst)" for n slot frame a read rto asking hint lst
  proof (induction n arbitrary: slot read asking hint lst)
    case (Suc n)
    have "returns (hop N slot frame a read rto asking hint)" for slot read asking hint
      unfolding hop_def pickAddr_def sendOn_def by (intro return_rule returns_Get [OF N])
    then show ?case unfolding hops.simps inc_def by (intro return_rule up Suc.IH)
  qed (simp add: return_rule)
  note hops = this
  show "returns (Exec N slot a read rto)" "returns (ExecRaw N slot frame read rto)"
    unfolding Exec_def ExecRaw_def execFrame_def by (intro return_rule hops)+
  show "returns (Checkout N slot)" "returns (CheckoutAddr N addr)"
    unfolding Checkout_def CheckoutAddr_def pickAddr_def by (intro return_rule returns_Get [OF N])+
qed

section \<open>Subscribers\<close>

lemma returns_forward [return_rule]: "returns (forward N addr)"
  unfolding forward_def deliver_def maybeResub_def toAcks_def inc_def by (intro return_rule)

lemma returns_waitAck [return_rule]: "returns (waitAck N n addr)"
  by (induction n) (unfold waitAck.simps, (intro return_rule, assumption?)+)

lemma returns_exchange:
  assumes "never_stuck N"
  shows "returns (exchange N addr a)"
  unfolding exchange_def ensureBackend_def sendTo_def by (intro return_rule returns_router [OF assms])

lemma returns_subscriber:
  assumes N: "never_stuck N"
  shows "returns (HandleClientCmd N a)"
proof -
  note ex = returns_exchange [OF N]
  have sub: "returns (subscribeLoop N cmd kind rewrite chs replies)" for cmd kind rewrite chs replies
    by (induction chs arbitrary: replies) (unfold subscribeLoop.simps, (intro return_rule ex, assumption?)+)
  have unsub: "returns (unsubscribeLoop N cmd kind rewrite chs replies)" for cmd kind rewrite chs replies
    by (induction chs arbitrary: replies) (unfold unsubscribeLoop.simps unsubAck_def sendTo_def, (intro return_rule, assumption?)+)
  have ops: "returns (subscribe N chs g)" "returns (unsubscribe N chs g)" "returns (passOn N a)" for chs g a
    unfolding subscribe_def unsubscribe_def passOn_def inc_def by (intro return_rule sub unsub ex)+
  show ?thesis
    unfolding HandleClientCmd_def
    by (intro return_rule) (auto intro!: ops return_rule split: PubSubOp.split)
qed

section \<open>Sessions\<close>

text \<open>
  Scans end: there is a measure that every turn of a scan which does not end it makes smaller,
  as when the nodes answer each cursor with a later one.
\<close>

definition scans_end :: "'w net \<Rightarrow> bool" where
  "scans_end N \<longleftrightarrow> (\<exists>rank :: slice \<Rightarrow> Conn \<Rightarrow> 'w \<Rightarrow> nat. \<forall>pat i cursor c s cur' c' s'.
     scanTurn N pat i cursor c s = Some (Ok (Some (cur', c')), s') \<longrightarrow> rank cur' c' (world (rt s')) < rank cursor c (world (rt s)))"

lemma returns_scanTurn: "returns (scanTurn N pat i cursor c)"
  unfolding scanTurn_def Let_def by (intro return_rule)

lemma returns_scanLoop:
  assumes "scans_end N"
  shows "returns (scanLoop N pat i cursor c)"
proof -
  obtain rank :: "slice \<Rightarrow> Conn \<Rightarrow> 'a \<Rightarrow> nat" where rank: "\<And>pat i cursor c s cur' c' s'.
     scanTurn N pat i cursor c s = Some (Ok (Some (cur', c')), s') \<Longrightarrow> rank cur' c' (world (rt s')) < rank cursor c (world (rt s))"
    using assms unfolding scans_end_def by blast
  have "scanLoop N pat i cursor c s \<noteq> None" for cursor c s
  proof (induction "rank cursor c (world (rt s))" arbitrary: cursor c s rule: less_induct)
    case less
    obtain r s' where t: "scanTurn N pat i cursor c s = Some (r, s')"
      using returnsD [OF returns_scanTurn] by blast
    show ?case
    proof (cases r)
      case (Ok x)
      then show ?thesis using t less rank by (subst scanLoop.simps) (auto split: option.split)
    qed (use t in \<open>subst scanLoop.simps, simp\<close>)+
  qed
  then show ?thesis by (simp add: returns_def)
qed

lemma returns_reply [return_rule]: "returns (reply N v)" "returns (sendClient N vs)" "returns (observe name x)"
proof -
  have "returns (\<lambda>w. case netWrite N i b t w of (Some e, w') \<Rightarrow> Some (Err e, w') | (None, w') \<Rightarrow> Some (Ok (), w'))" for i b t
    by (auto simp: returns_def split: prod.split option.split)
  then show "returns (sendClient N vs)" for vs
    unfolding sendClient_def by (intro return_rule)
  then show "returns (reply N v)" unfolding reply_def .
  show "returns (observe name x)" unfolding observe_def by (rule return_rule)
qed

lemma returns_local [return_rule]: "returns (dropPin N)" "returns (resetTxn N)" "returns (handleLocal N a)"
  unfolding dropPin_def resetTxn_def handleLocal_def doAuth_def helloAuth_def logIn_def by (intro return_rule)+

lemma returns_txn [return_rule]: "returns (cmdMulti N)" "returns (cmdDiscard N)" "returns (cmdSelect N a)" "returns (doPinned N a)" "returns (cmdUnwatch N)"
  unfolding cmdMulti_def cmdDiscard_def cmdSelect_def doPinned_def cmdUnwatch_def by (intro return_rule)+

lemma returns_cmdExec:
  assumes N: "never_stuck N"
  shows "returns (cmdExec N)"
proof -
  have step: "(\<And>v c. returns (k v c)) \<Longrightarrow> returns (txnStep N i c a k)" for i c a k
    unfolding txnStep_def by (intro return_rule)
  have steps: "(\<And>c. returns (k c)) \<Longrightarrow> returns (txnSteps N i as c k)" for i as c k
    by (induction as arbitrary: c) (auto intro: step)
  have fin: "returns (finishExec N i its d v c)" for i its d v c
    unfolding finishExec_def by (intro return_rule)
  show ?thesis
    unfolding cmdExec_def execOn_def by (intro return_rule returns_router [OF N] steps step fin)
qed

lemma returns_backend:
  assumes N: "never_stuck N" and S: "scans_end N"
  shows "returns (handleBackend N a frame name)"
proof -
  note R = return_rule returns_router [OF N]
  have up: "returns (updateSlot slot addr)" for slot addr
    unfolding updateSlot_def by (intro return_rule)
  have groups: "returns (runGroups N gs read rto order reps errs)" for gs read rto order reps errs
    by (induction order arbitrary: reps errs) (unfold runGroups.simps, (intro R, assumption?)+)
  have fan: "returns (cmdFanout N a name)" for a
    unfolding cmdFanout_def finishFanout_def by (intro R groups)
  have exec: "returns (execCmd N a frame slot)" for a frame slot
    unfolding execCmd_def doBlocking_def by (intro R up)
  have run: "returns (runCommand N a frame name)" for a frame
    unfolding runCommand_def finishCmd_def by (intro R fan exec)
  have move: "returns (cmdMove N a)" "returns (cmdCopy N a)" for a
    unfolding cmdMove_def cmdCopy_def replyInt_def transferKey_def moveInSlot_def moveAcross_def by (intro R)+
  have space: "returns (cmdFlushDB N)" "returns (cmdRandomKey N)" "returns (cmdPublish N a name)" "returns (enterSub N a name)" for a
    unfolding cmdFlushDB_def scanDeleteOn_def cmdRandomKey_def cmdPublish_def enterSub_def inc_def
    by (intro R returns_Get [OF N] returns_scanLoop [OF S] returns_subscriber [OF N])+
  show ?thesis
    unfolding handleBackend_def by (intro R run move space)
qed

lemma returns_handle:
  assumes N: "never_stuck N" and S: "scans_end N"
  shows "returns (handle N a frame)"
proof -
  have watch: "returns (cmdWatch N a)" for a
    unfolding cmdWatch_def ensurePin_def by (intro return_rule returns_router [OF N])
  have txn: "returns (handleTxn N a frame name)" for name
    unfolding handleTxn_def by (intro return_rule watch returns_cmdExec [OF N] returns_backend [OF N S])
  have sub: "returns (handleSub N a)"
    unfolding handleSub_def by (intro return_rule returns_subscriber [OF N])
  show ?thesis
    unfolding handle_def by (intro return_rule txn sub)
qed

lemma returns_handleBatch:
  assumes N: "never_stuck N" and S: "scans_end N"
  shows "returns (handleBatch N batch)"
proof -
  note R = return_rule returns_router [OF N]
  have cls: "returns (classifyAll N cs)" for cs
    by (induction cs) (unfold classifyAll.simps classifyPipe_def classifySelect_def classifyRoute_def, (intro R, assumption?)+)
  have rd: "returns (readReplies N i ks items c)" for i ks items c
    by (induction ks arbitrary: items c) (unfold readReplies.simps, (intro R, assumption?)+)
  have red: "returns (followRedirects N ks items)" for ks items
    by (induction ks arbitrary: items) (unfold followRedirects.simps, (intro R, assumption?)+)
  have one: "returns (flushGroup N addr idx items)" for addr idx items
    unfolding flushGroup_def by (intro R rd red)
  have all: "returns (flushGroups N gs order items errs)" for gs order items errs
    by (induction order arbitrary: items errs) (unfold flushGroups.simps, (intro R one, assumption?)+)
  show ?thesis
    unfolding handleBatch_def execFastPipeline_def writeReplies_def by (intro R cls all returns_handle [OF N S])
qed


text \<open>A proxy that is shutting down: every wait is cut short.\<close>

definition closedNet :: "unit net" where
  "closedNet = deadNet\<lparr>netWake := (\<lambda>a w. (CtxDone (GoErr ''context canceled''), w))\<rparr>"

lemma closedNet_ends: "never_stuck closedNet" "scans_end closedNet"
proof -
  have "scanTurn closedNet pat i cursor c s \<noteq> Some (Ok x, s')" for pat i cursor c s x s'
    by (simp add: scanTurn_def Let_def Do_def DoRaw_def WriteRaw_def closedNet_def deadNet_def zoom_def io_eval Drop_def split: prod.splits)
  then show "scans_end closedNet" by (simp add: scans_end_def)
qed (simp add: never_stuck_def closedNet_def)


end
