(* ===== verification/Session_Env.thy ===== *)
theory Session_Env
  imports Proxy_Pipeline
begin

text \<open>
  What a session needs of the router it shares with the others. Whatever a property of the
  router is, when the router's operations and the exchanges on connections keep it, every
  handler of a session keeps it, and leaves the client's reader and connection alone. The
  property is a parameter: the bytes still to come, for the end of a session, and the
  router's invariant, for the server.
\<close>

abbreviation sendNet :: "'w net \<Rightarrow> nat \<Rightarrow> bytes \<Rightarrow> int \<Rightarrow> ('w, unit) io" where
  "sendNet N i b t \<equiv> (\<lambda>w. case netWrite N i b t w of (Some e, w') \<Rightarrow> Some (Err e, w') | (None, w') \<Rightarrow> Some (Ok (), w'))"

abbreviation recvNet :: "'w net \<Rightarrow> nat \<Rightarrow> int \<Rightarrow> ('w, bytes \<times> gerr) io" where
  "recvNet N i t \<equiv> (\<lambda>w. case netRecv N i t w of (Inl e, w') \<Rightarrow> Some (Err e, w') | (Inr x, w') \<Rightarrow> Some (Ok x, w'))"

text \<open>The client's connection and reader are as they were, and the router has the property.\<close>

definition client :: "nat \<Rightarrow> reader \<Rightarrow> ('w Router \<Rightarrow> bool) \<Rightarrow> 'w session \<Rightarrow> bool" where
  "client i r I s \<longleftrightarrow> cconn s = i \<and> cr s = r \<and> I (rt s)"

lemma client_onRt: "keeps I m \<Longrightarrow> keeps (client i r I) (onRt m)"
  by (erule keeps_zoom) (auto simp: client_def)

lemma client_onSub: "keeps (\<lambda>s. I (snd s)) m \<Longrightarrow> keeps (client i r I) (onSub m)"
  by (erule keeps_zoom) (auto simp: client_def)

lemma client_modify:
  "(\<And>s. cconn (f s) = cconn s \<and> cr (f s) = cr s \<and> rt (f s) = rt s) \<Longrightarrow> keeps (client i r I) (modify f)"
  by (rule keeps_modify) (simp add: client_def)

lemma client_observe: "keeps (client i r I) (observe name x)"
  unfolding observe_def by (rule client_modify) simp

locale session_env =
  fixes N :: "'w net" and I :: "'w Router \<Rightarrow> bool"
  assumes on_conn: "keeps I (onNet (ReadConn N c t))" "keeps I (onNet (WriteRaw N c f t))" "keeps I (onNet (Do N c a wt rto))"
    and on_client: "keeps I (onNet (sendNet N j b t))" "keeps I (onNet (recvNet N j t))" "keeps I (onNet (modify (netClose N j)))"
    and on_pool: "keeps I (onPool j (Get N))" "keeps I (onPool j (Put N c))" "keeps I (onPool j (Drop N c))"
    and on_router: "keeps I (PoolOf N addr)" "keeps I (Checkout N slot)" "keeps I (CheckoutAddr N addr)"
      "keeps I (Exec N slot a read rto)" "keeps I (ExecRaw N slot frame read rto)" "keeps I (inc name l)"
    and on_moved: "ParseRedirect p = Some red \<Longrightarrow> keeps I (updateSlot (Slot red) (Addr red))"
    and on_sub: "keeps (\<lambda>s. I (snd s)) (HandleClientCmd N a)" "keeps (\<lambda>s. I (snd s)) (CloseSession N)"
begin

lemmas env_rule = io_rule client_onRt client_onSub client_observe on_conn on_client on_pool on_router on_sub

lemma client_reply: "keeps (client i r I) (sendClient N vs)" "keeps (client i r I) (reply N v)"
proof -
  show "keeps (client i r I) (sendClient N vs)" for vs
    unfolding sendClient_def by (intro env_rule client_modify; simp)
  then show "keeps (client i r I) (reply N v)" unfolding reply_def .
qed

lemmas client_rule = env_rule client_reply

lemma client_local:
  "keeps (client i r I) (dropPin N)" "keeps (client i r I) (resetTxn N)" "keeps (client i r I) (handleLocal N a)"
  unfolding dropPin_def resetTxn_def handleLocal_def doAuth_def helloAuth_def logIn_def
  by (intro client_rule client_modify; simp)+

lemma client_txn:
  "keeps (client i r I) (cmdMulti N)" "keeps (client i r I) (cmdDiscard N)" "keeps (client i r I) (cmdSelect N a)"
    "keeps (client i r I) (doPinned N a)" "keeps (client i r I) (cmdUnwatch N)" "keeps (client i r I) (cmdWatch N a)"
proof -
  show pinned: "keeps (client i r I) (doPinned N a)" for a
    unfolding doPinned_def by (intro client_rule client_local client_modify; simp)
  have pin: "keeps (client i r I) (ensurePin N slot)" for slot
    unfolding ensurePin_def by (intro client_rule client_local client_modify; simp)
  show "keeps (client i r I) (cmdMulti N)" "keeps (client i r I) (cmdDiscard N)" "keeps (client i r I) (cmdSelect N a)"
    "keeps (client i r I) (cmdUnwatch N)" "keeps (client i r I) (cmdWatch N a)"
    unfolding cmdMulti_def cmdDiscard_def cmdSelect_def cmdUnwatch_def cmdWatch_def
    by (intro client_rule pinned pin client_local client_modify; simp)+
qed

lemma client_cmdExec:
  "keeps (client i r I) (cmdExec N)"
proof -
  have step: "(\<And>v c. keeps (client i r I) (k v c)) \<Longrightarrow> keeps (client i r I) (txnStep N j c a k)" for j c a k
    unfolding txnStep_def by (intro client_rule)
  have steps: "(\<And>c. keeps (client i r I) (k c)) \<Longrightarrow> keeps (client i r I) (txnSteps N j as c k)" for j as c k
    by (induction as arbitrary: c) (auto intro: step)
  have fin: "keeps (client i r I) (finishExec N j its d v c)" for j its d v c
    unfolding finishExec_def by (intro client_rule client_local client_modify; simp)
  show ?thesis
    unfolding cmdExec_def execOn_def by (intro client_rule client_local steps step fin client_modify; simp)
qed

lemma client_scanLoop:
  "keeps (client i r I) (scanLoop N pat j cursor c)"
proof -
  have "client i r I s \<longrightarrow> client i r I (snd y)" if "scanLoop N pat j cursor c s = Some y" for s y
  proof (rule scanLoop.raw_induct [of "\<lambda>N' pat j cursor c s y. N' = N \<longrightarrow> client i r I s \<longrightarrow> client i r I (snd y)", OF _ that, THEN mp, OF _ refl], goal_cases)
    case (1 f N' pat j cursor c s y)
    show ?case
    proof clarify
      assume N': "N' = N" and s: "client i r I s"
      have rest: "keeps (client i r I) (\<lambda>s. f N pat j cur c s)" for cur c
        using 1(1) by (force simp: ensures_def)
      have "keeps (client i r I) (bindE (scanTurn N pat j cursor c) (\<lambda>x. case x of None \<Rightarrow> ret () | Some (cur, c) \<Rightarrow> f N pat j cur c))"
        unfolding scanTurn_def Let_def by (intro client_rule rest)
      from ensuresD [OF this s] 1(2) N' show "client i r I (snd y)" by (cases y) auto
    qed
  qed
  then show ?thesis by (force simp: ensures_def)
qed

lemma client_backend:
  "keeps (client i r I) (handleBackend N a frame name)"
proof -
  note R = client_rule client_local
  have groups: "keeps (client i r I) (runGroups N gs read rto order reps errs)" for gs read rto order reps errs
    by (induction order arbitrary: reps errs) (unfold runGroups.simps, (intro R, assumption?)+)
  have fan: "keeps (client i r I) (cmdFanout N a name)" for a
    unfolding cmdFanout_def finishFanout_def by (intro R groups)
  have exec: "keeps (client i r I) (execCmd N a frame slot)" for a frame slot
    unfolding execCmd_def doBlocking_def
    by (intro R client_txn) (auto intro: on_moved split: if_splits)
  have run: "keeps (client i r I) (runCommand N a frame name)" for a frame
    unfolding runCommand_def finishCmd_def by (intro R fan exec)
  have move: "keeps (client i r I) (cmdMove N a)" "keeps (client i r I) (cmdCopy N a)" for a
    unfolding cmdMove_def cmdCopy_def replyInt_def transferKey_def moveInSlot_def moveAcross_def
    by (intro R; (auto intro!: R split: sum.split)?)+
  have space: "keeps (client i r I) (cmdFlushDB N)" "keeps (client i r I) (cmdRandomKey N)"
    "keeps (client i r I) (cmdPublish N a name)" "keeps (client i r I) (enterSub N a name)" for a
    unfolding cmdFlushDB_def scanDeleteOn_def cmdRandomKey_def cmdPublish_def enterSub_def
    by (intro R client_scanLoop client_modify; simp)+
  show ?thesis
    unfolding handleBackend_def by (intro R run move space)
qed

lemma client_handle:
  "keeps (client i r I) (handle N a frame)"
proof -
  have txn: "keeps (client i r I) (handleTxn N a frame name)" for name
    unfolding handleTxn_def by (intro client_rule client_txn client_cmdExec client_backend client_local client_modify; simp)
  have sub: "keeps (client i r I) (handleSub N a)"
    unfolding handleSub_def by (intro client_rule client_local client_modify; simp)
  show ?thesis
    unfolding handle_def by (intro client_rule client_txn client_local txn sub)
qed

lemma client_handleBatch:
  "keeps (client i r I) (handleBatch N batch)"
proof -
  note R = client_rule client_local
  have cls: "keeps (client i r I) (classifyAll N cs)" for cs
    by (induction cs) (unfold classifyAll.simps classifyPipe_def classifySelect_def classifyRoute_def,
      (intro R client_modify, (assumption | simp)?)+)
  have rd: "keeps (client i r I) (readReplies N j ks items c)" for j ks items c
    by (induction ks arbitrary: items c) (unfold readReplies.simps, (intro R, assumption?)+)
  have red: "keeps (client i r I) (followRedirects N ks items)" for ks items
    by (induction ks arbitrary: items) (unfold followRedirects.simps, (intro R, assumption?)+)
  have one: "keeps (client i r I) (flushGroup N addr idx items)" for addr idx items
    unfolding flushGroup_def by (intro R rd red)
  have all: "keeps (client i r I) (flushGroups N gs order items errs)" for gs order items errs
    by (induction order arbitrary: items errs) (unfold flushGroups.simps, (intro R one, assumption?)+)
  show ?thesis
    unfolding handleBatch_def execFastPipeline_def writeReplies_def
    by (intro R cls all client_handle client_modify; simp)
qed

section \<open>The session loop\<close>

abbreviation shared :: "nat \<Rightarrow> 'w session \<Rightarrow> bool" where
  "shared i s \<equiv> cconn s = i \<and> I (rt s)"

lemma shared_client: "(\<And>r. keeps (client i r I) m) \<Longrightarrow> keeps (shared i) m"
  unfolding ensures_def client_def by blast

lemma shared_read:
  "keeps (shared i) (readClient N)" "keeps (shared i) (peekClient N)" "keeps (shared i) (setDeadline t)"
proof -
  have upd: "keeps (shared i) (modify f)" if "\<And>s. cconn (f s) = cconn s \<and> rt (f s) = rt s" for f
    using that by (intro keeps_modify) simp
  have rx: "keeps (shared i) (onRt (onNet (recvNet N j t)))" for j t
    by (rule shared_client) (intro env_rule)
  show "keeps (shared i) (readClient N)" "keeps (shared i) (peekClient N)" "keeps (shared i) (setDeadline t)"
    unfolding readClient_def peekClient_def setDeadline_def by (intro io_rule rx upd; simp)+
qed

lemma shared_runTurn: "keeps (shared i) (runTurn N)" "keeps (shared i) (cleanup N)"
proof -
  have "keeps (shared i) (drainMore N k batch)" for k batch
    by (induction k arbitrary: batch) (unfold drainMore.simps, (intro io_rule shared_read, assumption?)+)
  then have drain: "keeps (shared i) (drainBatch N first)" for first
    unfolding drainBatch_def by (intro io_rule shared_read)
  show "keeps (shared i) (runTurn N)"
    unfolding runTurn_def by (intro io_rule shared_read drain shared_client client_handleBatch client_reply)
  show "keeps (shared i) (cleanup N)"
    unfolding cleanup_def by (intro shared_client client_rule client_local)
qed

end

text \<open>The router's invariant is such a property, on any network.\<close>

interpretation valid: session_env N routerOK for N
proof unfold_locales
  fix p red
  assume "ParseRedirect p = Some red"
  then have "Addr red \<noteq> []" by (auto elim: ParseRedirect_sound)
  then show "keeps routerOK (updateSlot (Slot red) (Addr red))" by (rule keeps_updateSlot)
qed (auto intro!: io_rule simp: PoolOf_def)

end
