(* ===== verification/Session_Ends.thy ===== *)
theory Session_Ends
  imports Session_Returns Session_Env
begin

text \<open>
  The session loop ends. What is left of the client's bytes, on the wire and in the reader, goes
  down with every turn of the loop, because handling a command never gives bytes back; this
  holds for any property of the world that the network operations keep.
\<close>

section \<open>Properties of the world\<close>

definition stable :: "'w net \<Rightarrow> ('w \<Rightarrow> bool) \<Rightarrow> bool" where
  "stable N W \<longleftrightarrow> (\<forall>w. W w \<longrightarrow>
     (\<forall>a t. W (snd (netDial N a t w))) \<and> (\<forall>i t. W (snd (netHandshake N i t w))) \<and> (\<forall>i b t. W (snd (netWrite N i b t w))) \<and>
     (\<forall>i t. W (snd (netRecv N i t w))) \<and> (\<forall>i. W (netClose N i w)) \<and> (\<forall>a. W (snd (netWake N a w))))"

lemma stableD:
  assumes "stable N W" and "W w"
  shows "netDial N a t w = (x, w') \<Longrightarrow> W w'" "netHandshake N i t w = (y, w') \<Longrightarrow> W w'" "netWrite N i b t w = (y, w') \<Longrightarrow> W w'"
    "netRecv N i t w = (z, w') \<Longrightarrow> W w'" "W (netClose N i w)" "netWake N a w = (u, w') \<Longrightarrow> W w'"
  using assms unfolding stable_def by (metis snd_conv)+

lemma stable_Conn:
  assumes N: "stable N W"
  shows "keeps W (ReadConn N c t)" "keeps W (WriteRaw N c f t)" "keeps W (DoRaw N c f wt rto)" "keeps W (Do N c a wt rto)"
proof -
  show rdr: "keeps W (ReadConn N c t)" for t
    by (rule ensuresI) (auto simp: ReadConn_def split: prod.splits sum.splits res.splits dest: stableD [OF N])
  show wr: "keeps W (WriteRaw N c f t)" for f t
    by (rule ensuresI) (auto simp: WriteRaw_def split: prod.splits option.splits dest: stableD [OF N])
  show "keeps W (DoRaw N c f wt rto)" "keeps W (Do N c a wt rto)"
    unfolding Do_def DoRaw_def by (intro io_rule rdr wr)+
qed

lemma stable_roundTrip: "stable N W \<Longrightarrow> keeps W (roundTrip N c a wt rto)"
  unfolding roundTrip_def by (intro io_rule stable_Conn)

lemma stable_greet:
  assumes "stable N W" "keeps W m" "\<And>c. keeps W (k c)"
  shows "keeps W (greet N m k)"
  unfolding greet_def closeConn_def
  by (intro io_rule keeps_modify assms(2,3)) (rule stableD(5) [OF assms(1)])

lemma stable_connect:
  assumes N: "stable N W"
  shows "keeps W (connect N os)"
proof (rule ensuresI)
  fix w r w'
  assume w: "W w" and run: "connect N os w = Some (r, w')"
  obtain x w1 where d: "netDial N (oAddr os) (oDialTimeout os) w = (x, w1)" by fastforce
  have w1: "W w1" using stableD(1) [OF N w d] .
  obtain y w2 where h: "netHandshake N (case x of Inr i \<Rightarrow> i) (oDialTimeout os) w1 = (y, w2)" by fastforce
  have w2: "W w2" using stableD(2) [OF N w1 h] .
  show "W w'"
    using run d h w1 w2 stableD(5) [OF N w2] by (auto simp: connect_def Let_def split: sum.splits if_splits option.splits)
qed

abbreviation inPool :: "('w \<Rightarrow> bool) \<Rightarrow> Pool \<times> 'w \<Rightarrow> bool" where
  "inPool W s \<equiv> W (snd s)"

lemma stable_dial:
  assumes N: "stable N W"
  shows "keeps (inPool W) (dial N)"
proof (rule ensuresI)
  fix s r s'
  assume w: "inPool W s" and run: "dial N s = Some (r, s')"
  obtain p w where [simp]: "s = (p, w)" by (cases s)
  let ?ready = "\<lambda>c. if oReadOnly (opts p) then greet N (roundTrip N c [Some ''READONLY''] (oWriteTimeout (opts p)) (oReadTimeout (opts p))) ret else ret c"
  let ?hello = "\<lambda>c. if oPassword (opts p) \<noteq> []
      then greet N (auth N c (oUsername (opts p)) (oPassword (opts p)) (oWriteTimeout (opts p)) (oReadTimeout (opts p))) ?ready else ?ready c"
  have hello: "keeps W (?hello c)" for c
    unfolding auth_def by (intro io_rule stable_greet stable_roundTrip N)
  obtain r1 w1 where c: "connect N (opts p) w = Some (r1, w1)"
    using run by (cases "connect N (opts p) w") (auto simp: dial_def)
  have w1: "W w1" using ensuresD [OF stable_connect [OF N] _ c] w by simp
  show "inPool W s'"
  proof (cases r1)
    case (Ok k)
    have "dial N s = (case ?hello k w1 of None \<Rightarrow> None | Some (r, w) \<Rightarrow> Some (r, (p\<lparr>dials := dials p + 1\<rparr>, w)))"
      by (simp only: dial_def prod.case c Ok option.case res.case Let_def \<open>s = (p, w)\<close>)
    then obtain r2 w2 where "?hello k w1 = Some (r2, w2)" and s': "s' = (p\<lparr>dials := dials p + 1\<rparr>, w2)"
      using run by (cases "?hello k w1") auto
    then show ?thesis using ensuresD [OF hello w1] by simp
  qed (use run c w1 in \<open>auto simp: dial_def\<close>)
qed

lemma stable_Get:
  assumes N: "stable N W"
  shows "keeps (inPool W) (Get N)"
proof -
  have await: "keeps (inPool W) (awaitConn N)"
    by (rule ensuresI) (auto simp: awaitConn_def split: wake.splits prod.splits dest: stableD [OF N])
  have ctx: "keeps (inPool W) (\<lambda>(p, w). case netCtxErr N w of Some _ \<Rightarrow> fail e (p, w) | None \<Rightarrow> awaitConn N (p, w))" for e
    using await by (auto simp: ensures_def split: option.splits)
  have new: "keeps (inPool W) (tryE (dial N) (\<lambda>r. case r of
       Ok c \<Rightarrow> thenE (modify (\<lambda>(p, w). (p\<lparr>active := active p + 1\<rparr>, w))) (ret c)
     | Err e \<Rightarrow> (\<lambda>(p, w). case netCtxErr N w of Some _ \<Rightarrow> fail e (p, w) | None \<Rightarrow> awaitConn N (p, w))
     | Panic \<Rightarrow> liftR Panic))"
    by (intro io_rule stable_dial N ctx keeps_modify) auto
  have "keeps (inPool W) (checkout N)"
  proof (rule ensuresI)
    fix s r s'
    assume w: "inPool W s" and run: "checkout N s = Some (r, s')"
    show "inPool W s'"
      using run w ensuresD [OF new w] ensuresD [OF await w] by (cases s) (auto simp: checkout_def split: list.splits if_splits)
  qed
  then have "keeps (inPool W) (thenE (modify (\<lambda>(p, w). (p\<lparr>waiters := waiters p + 1\<rparr>, w)))
      (tryE (checkout N) (\<lambda>r. thenE (modify (\<lambda>(p, w). (p\<lparr>waiters := waiters p - 1\<rparr>, w))) (liftR r))))"
    by (intro io_rule keeps_modify) auto
  then show ?thesis
    unfolding ensures_def Get_def by (auto split: if_splits)
qed

lemma stable_Put:
  assumes N: "stable N W"
  shows "keeps (inPool W) (Put N c)" "keeps (inPool W) (Drop N c)"
  by (auto simp: ensures_def Put_def Drop_def Let_def split: if_splits intro: stableD(5) [OF N])

lemma stable_prefill: "stable N W \<Longrightarrow> keeps (inPool W) (prefill N n)"
proof (induction n)
  case (Suc n)
  then show ?case unfolding prefill.simps by (intro io_rule stable_dial keeps_modify) auto
qed (simp add: ensures_def)

abbreviation inRouter :: "('w \<Rightarrow> bool) \<Rightarrow> 'w Router \<Rightarrow> bool" where
  "inRouter W R \<equiv> W (world R)"

lemma stable_onNet: "keeps W m \<Longrightarrow> keeps (inRouter W) (onNet m)"
  by (erule keeps_zoom) auto

lemma stable_onPool: "keeps (inPool W) m \<Longrightarrow> keeps (inRouter W) (onPool i m)"
  by (erule keeps_zoom) auto

lemma stable_poolFor:
  assumes N: "stable N W"
  shows "keeps (inRouter W) (poolFor N addr replica)" "keeps (inRouter W) (PoolOf N addr)"
proof -
  have pre: "prefill N n (p0, w0) = Some (r, (p, w)) \<Longrightarrow> W w0 \<Longrightarrow> W w" for n p0 w0 r p w
    using ensuresD [OF stable_prefill [OF N], of "(p0, w0)" n r "(p, w)"] by simp
  have new: "PoolNew N os w0 = Some (r, (p, w)) \<Longrightarrow> W w0 \<Longrightarrow> W w" for os w0 r p w
    unfolding PoolNew_def Let_def by (rule pre)
  have "keeps (inRouter W) (newPool N addr replica)" for addr replica
    by (rule ensuresI) (auto simp: newPool_def split: option.splits res.splits dest: new)
  then show p: "keeps (inRouter W) (poolFor N addr replica)" for addr replica
    unfolding poolFor_def addPool_def by (intro io_rule keeps_modify) auto
  show "keeps (inRouter W) (PoolOf N addr)" unfolding PoolOf_def by (rule p)
qed

lemmas stable_pool = stable_onNet stable_onPool stable_Conn stable_Get stable_Put stable_poolFor

lemma stable_updateSlot: "keeps (inRouter W) (updateSlot slot addr)" "keeps (inRouter W) (inc name l)"
  unfolding updateSlot_def inc_def by (intro io_rule keeps_modify; simp)+

lemma stable_router:
  assumes N: "stable N W"
  shows "keeps (inRouter W) (Exec N slot a read rto)" "keeps (inRouter W) (ExecRaw N slot frame read rto)"
    "keeps (inRouter W) (Checkout N slot)" "keeps (inRouter W) (CheckoutAddr N addr)"
proof -
  have hop: "keeps (inRouter W) (hop N slot frame a read rto asking hint)" for slot frame a read asking hint rto
    unfolding hop_def pickAddr_def sendOn_def by (intro io_rule stable_pool N)
  have "keeps (inRouter W) (hops N n slot frame a read rto asking hint lst)" for n slot frame a read rto asking hint lst
  proof (induction n arbitrary: slot read asking hint lst)
    case (Suc n)
    then show ?case unfolding hops.simps by (intro io_rule stable_updateSlot hop Suc.IH)
  qed (auto intro: io_rule split: option.split)
  note hops = this
  show "keeps (inRouter W) (Exec N slot a read rto)" "keeps (inRouter W) (ExecRaw N slot frame read rto)"
    unfolding Exec_def ExecRaw_def execFrame_def by (intro io_rule hops)+
  show "keeps (inRouter W) (Checkout N slot)" "keeps (inRouter W) (CheckoutAddr N addr)"
    unfolding Checkout_def CheckoutAddr_def pickAddr_def by (intro io_rule stable_pool N)+
qed

abbreviation inSub :: "('w \<Rightarrow> bool) \<Rightarrow> 'w ps \<Rightarrow> bool" where
  "inSub W s \<equiv> W (world (snd s))"

lemma stable_onR: "keeps (inRouter W) m \<Longrightarrow> keeps (inSub W) (onR m)"
  by (erule keeps_zoom) auto

lemma stable_modP: "keeps (inSub W) (modify (\<lambda>(p, R). (f p, R)))"
  by (rule keeps_modify) auto

lemma stable_subscriber:
  assumes N: "stable N W"
  shows "keeps (inSub W) (HandleClientCmd N a)"
proof -
  note R = io_rule stable_onR stable_pool stable_router [OF N] stable_updateSlot N
  have fwd: "keeps (inSub W) (forward N addr)" for addr
    unfolding forward_def deliver_def maybeResub_def toAcks_def by (intro R stable_modP)
  have ack: "keeps (inSub W) (waitAck N n addr)" for n addr
    by (induction n) (unfold waitAck.simps, (intro R fwd stable_modP, assumption?)+)
  have ex: "keeps (inSub W) (exchange N addr a)" for addr a
    unfolding exchange_def ensureBackend_def sendTo_def by (intro R ack stable_modP)
  have sub: "keeps (inSub W) (subscribeLoop N cmd kind rewrite chs replies)" for cmd kind rewrite chs replies
    by (induction chs arbitrary: replies) (unfold subscribeLoop.simps, (intro R ex stable_modP, assumption?)+)
  have unsub: "keeps (inSub W) (unsubscribeLoop N cmd kind rewrite chs replies)" for cmd kind rewrite chs replies
    by (induction chs arbitrary: replies)
       (unfold unsubscribeLoop.simps unsubAck_def sendTo_def, (intro R ack stable_modP, assumption?)+)
  have ops: "keeps (inSub W) (subscribe N chs g)" "keeps (inSub W) (unsubscribe N chs g)" "keeps (inSub W) (passOn N a)" for chs g a
    unfolding subscribe_def unsubscribe_def passOn_def by (intro R sub unsub ex stable_modP)+
  show ?thesis
    unfolding HandleClientCmd_def by (intro R) (auto intro!: ops R split: PubSubOp.split)
qed

text \<open>So a session that works on the router keeps a stable property.\<close>

lemma stable_env:
  assumes N: "stable N W"
  shows "session_env N (inRouter W)"
proof -
  have raw: "keeps W (sendNet N j b t)" "keeps W (recvNet N j t)" "keeps W (modify (netClose N j))" for j b t
    by (auto simp: ensures_def split: prod.splits option.splits sum.splits dest: stableD [OF N])
  have close: "keeps (inSub W) (CloseSession N)"
    unfolding CloseSession_def by (intro io_rule stable_onR stable_pool stable_modP N)
  show ?thesis
    by unfold_locales (intro stable_pool stable_router stable_updateSlot stable_subscriber raw close N)+
qed

section \<open>What is left of the client's bytes\<close>

text \<open>
  A client that sends finitely much: \<open>left\<close> bounds the bytes still to come on its connection,
  and no operation of the network makes more of them.
\<close>

definition finite_client :: "'w net \<Rightarrow> nat \<Rightarrow> ('w \<Rightarrow> nat) \<Rightarrow> bool" where
  "finite_client N i left \<longleftrightarrow>
     (\<forall>t w bs e w'. netRecv N i t w = (Inr (bs, e), w') \<longrightarrow> left w' + length bs \<le> left w) \<and> (\<forall>n. stable N (\<lambda>w. left w \<le> n))"

definition budget :: "('w \<Rightarrow> nat) \<Rightarrow> 'w session \<Rightarrow> nat" where
  "budget left s = left (world (rt s)) + length (inp (cr s))"

text \<open>At most \<open>n\<close> bytes of the client at \<open>i\<close> are left.\<close>

definition within :: "nat \<Rightarrow> ('w \<Rightarrow> nat) \<Rightarrow> nat \<Rightarrow> 'w session \<Rightarrow> bool" where
  "within i left n s \<longleftrightarrow> cconn s = i \<and> budget left s \<le> n"

lemma within_handleBatch:
  assumes "finite_client N i left"
  shows "keeps (within i left n) (handleBatch N batch)"
proof (rule ensuresI)
  fix s r s'
  assume s: "within i left n s" and run: "handleBatch N batch s = Some (r, s')"
  let ?W = "\<lambda>w. left w \<le> left (world (rt s))"
  have "stable N ?W" using assms by (simp add: finite_client_def)
  then have "keeps (client i (cr s) (inRouter ?W)) (handleBatch N batch)"
    by (rule session_env.client_handleBatch [OF stable_env])
  from ensuresD [OF this _ run] s show "within i left n s'" by (simp add: client_def within_def budget_def)
qed

text \<open>The parser never gives bytes back, and a value takes at least one.\<close>

lemma readers_shrink:
  "length (inp (snd (readValue r))) \<le> length (inp r)"
  "length (inp (snd (readAggregate t f m r))) \<le> length (inp r)"
  "length (inp (snd (readItems k r))) \<le> length (inp r)"
proof (induction r and t f m r and k r rule: readValue_readAggregate_readItems.induct)
  case (1 r)
  show ?case
    unfolding readValue.simps [of r]
  proof (rule rd_bind_shrinks [OF readLine_le], goal_cases)
    case (1 line r1)
    note IH1 = "1.IH"(1-3) [OF 1(1) _ refl refl, THEN order_trans [OF _ 1(2)]]
      and IH2 = "1.IH"(4) [OF 1(1) _ refl refl]
    show ?case
      using 1(2) IH1 IH2
      by (auto simp: Let_def intro!: rd_bind_shrinks order_trans [OF readBulk_le] intro: order_trans)
  qed
next
  case (2 t f m r)
  then show ?case
    unfolding readAggregate.simps by (fastforce intro!: rd_bind_shrinks simp: Let_def)
next
  case (4 k r)
  then show ?case by (fastforce intro!: rd_bind_shrinks)
qed simp

lemma ReadValue_shrinks:
  assumes "ReadValue r = (x, r')"
  shows "length (inp r') \<le> length (inp r)" and "x = Ok v \<Longrightarrow> length (inp r') < length (inp r)"
proof -
  obtain y r1 where y: "readValue (r\<lparr>raw := []\<rparr>) = (y, r1)" by fastforce
  have r1: "inp r' = inp r1" "x = Ok v \<Longrightarrow> \<exists>u. y = Ok u" for v
    using assms y by (auto simp: ReadValue_def split: res.splits)
  show le: "length (inp r') \<le> length (inp r)"
    using readers_shrink(1) [of "r\<lparr>raw := []\<rparr>"] y r1(1) by simp
  show "length (inp r') < length (inp r)" if ok: "x = Ok v"
  proof -
    obtain u where u: "readValue (r\<lparr>raw := []\<rparr>) = (Ok u, r1)" using r1(2) [OF ok] y by auto
    obtain line r2 where line: "readLine (r\<lparr>raw := []\<rparr>) = (Ok line, r2)"
      using u unfolding readValue.simps [of "r\<lparr>raw := []\<rparr>"] rd_bind_Ok by blast
    have "length (inp (snd (readValue (r\<lparr>raw := []\<rparr>)))) \<le> length (inp r2)"
      unfolding readValue.simps [of "r\<lparr>raw := []\<rparr>"] line
      by (auto simp: Let_def intro!: rd_bind_shrinks readBulk_le readers_shrink intro: order_trans readers_shrink)
    then show ?thesis using u r1(1) readLine_shrinks [OF line] by simp
  qed
qed

section \<open>The session ends\<close>

lemma recvClient:
  assumes "finite_client N i left" and "netRecv N i t w = (x, w')"
  shows "left w' + (case x of Inl _ \<Rightarrow> 0 | Inr (bs, e) \<Rightarrow> length bs) \<le> left w"
proof (cases x)
  case (Inl e)
  have "stable N (\<lambda>v. left v \<le> left w)" using assms(1) by (simp add: finite_client_def)
  from stableD(4) [OF this _ assms(2)] Inl show ?thesis by simp
qed (use assms in \<open>auto simp: finite_client_def\<close>)

lemma readClient_budget:
  assumes c: "finite_client N i left" and i: "cconn s = i" and run: "readClient N s = Some (r, s')"
  shows "cconn s' = i" and "budget left s' \<le> budget left s" and "r = Ok v \<Longrightarrow> budget left s' < budget left s"
proof -
  obtain x w' where rx: "netRecv N i (deadline s) (world (rt s)) = (x, w')" by fastforce
  note rc = recvClient [OF c rx]
  have "cconn s' = i \<and> budget left s' \<le> budget left s \<and> (r = Ok v \<longrightarrow> budget left s' < budget left s)" for v
  proof (cases x)
    case (Inl e)
    then show ?thesis using run rx i rc by (auto simp: readClient_def io_eval budget_def)
  next
    case (Inr y)
    obtain bs e where y: "y = (bs, e)" by fastforce
    obtain v r' where rv: "ReadValue ((cr s)\<lparr>inp := inp (cr s) @ bs, fin := e\<rparr>) = (v, r')" by fastforce
    have s': "r = v" "s' = s\<lparr>rt := (rt s)\<lparr>world := w'\<rparr>, cr := r'\<rparr>"
      using run rx i Inr y rv by (auto simp: readClient_def io_eval)
    show ?thesis
      using ReadValue_shrinks [OF rv] rc i by (auto simp: s' budget_def Inr y)
  qed
  then show "cconn s' = i" "budget left s' \<le> budget left s" "r = Ok v \<Longrightarrow> budget left s' < budget left s" by blast+
qed

lemma within_read:
  assumes "finite_client N i left"
  shows "keeps (within i left n) (readClient N)" "keeps (within i left n) (peekClient N)" "keeps (within i left n) (setDeadline t)"
proof -
  show "keeps (within i left n) (readClient N)"
    unfolding ensures_def within_def using readClient_budget(1,2) [OF assms] order_trans by blast
  show "keeps (within i left n) (peekClient N)"
  proof (rule ensuresI)
    fix s r s'
    assume s: "within i left n s" and run: "peekClient N s = Some (r, s')"
    obtain x w' where rx: "netRecv N i (deadline s) (world (rt s)) = (x, w')" by fastforce
    show "within i left n s'"
      using run rx s recvClient [OF assms rx]
      by (cases x) (auto simp: peekClient_def io_eval within_def budget_def)
  qed
  show "keeps (within i left n) (setDeadline t)"
    unfolding setDeadline_def by (rule keeps_modify) (simp add: within_def budget_def)
qed

lemma within_drain:
  assumes c: "finite_client N i left"
  shows "keeps (within i left n) (drainBatch N first)"
proof -
  have "keeps (within i left n) (drainMore N k batch)" for k batch
    by (induction k arbitrary: batch) (unfold drainMore.simps, (intro io_rule within_read [OF c], assumption?)+)
  then show ?thesis unfolding drainBatch_def by (intro io_rule within_read [OF c])
qed

lemma returns_runTurn:
  assumes N: "never_stuck N" and S: "scans_end N"
  shows "returns (runTurn N)" "returns (cleanup N)"
proof -
  have rx: "returns (\<lambda>w. case netRecv N i t w of (Inl e, w') \<Rightarrow> Some (Err e, w') | (Inr x, w') \<Rightarrow> Some (Ok x, w'))" for i t
    by (auto simp: returns_def split: prod.split sum.split)
  have cl: "returns (readClient N)" "returns (peekClient N)" "returns (setDeadline t)" for t
    unfolding readClient_def peekClient_def setDeadline_def by (intro return_rule rx)+
  have "returns (drainMore N k batch)" for k batch
    by (induction k arbitrary: batch) (unfold drainMore.simps, (intro return_rule cl, assumption?)+)
  then have "returns (drainBatch N first)" for first
    unfolding drainBatch_def by (intro return_rule cl)
  then show "returns (runTurn N)"
    unfolding runTurn_def by (intro return_rule cl returns_handleBatch [OF N S])
  show "returns (cleanup N)"
    unfolding cleanup_def CloseSession_def inc_def by (intro return_rule)
qed

text \<open>A turn that does not end the session uses up bytes.\<close>

lemma runTurn_budget:
  assumes c: "finite_client N i left" and i: "cconn s = i" and run: "runTurn N s = Some (Ok True, s')"
  shows "cconn s' = i" and "budget left s' < budget left s"
proof -
  let ?s = "s\<lparr>deadline := ReadTimeout (cfg s) * 4\<rparr>"
  let ?k = "\<lambda>r. case r of
      Ok v \<Rightarrow> (case toCmd v of
          Ok c \<Rightarrow> tryE (bindE (drainBatch N c) (handleBatch N)) (\<lambda>r. ret (r = Ok ()))
        | Err e \<Rightarrow> tryE (reply N (Error ''ERR protocol error'')) (\<lambda>_. ret False)
        | Panic \<Rightarrow> liftR Panic)
    | Err e \<Rightarrow> ret False
    | Panic \<Rightarrow> liftR Panic"
  have run1: "tryE (readClient N) ?k ?s = Some (Ok True, s')"
    using run by (auto simp: runTurn_def setDeadline_def split: if_splits)
  then obtain r s1 where rd: "readClient N ?s = Some (r, s1)"
    by (cases "readClient N ?s") (auto simp: tryE_def)
  have k: "?k r s1 = Some (Ok True, s')"
    using run1 rd by (cases r) (auto simp: tryE_def)
  obtain v where v: "r = Ok v" using k by (cases r) auto
  have s1: "cconn s1 = i" "budget left s1 < budget left s"
    using readClient_budget [OF c _ rd] i v by (auto simp: budget_def)
  obtain cm where cm: "toCmd v = Ok cm"
    using k v by (cases "toCmd v") (auto simp: tryE_def split: option.splits res.splits)
  have rest: "keeps (within i left (budget left s1)) (tryE (bindE (drainBatch N cm) (handleBatch N)) (\<lambda>r. ret (r = Ok ())))"
    by (intro io_rule within_drain within_handleBatch c)
  have "tryE (bindE (drainBatch N cm) (handleBatch N)) (\<lambda>r. ret (r = Ok ())) s1 = Some (Ok True, s')"
    using k by (simp only: v cm res.case)
  from ensuresD [OF rest _ this] s1(1) have "within i left (budget left s1) s'" by (simp add: within_def)
  then show "cconn s' = i" "budget left s' < budget left s" using s1 by (auto simp: within_def)
qed

lemma returns_runLoop:
  assumes N: "never_stuck N" "scans_end N" and c: "finite_client N i left"
  shows "cconn s = i \<Longrightarrow> \<exists>r s'. runLoop N s = Some (r, s')"
proof (induction "budget left s" arbitrary: s rule: less_induct)
  case less
  obtain r s1 where t: "runTurn N s = Some (r, s1)"
    using returnsD [OF returns_runTurn(1) [OF N]] by blast
  show ?case
  proof (cases "r = Ok True")
    case True
    with runTurn_budget [OF c less.prems] t have "cconn s1 = i" "budget left s1 < budget left s" by auto
    from less.hyps [OF this(2,1)] show ?thesis using t True by (subst runLoop.simps) simp
  next
    case False
    then show ?thesis using t by (subst runLoop.simps) (cases r, auto)
  qed
qed


text \<open>
  When the bytes still to come on all connections together are finitely many, no scan goes on
  forever: every turn reads a reply.
\<close>

lemma Do_budget:
  assumes c: "\<And>i. finite_client N i left" and run: "onRt (onNet (Do N c a x y)) s = Some (Ok (Ok v, c'), s')"
  shows "left (world (rt s')) + length (inp (rd c')) < left (world (rt s)) + length (inp (rd c))"
proof -
  obtain z w1 where wr: "netWrite N (nc c) (EncodeCommand [] a) x (world (rt s)) = (z, w1)" by fastforce
  have "stable N (\<lambda>v. left v \<le> left (world (rt s)))" using c by (simp add: finite_client_def)
  from stableD(3) [OF this _ wr] have w1: "left w1 \<le> left (world (rt s))" by simp
  obtain u w2 where rx: "netRecv N (nc c) y w1 = (u, w2)" by fastforce
  obtain bs e where u: "u = Inr (bs, e)"
    using run wr rx by (cases u) (auto simp: Do_def DoRaw_def WriteRaw_def ReadConn_def io_eval split: option.splits)
  obtain q r where rv: "ReadValue ((rd c)\<lparr>inp := inp (rd c) @ bs, fin := e\<rparr>) = (q, r)" by fastforce
  have q: "q = Ok v" "c' = c\<lparr>rd := r\<rparr>" "world (rt s') = w2"
    using run wr rx u rv by (auto simp: Do_def DoRaw_def WriteRaw_def ReadConn_def io_eval split: option.splits res.splits)
  show ?thesis
    using ReadValue_shrinks(2) [OF rv q(1)] recvClient [OF c rx] w1 by (simp add: q u)
qed

lemma finite_scans_end:
  fixes N :: "'w net"
  assumes c: "\<And>i. finite_client N i left"
  shows "scans_end N"
proof -
  let ?rank = "\<lambda>(c :: Conn) w. left w + length (inp (rd c))"
  have "?rank c' (world (rt s')) < ?rank c (world (rt s))"
    if run: "scanTurn N pat i cursor c s = Some (Ok (Some (cur', c')), s')" for pat i cursor c s cur' c' s'
  proof -
    let ?D = "\<lambda>c a. onRt (onNet (Do N c a (WriteTimeout (cfg s)) (ReadTimeout (cfg s))))"
    let ?scan = "[Some ''SCAN'', cursor, Some ''MATCH'', pat, Some ''COUNT'', Some ''256'']"
    obtain r s1 where d: "?D c ?scan s = Some (r, s1)"
      using run by (cases "?D c ?scan s") (auto simp: scanTurn_def Let_def)
    have over: "thenE m (fail e) t \<noteq> Some (Ok z, t')" "thenE m (ret None) t \<noteq> Some (Ok (Some z'), t')"
      for m :: "('w session, unit) io" and e t t' and z :: "(slice \<times> Conn) option" and z'
      by (auto simp: thenE_def bindE_def split: option.splits res.splits)
    have del: "\<exists>x. ?D c1 a s1 = Some (Ok (Ok x, c'), s')"
      if "bindE (?D c1 a) (\<lambda>(r, c). case r of Err e \<Rightarrow> thenE (onRt (onPool i (Drop N c))) (fail e) | Panic \<Rightarrow> liftR Panic
        | Ok v \<Rightarrow> if sl cu = ''0'' then thenE (onRt (onPool i (Put N c))) (ret None) else ret (Some (cu, c))) s1 = Some (Ok (Some (cur', c')), s')" for c1 a s1 cu
      using that by (cases "?D c1 a s1") (auto simp: bindE_def over split: res.splits if_splits)
    have "\<exists>v c1. r = Ok (Ok v, c1) \<and> (c1 = c' \<and> s1 = s' \<or> (\<exists>del x. ?D c1 (Some ''DEL'' # del) s1 = Some (Ok (Ok x, c'), s')))"
    proof (cases r)
      case (Ok y)
      obtain q c1 where y: "y = (q, c1)" by fastforce
      show ?thesis
      proof (cases q)
        case (Ok v)
        then show ?thesis
          using run d \<open>r = Ok y\<close> y
          by (simp only: scanTurn_def Let_def bindE_simps) (auto simp: over dest!: del split: if_splits)
      qed (use run d Ok y in \<open>auto simp: scanTurn_def Let_def bindE_def over\<close>)
    qed (use run d in \<open>auto simp: scanTurn_def Let_def bindE_def\<close>)
    then obtain v c1 where r: "r = Ok (Ok v, c1)"
      and more: "c1 = c' \<and> s1 = s' \<or> (\<exists>del x. ?D c1 (Some ''DEL'' # del) s1 = Some (Ok (Ok x, c'), s'))" by blast
    from Do_budget [OF c d [unfolded r]] more Do_budget [OF c, of c1 _ _ _ s1 _ c' s'] show ?thesis
      by (elim disjE exE conjE) (simp, blast intro: less_trans)
  qed
  then show ?thesis
    unfolding scans_end_def by (intro exI [of _ "\<lambda>_. ?rank"]) blast
qed

text \<open>A client whose bytes are all there, in front of a cluster that nobody can reach.\<close>

definition scriptNet :: "bytes net" where
  "scriptNet = \<lparr>netDial = (\<lambda>a t w. (Inl (NetErr ''refused'' False), w)), netHandshake = (\<lambda>i t w. (None, w)),
     netWrite = (\<lambda>i b t w. (None, w)), netRecv = (\<lambda>i t w. (Inr (w, EOF), [])), netClose = (\<lambda>i w. w),
     netCtxErr = (\<lambda>w. None), netWake = (\<lambda>a w. (CtxDone (GoErr ''context deadline exceeded''), w))\<rparr>"

definition scriptRouter :: "bytes Router" where
  "scriptRouter = \<lparr>rcfg = demoConfig, slots = \<lparr>ptr = None, gen = 0\<rparr>, rflavor = FlavorRedis, rpools = [], heap = [],
     rtls = False, ropen = CHR ''{'', rclose = CHR ''}'', rcount = [],
     world = EncodeCommand [] [Some ''PING''] @ EncodeCommand [] [Some ''GET'', Some ''k'']\<rparr>"


end
