(* ===== verification/Proxy_Server.thy ===== *)
theory Proxy_Server
  imports Session_Env Machines
begin

text \<open>
  \<open>internal/proxy/server.go\<close> and \<open>cmd/dragon-cluster-resp-proxy/main.go\<close>: the accept loop
  with its semaphore, one goroutine per client, and the start and end of the process. The
  goroutines are interleaved: a session takes the shared router for one turn of its loop at a
  time. A panic ends the process, so a turn that panics has no successor.
\<close>

section \<open>State\<close>

text \<open>The goroutine of a connection, by its place in the function given to \<open>wg.Go\<close>.\<close>

datatype 'w goroutine =
    Absent
  | Spawned
  | Running "'w session"
  | Leaving "'w session"
  | Ended
  | Released

text \<open>The accept loop, with the connection in hand or the error to return.\<close>

datatype serving = Accepting | Accepted nat | Draining "gerr option" | Returned "gerr option"

record 'w Server =
  svCfg :: Config
  svRouter :: "'w Router"
  sem :: nat
  wg :: nat
  svActive :: "32 word"
  clientConns :: int
  goroutines :: "nat \<Rightarrow> 'w goroutine"
  serving :: serving

definition NewServer :: "Config \<Rightarrow> 'w Router \<Rightarrow> 'w Server res" where
  "NewServer c R =
     (if MaxClientConns c < 0 then Panic
      else Ok \<lparr>svCfg = c, svRouter = R, sem = 0, wg = 0, svActive = 0, clientConns = 0, goroutines = (\<lambda>_. Absent), serving = Accepting\<rparr>)"

definition respErrBusy :: bytes where
  "respErrBusy = ''-ERR max client connections reached'' @ CRLF"

section \<open>Listening\<close>

text \<open>The operating system's calls are parameters; \<open>CloseListener\<close> undoes \<open>Listen\<close>.\<close>

datatype osCall = RemoveFile bytes | Listen bytes | Chmod bytes nat | CloseListener

definition sys :: "(osCall \<Rightarrow> 'o \<Rightarrow> gerr option \<times> 'o) \<Rightarrow> osCall \<Rightarrow> ('o, unit) io" where
  "sys os k = (\<lambda>w. case os k w of (Some e, w') \<Rightarrow> Some (Err e, w') | (None, w') \<Rightarrow> Some (Ok (), w'))"

definition closeFail :: "(osCall \<Rightarrow> 'o \<Rightarrow> gerr option \<times> 'o) \<Rightarrow> gerr \<Rightarrow> ('o, unit) io" where
  "closeFail os e = tryE (sys os CloseListener) (\<lambda>_. fail e)"

definition listenSocket :: "(osCall \<Rightarrow> 'o \<Rightarrow> gerr option \<times> 'o) \<Rightarrow> (gerr \<Rightarrow> bool) \<Rightarrow> Config \<Rightarrow> ('o, unit) io" where
  "listenSocket os notExist c =
     tryE (sys os (RemoveFile (UnixSocket c))) (\<lambda>r.
       if (case r of Err e \<Rightarrow> \<not> notExist e | _ \<Rightarrow> False) then liftR r
       else thenE (sys os (Listen (UnixSocket c)))
         (case UnixSocketPerm c of
            Err e \<Rightarrow> closeFail os e
          | Panic \<Rightarrow> liftR Panic
          | Ok perm \<Rightarrow> tryE (sys os (Chmod (UnixSocket c) perm)) (\<lambda>r. case r of Err e \<Rightarrow> closeFail os e | _ \<Rightarrow> liftR r)))"

text \<open>\<open>Close\<close>, with whether \<open>Serve\<close> has set the listener.\<close>

definition ServerClose :: "(osCall \<Rightarrow> 'o \<Rightarrow> gerr option \<times> 'o) \<Rightarrow> bool \<Rightarrow> ('o, unit) io" where
  "ServerClose os ln = (if ln then sys os CloseListener else ret ())"

section \<open>Steps\<close>

abbreviation move :: "nat \<Rightarrow> 'w goroutine \<Rightarrow> 'w Server \<Rightarrow> 'w Server" where
  "move i g S \<equiv> S\<lparr>goroutines := (goroutines S)(i := g)\<rparr>"

text \<open>What goes on for a session besides its loop: pushes, the readers of its backends, resubscription.\<close>

definition aside :: "'w net \<Rightarrow> ('w session, unit) io \<Rightarrow> bool" where
  "aside N m \<longleftrightarrow> m = writePush N \<or> (\<exists>addr. m = thenE (onSub (forward N addr)) (ret ())) \<or> m = thenE (onSub (runResub N)) (ret ())"

inductive server_step :: "'w net \<Rightarrow> 'w Server \<Rightarrow> 'w Server \<Rightarrow> bool" for N where
  outside: "server_step N S (S\<lparr>svRouter := (svRouter S)\<lparr>world := w\<rparr>\<rparr>)"
| refresh: "refreshTick N (svRouter S) = Some (r, R) \<Longrightarrow> server_step N S (S\<lparr>svRouter := R\<rparr>)"
| accept: "serving S = Accepting \<Longrightarrow> goroutines S i = Absent \<Longrightarrow> server_step N S (S\<lparr>serving := Accepted i\<rparr>)"
| accept_stopped: "serving S = Accepting \<Longrightarrow> netCtxErr N (world (svRouter S)) \<noteq> None \<Longrightarrow> server_step N S (S\<lparr>serving := Draining None\<rparr>)"
| accept_timeout: "serving S = Accepting \<Longrightarrow> netCtxErr N (world (svRouter S)) = None \<Longrightarrow> isTimeout e \<Longrightarrow> server_step N S S"
| accept_failed: "serving S = Accepting \<Longrightarrow> netCtxErr N (world (svRouter S)) = None \<Longrightarrow> \<not> isTimeout e \<Longrightarrow>
    server_step N S (S\<lparr>serving := Draining (Some e)\<rparr>)"
| admit: "serving S = Accepted i \<Longrightarrow> goroutines S i = Absent \<Longrightarrow> sem S < nat (MaxClientConns (svCfg S)) \<Longrightarrow>
    server_step N S (move i Spawned (S\<lparr>serving := Accepting, sem := sem S + 1, wg := wg S + 1\<rparr>))"
| busy: "serving S = Accepted i \<Longrightarrow> \<not> sem S < nat (MaxClientConns (svCfg S)) \<Longrightarrow>
    netWrite N i respErrBusy 0 (world (svRouter S)) = (e, w) \<Longrightarrow>
    server_step N S (S\<lparr>serving := Accepting, svRouter := (svRouter S)\<lparr>world := netClose N i w\<rparr>\<rparr>)"
| start: "goroutines S i = Spawned \<Longrightarrow>
    server_step N S (move i (Running (newSession (svCfg S) (svRouter S) i sc n))
      (S\<lparr>svActive := svActive S + 1, clientConns := clientConns S + 1\<rparr>))"
| turn: "goroutines S i = Running s \<Longrightarrow> runTurn N (s\<lparr>rt := svRouter S\<rparr>) = Some (Ok True, s') \<Longrightarrow>
    server_step N S (move i (Running s') (S\<lparr>svRouter := rt s'\<rparr>))"
| beside: "goroutines S i = Running s \<Longrightarrow> aside N m \<Longrightarrow> m (s\<lparr>rt := svRouter S\<rparr>) = Some (r, s') \<Longrightarrow> r \<noteq> Panic \<Longrightarrow>
    server_step N S (move i (Running s') (S\<lparr>svRouter := rt s'\<rparr>))"
| over: "goroutines S i = Running s \<Longrightarrow> runTurn N (s\<lparr>rt := svRouter S\<rparr>) = Some (Ok False, s') \<Longrightarrow>
    server_step N S (move i (Leaving s') (S\<lparr>svRouter := rt s'\<rparr>))"
| leave: "goroutines S i = Leaving s \<Longrightarrow> cleanup N (s\<lparr>rt := svRouter S\<rparr>) = Some (r, s') \<Longrightarrow> r \<noteq> Panic \<Longrightarrow>
    server_step N S (move i Ended (S\<lparr>svRouter := rt s', svActive := svActive S - 1, clientConns := clientConns S - 1\<rparr>))"
| release: "goroutines S i = Ended \<Longrightarrow> server_step N S (move i Released (S\<lparr>sem := sem S - 1\<rparr>))"
| gone: "goroutines S i = Released \<Longrightarrow> server_step N S (move i Absent (S\<lparr>wg := wg S - 1\<rparr>))"
| drained: "serving S = Draining e \<Longrightarrow> wg S = 0 \<Longrightarrow> server_step N S (S\<lparr>serving := Returned e\<rparr>)"
| drain_timeout: "serving S = Draining e \<Longrightarrow> server_step N S (S\<lparr>serving := Returned e\<rparr>)"

definition server_init :: "'w net \<Rightarrow> 'w Server \<Rightarrow> bool" where
  "server_init N S \<longleftrightarrow>
     (\<exists>mkTLS c w R. [] \<notin> set (ClusterSeeds c) \<and> NewRouter N mkTLS c w = Some (Ok (), R) \<and> NewServer c R = Ok S)"

section \<open>The invariant\<close>

fun hasToken :: "'w goroutine \<Rightarrow> bool" where
  "hasToken Absent = False"
| "hasToken Released = False"
| "hasToken _ = True"

fun live :: "'w goroutine \<Rightarrow> bool" where
  "live (Running s) = True"
| "live (Leaving s) = True"
| "live _ = False"

fun clientOf :: "'w goroutine \<Rightarrow> nat option" where
  "clientOf (Running s) = Some (cconn s)"
| "clientOf (Leaving s) = Some (cconn s)"
| "clientOf _ = None"

definition tally :: "('g \<Rightarrow> bool) \<Rightarrow> (nat \<Rightarrow> 'g) \<Rightarrow> nat" where
  "tally P f = card {i. P (f i)}"

lemma tally_upd:
  assumes "finite {i. P (f i)}"
  shows "tally P (f(t := g)) + of_bool (P (f t)) = tally P f + of_bool (P g)"
proof -
  have "{i. P ((f(t := g)) i)} = (if P g then insert t {i. P (f i)} else {i. P (f i)} - {t})" by auto
  moreover have "0 < card {i. P (f i)}" if "P (f t)" using assms that by (auto simp: card_gt_0_iff)
  ultimately show ?thesis
    using assms by (auto simp: tally_def card_insert_if card_Diff_singleton_if)
qed

definition server_inv :: "'w Server \<Rightarrow> bool" where
  "server_inv S \<longleftrightarrow> routerOK (svRouter S) \<and> finite {i. goroutines S i \<noteq> Absent} \<and>
     sem S = tally hasToken (goroutines S) \<and> sem S \<le> nat (MaxClientConns (svCfg S)) \<and>
     wg S = tally (\<lambda>g. g \<noteq> Absent) (goroutines S) \<and>
     svActive S = of_nat (tally live (goroutines S)) \<and> clientConns S = int (tally live (goroutines S)) \<and>
     (\<forall>i c. clientOf (goroutines S i) = Some c \<longrightarrow> c = i)"

lemma finite_kinds:
  assumes "finite {i. f i \<noteq> Absent}"
  shows "finite {i. hasToken (f i)}" "finite {i. live (f i)}"
  by (rule finite_subset [OF _ assms], use hasToken.simps(1) live.simps(3) in force)+

text \<open>A goroutine moves on; the counters follow.\<close>

lemma server_inv_move:
  assumes S: "server_inv S" and R: "routerOK (svRouter T)" and T: "svCfg T = svCfg S" "goroutines T = goroutines S"
    and sem: "sem T + of_bool (hasToken (goroutines S i)) = sem S + of_bool (hasToken g)" "sem T \<le> nat (MaxClientConns (svCfg S))"
    and wg: "wg T + of_bool (goroutines S i \<noteq> Absent) = wg S + of_bool (g \<noteq> Absent)"
    and act: "svActive T + of_bool (live (goroutines S i)) = svActive S + of_bool (live g)"
    and gauge: "clientConns T + of_bool (live (goroutines S i)) = clientConns S + of_bool (live g)"
    and own: "\<And>c. clientOf g = Some c \<Longrightarrow> c = i"
  shows "server_inv (move i g T)"
proof -
  have fin: "finite {j. goroutines S j \<noteq> Absent}" using S by (simp add: server_inv_def)
  have fin': "finite {j. ((goroutines S)(i := g)) j \<noteq> Absent}"
    by (rule finite_subset [OF _ finite.insertI [OF fin, of i]]) auto
  note up = tally_upd [of "\<lambda>g. g \<noteq> Absent" "goroutines S" i g, OF fin]
    tally_upd [of hasToken "goroutines S" i g, OF finite_kinds(1) [OF fin]] tally_upd [of live "goroutines S" i g, OF finite_kinds(2) [OF fin]]
  have "of_nat (tally live ((goroutines S)(i := g))) + (of_bool (live (goroutines S i)) :: 32 word) = svActive S + of_bool (live g)"
    using S arg_cong [OF up(3), of "of_nat :: nat \<Rightarrow> 32 word"] by (simp add: server_inv_def)
  then have "svActive T = of_nat (tally live ((goroutines S)(i := g)))"
    using act by (metis add_right_cancel)
  moreover have "clientConns T = int (tally live ((goroutines S)(i := g)))"
    using S gauge arg_cong [OF up(3), of int] by (simp add: server_inv_def)
  ultimately show ?thesis
    using S R T sem wg own up fin' by (auto simp: server_inv_def)
qed

lemma aside_shared:
  assumes "aside N m"
  shows "keeps (\<lambda>s. cconn s = i \<and> routerOK (rt s)) m"
proof -
  have "keeps (client i r routerOK) m" for r
    using assms unfolding aside_def writePush_def
    by (elim disjE exE; simp only:) (intro io_rule valid.client_reply client_onSub client_modify; simp)+
  then show ?thesis by (rule valid.shared_client)
qed

lemma server_inv_frame:
  "server_inv S \<Longrightarrow> routerOK R \<Longrightarrow> server_inv (S\<lparr>svRouter := R\<rparr>)" "server_inv (S\<lparr>serving := p\<rparr>) = server_inv S"
  by (simp_all add: server_inv_def)

lemma server_inv_step: "server_step N S T \<Longrightarrow> server_inv S \<Longrightarrow> server_inv T"
proof (induction rule: server_step.induct)
  case (outside S w)
  then show ?case by (intro server_inv_frame) (simp_all add: server_inv_def)
next
  case (refresh S r R)
  then show ?case using ensuresD [OF keeps_Refresh(2)] by (intro server_inv_frame) (auto simp: server_inv_def)
next
  case (busy S i e w)
  then show ?case by (simp add: server_inv_def)
next
  case (turn S i s s')
  then have "cconn s' = i \<and> routerOK (rt s')"
    using ensuresD [OF valid.shared_runTurn(1) _ turn(2), of i] by (simp add: server_inv_def)
  with turn show ?case by (intro server_inv_move [of S]) (auto simp: server_inv_def)
next
  case (beside S i s m r s')
  then have "cconn s' = i \<and> routerOK (rt s')"
    using ensuresD [OF aside_shared [OF beside(2), of i] _ beside(3)] by (simp add: server_inv_def)
  with beside show ?case by (intro server_inv_move [of S]) (auto simp: server_inv_def)
next
  case (over S i s s')
  then have "cconn s' = i \<and> routerOK (rt s')"
    using ensuresD [OF valid.shared_runTurn(1) _ over(2), of i] by (simp add: server_inv_def)
  with over show ?case by (intro server_inv_move [of S]) (auto simp: server_inv_def)
next
  case (leave S i s r s')
  then have "routerOK (rt s')"
    using ensuresD [OF valid.shared_runTurn(2) _ leave(2), of i] by (simp add: server_inv_def)
  with leave show ?case by (intro server_inv_move [of S]) (auto simp: server_inv_def)
next
  case (admit S i)
  then show ?case by (intro server_inv_move [of S]) (auto simp: server_inv_def)
next
  case (start S i sc n)
  then show ?case by (intro server_inv_move [of S]) (auto simp: server_inv_def newSession_def)
next
  case (release S i)
  then have "0 < sem S"
    using finite_kinds(1) [of "goroutines S"] by (auto simp: server_inv_def tally_def card_gt_0_iff) (metis hasToken.simps(6))
  with release show ?case by (intro server_inv_move [of S]) (auto simp: server_inv_def)
next
  case (gone S i)
  then have "0 < wg S" by (auto simp: server_inv_def tally_def card_gt_0_iff) (metis goroutine.distinct(9))
  with gone show ?case by (intro server_inv_move [of S]) (auto simp: server_inv_def)
qed (simp_all add: server_inv_frame)

interpretation server: invariant "server_init N" "server_step N" server_inv for N
proof unfold_locales
  fix S
  assume "server_init N S"
  then obtain mkTLS c w R where "[] \<notin> set (ClusterSeeds c)" and "NewRouter N mkTLS c w = Some (Ok (), R)" and S: "NewServer c R = Ok S"
    by (auto simp: server_init_def)
  from NewRouter_ok [OF this(2,1)] S show "server_inv S"
    by (auto simp: NewServer_def server_inv_def tally_def split: if_splits)
qed (rule server_inv_step)

section \<open>The process\<close>

text \<open>\<open>main\<close>: the command line, the configuration, and what follows until the exit code.\<close>

record flags =
  fConfig :: bytes
  fPprof :: bool
  fVersion :: bool

datatype level = LevelDebug | LevelInfo | LevelWarn | LevelError

definition newLogger :: "bytes \<Rightarrow> level" where
  "newLogger lvl = (let l = ToLower lvl in
     if l = ''debug'' then LevelDebug
     else if l = ''warn'' \<or> l = ''warning'' then LevelWarn
     else if l = ''error'' then LevelError
     else LevelInfo)"

datatype mainPhase = Waiting | ShuttingDown | Exited int

record 'w process =
  pServer :: "'w Server"
  pLevel :: level
  pMain :: mainPhase

text \<open>
  The start: an exit code with what was printed, or the running process. The metrics and
  profiling servers run beside it and are left out.
\<close>

definition startMain :: "'w net \<Rightarrow> (TLSConfig \<Rightarrow> unit res) \<Rightarrow> (bytes \<Rightarrow> Config res) \<Rightarrow> flags \<Rightarrow> 'w \<Rightarrow> ((int \<times> bytes) + 'w process) res option" where
  "startMain N mkTLS load f w =
     (if fVersion f then Some (Ok (Inl (0, Version @ [LF])))
      else case load (fConfig f) of
        Err e \<Rightarrow> Some (Ok (Inl (1, [])))
      | Panic \<Rightarrow> Some Panic
      | Ok c0 \<Rightarrow> (let c = (if fPprof f then c0\<lparr>Pprof := True\<rparr> else c0) in
          case NewRouter N mkTLS c w of
            None \<Rightarrow> None
          | Some (Err e, R) \<Rightarrow> Some (Ok (Inl (1, [])))
          | Some (Panic, R) \<Rightarrow> Some Panic
          | Some (Ok _, R) \<Rightarrow> Some (res_bind (NewServer c R) (\<lambda>S. Ok (Inr \<lparr>pServer = S, pLevel = newLogger (LogLevel c), pMain = Waiting\<rparr>)))))"

text \<open>
  The main goroutine waits for a signal or for \<open>Serve\<close>, shuts the other servers down and
  returns; the deferred \<open>router.Close\<close> runs and the process exits.
\<close>

inductive main_step :: "'w net \<Rightarrow> 'w process \<Rightarrow> 'w process \<Rightarrow> bool" for N where
  serve: "(\<And>c. pMain P \<noteq> Exited c) \<Longrightarrow> server_step N (pServer P) S \<Longrightarrow> main_step N P (P\<lparr>pServer := S\<rparr>)"
| signalled: "pMain P = Waiting \<Longrightarrow> netCtxErr N (world (svRouter (pServer P))) \<noteq> None \<Longrightarrow> main_step N P (P\<lparr>pMain := ShuttingDown\<rparr>)"
| served: "pMain P = Waiting \<Longrightarrow> serving (pServer P) = Returned None \<Longrightarrow> main_step N P (P\<lparr>pMain := ShuttingDown\<rparr>)"
| serve_failed: "pMain P = Waiting \<Longrightarrow> serving (pServer P) = Returned (Some e) \<Longrightarrow> RouterClose N (svRouter (pServer P)) = Some (r, R) \<Longrightarrow>
    main_step N P (P\<lparr>pMain := Exited 1, pServer := (pServer P)\<lparr>svRouter := R\<rparr>\<rparr>)"
| finish: "pMain P = ShuttingDown \<Longrightarrow> netCtxErr N (world (svRouter (pServer P))) \<noteq> None \<Longrightarrow>
    RouterClose N (svRouter (pServer P)) = Some (r, R) \<Longrightarrow>
    main_step N P (P\<lparr>pMain := Exited 0, pServer := (pServer P)\<lparr>svRouter := R\<rparr>\<rparr>)"

text \<open>A process that starts is an initial state of the server.\<close>

lemma startMain_server:
  assumes "startMain N mkTLS load f w = Some (Ok (Inr P))" and "\<And>c. load (fConfig f) = Ok c \<Longrightarrow> [] \<notin> set (ClusterSeeds c)"
  shows "server_init N (pServer P)"
proof -
  obtain c0 where c0: "load (fConfig f) = Ok c0"
    using assms(1) by (cases "load (fConfig f)") (auto simp: startMain_def split: if_splits)
  define c where "c = (if fPprof f then c0\<lparr>Pprof := True\<rparr> else c0)"
  obtain R where R: "NewRouter N mkTLS c w = Some (Ok (), R)" and S: "NewServer c R = Ok (pServer P)"
    using assms(1) c0 by (auto simp: startMain_def c_def [symmetric] Let_def split: if_splits option.splits res.splits simp: res_bind_eq_Ok)
  have "[] \<notin> set (ClusterSeeds c)" using assms(2) [OF c0] by (simp add: c_def)
  with R S show ?thesis by (auto simp: server_init_def)
qed

lemma RouterClose_returns: "\<exists>R'. RouterClose N R = Some (Ok (), R') \<and> rpools R' = []"
proof -
  have "\<exists>R'. forE (\<lambda>e. onPool (snd e) (PoolClose N)) es R = Some (Ok (), R')" for es R
    by (induction es arbitrary: R) (auto simp: PoolClose_def io_eval)
  then obtain R1 where "forE (\<lambda>e. onPool (snd e) (PoolClose N)) (rpools R) R = Some (Ok (), R1)" by blast
  then show ?thesis by (simp add: RouterClose_def thenE_def)
qed

section \<open>Properties\<close>

text \<open>
  C6. The limit on clients is kept and nothing of a client is left behind. However the accept
  loop, the sessions, the refresh of the topology and the network interleave, the number of
  sessions never exceeds \<open>MaxClientConns\<close>, both counters of connected clients equal it, the
  router the sessions share stays valid, each session serves the connection it was made for,
  and once all goroutines are gone the semaphore, the wait group and the counters are at zero.
\<close>

theorem sessions_within_limit:
  assumes "reach (server_init N) (server_step N) S"
  shows "tally live (goroutines S) \<le> nat (MaxClientConns (svCfg S)) \<and>
    clientConns S = int (tally live (goroutines S)) \<and> svActive S = of_nat (tally live (goroutines S)) \<and>
    routerOK (svRouter S) \<and> (\<forall>i s. goroutines S i = Running s \<longrightarrow> cconn s = i) \<and>
    ((\<forall>i. goroutines S i = Absent) \<longrightarrow> sem S = 0 \<and> wg S = 0 \<and> clientConns S = 0)"
proof -
  have inv: "server_inv S" using assms by (rule server.reach_inv)
  have "hasToken g" if "live g" for g :: "'a goroutine" using that by (cases g) auto
  then have "{i. live (goroutines S i)} \<subseteq> {i. hasToken (goroutines S i)}" by blast
  then have "tally live (goroutines S) \<le> sem S"
    using inv finite_kinds(1) by (auto simp: server_inv_def tally_def intro: card_mono)
  moreover have "sem S = 0 \<and> wg S = 0 \<and> clientConns S = 0" if "\<forall>i. goroutines S i = Absent"
    using inv that by (simp add: server_inv_def tally_def)
  moreover have "cconn s = i" if "goroutines S i = Running s" for i s
    using inv that unfolding server_inv_def by (metis clientOf.simps(1))
  ultimately show ?thesis using inv by (auto simp: server_inv_def)
qed

text \<open>A server with its first client.\<close>

definition firstServer :: "unit Server" where
  "firstServer = \<lparr>svCfg = demoConfig, svRouter = deadRouter, sem = 0, wg = 0, svActive = 0, clientConns = 0,
     goroutines = (\<lambda>_. Absent), serving = Accepting\<rparr>"

definition firstClient :: "unit Server" where
  "firstClient = firstServer\<lparr>sem := 1, wg := 1, svActive := 1, clientConns := 1,
     goroutines := (\<lambda>_. Absent)(0 := Running (newSession demoConfig deadRouter 0 (\<lambda>n. [0..<n]) 1))\<rparr>"

lemma firstClient_reached: "reach (server_init deadNet) (server_step deadNet) firstClient"
proof -
  let ?S1 = "firstServer\<lparr>serving := Accepted 0\<rparr>"
  let ?S2 = "move 0 Spawned (firstServer\<lparr>sem := 1, wg := 1\<rparr>)"
  have "NewServer demoConfig deadRouter = Ok firstServer"
    by (simp add: NewServer_def firstServer_def demoConfig_def Defaults_def)
  then have "server_init deadNet firstServer"
    unfolding server_init_def using deadRouter_started
    by (intro exI [of _ "\<lambda>_. Ok ()"] exI [of _ demoConfig] exI conjI) (simp_all add: demoConfig_def)
  then have "reach (server_init deadNet) (server_step deadNet) firstServer" by (rule reach_init)
  then have "reach (server_init deadNet) (server_step deadNet) ?S1"
    by (rule reach_step) (rule server_step.accept, simp_all add: firstServer_def)
  then have "reach (server_init deadNet) (server_step deadNet) ?S2"
    by (rule reach_step) (use server_step.admit [of ?S1 0 deadNet] in \<open>simp add: firstServer_def demoConfig_def Defaults_def\<close>)
  then show ?thesis
    by (rule reach_step) (use server_step.start [of ?S2 0 deadNet "\<lambda>n. [0..<n]" 1] in \<open>simp add: firstClient_def firstServer_def\<close>)
qed

theorem sessions_within_limit_witness:
  "tally live (goroutines firstClient) = 1 \<and> 1 \<le> nat (MaxClientConns (svCfg firstClient)) \<and> clientConns firstClient = 1"
proof -
  have "{i. live (goroutines firstClient i)} = {0}" by (auto simp: firstClient_def)
  then have "tally live (goroutines firstClient) = 1" by (simp add: tally_def)
  with sessions_within_limit [OF firstClient_reached] show ?thesis by simp
qed

text \<open>
  C38. A shutdown does not wait for the clients. When the process is told to stop while a session is
  running, \<open>main\<close> can close the router and exit with code 0 before the session and \<open>Serve\<close>
  are done: it never waits for the drain that \<open>ShutdownTimeout\<close> allows for.
\<close>

theorem shutdown_cuts_sessions:
  assumes "pMain P = Waiting" and "live (goroutines (pServer P) i)" and "netCtxErr N w \<noteq> None"
  shows "\<exists>Q. (main_step N)\<^sup>*\<^sup>* P Q \<and> pMain Q = Exited 0 \<and> live (goroutines (pServer Q) i) \<and>
    serving (pServer Q) = serving (pServer P) \<and> rpools (svRouter (pServer Q)) = []"
proof -
  let ?S = "(pServer P)\<lparr>svRouter := (svRouter (pServer P))\<lparr>world := w\<rparr>\<rparr>"
  let ?P1 = "P\<lparr>pServer := ?S\<rparr>" and ?P2 = "P\<lparr>pServer := ?S, pMain := ShuttingDown\<rparr>"
  obtain r R where R: "RouterClose N (svRouter ?S) = Some (r, R)" and closed: "rpools R = []"
    using RouterClose_returns by blast
  let ?Q = "?P2\<lparr>pMain := Exited 0, pServer := ?S\<lparr>svRouter := R\<rparr>\<rparr>"
  have "main_step N P ?P1" using assms(1) by (intro main_step.serve server_step.outside) simp
  moreover have "main_step N ?P1 ?P2" using assms(1,3) main_step.signalled [of ?P1 N] by simp
  moreover have "main_step N ?P2 ?Q" using assms(3) R main_step.finish [of ?P2 N r R] by simp
  ultimately have "(main_step N)\<^sup>*\<^sup>* P ?Q" by (meson converse_rtranclp_into_rtranclp rtranclp.rtrancl_refl)
  then show ?thesis using assms(2) closed by (intro exI [of _ ?Q]) simp
qed

theorem shutdown_cuts_sessions_witness:
  "\<exists>Q. (main_step deadNet)\<^sup>*\<^sup>* \<lparr>pServer = firstClient, pLevel = LevelInfo, pMain = Waiting\<rparr> Q \<and> pMain Q = Exited 0 \<and>
    live (goroutines (pServer Q) 0)"
proof -
  let ?P = "\<lparr>pServer = firstClient, pLevel = LevelInfo, pMain = Waiting\<rparr>"
  have "pMain ?P = Waiting" "live (goroutines (pServer ?P) 0)" "netCtxErr deadNet () \<noteq> None"
    by (simp_all add: firstClient_def deadNet_def)
  from shutdown_cuts_sessions [OF this] show ?thesis by blast
qed

end
