(* ===== verification/Session_Cluster.thy ===== *)
theory Session_Cluster
  imports Proxy_Session
begin

text \<open>
  A client's command over a cluster that works, from the session's dispatcher to the reply:
  the database's prefix, the slot, the redirects and the way back.
\<close>

text \<open>Commands that the session treats by name; all others are forwarded.\<close>

definition ownNames :: "bytes set" where
  "ownNames = {''SELECT'', ''PING'', ''ECHO'', ''AUTH'', ''QUIT'', ''CLUSTER'', ''INFO'', ''HELLO'', ''RESET'',
     ''MULTI'', ''DISCARD'', ''EXEC'', ''WATCH'', ''UNWATCH'', ''SWAPDB'', ''FLUSHALL'', ''FLUSHDB'', ''MOVE'', ''COPY'', ''RANDOMKEY''}"

definition forwarded :: "argv \<Rightarrow> bool" where
  "forwarded a \<longleftrightarrow> a \<noteq> [] \<and> nameOf a \<notin> ownNames \<and> ClassifyPubSub (sl (a ! 0)) = PubSubNone"

definition presented :: "bytes \<Rightarrow> int \<Rightarrow> Value \<Rightarrow> Value" where
  "presented name d v =
     (if IsError v then (if isRedirectKind v then errExhausted else v) else StripReplyKeys name d v)"

definition outcome :: "Value \<Rightarrow> bytes" where
  "outcome v = (if IsError v then classifyErr v else ''ok'')"

lemma forwarded_handle:
  assumes "forwarded a" and "sub s = None" and "authed s" and "\<not> multi s"
  shows "handle N a frame s = runCommand N a frame (nameOf a) s"
proof -
  have a: "a \<noteq> []" "ClassifyPubSub (sl (a ! 0)) = PubSubNone" and up: "upperName (a ! 0) = nameOf a"
    using assms(1) by (auto simp: forwarded_def nameOf_def)
  have n: "nameOf a \<noteq> ''SELECT''" "nameOf a \<noteq> ''PING''" "nameOf a \<noteq> ''ECHO''" "nameOf a \<noteq> ''AUTH''" "nameOf a \<noteq> ''QUIT''"
    "nameOf a \<noteq> ''CLUSTER''" "nameOf a \<noteq> ''INFO''" "nameOf a \<noteq> ''HELLO''" "nameOf a \<noteq> ''RESET''" "nameOf a \<noteq> ''MULTI''"
    "nameOf a \<noteq> ''DISCARD''" "nameOf a \<noteq> ''EXEC''" "nameOf a \<noteq> ''WATCH''" "nameOf a \<noteq> ''UNWATCH''" "nameOf a \<noteq> ''SWAPDB''"
    "nameOf a \<noteq> ''FLUSHALL''" "nameOf a \<noteq> ''FLUSHDB''" "nameOf a \<noteq> ''MOVE''" "nameOf a \<noteq> ''COPY''" "nameOf a \<noteq> ''RANDOMKEY''"
    using assms(1) unfolding forwarded_def ownNames_def by blast+
  have "handleLocal N a s = Some (Ok None, s)"
    using a assms(3) n by (simp add: handleLocal_def up Let_def)
  then show ?thesis
    using a assms(2,4) n by (simp add: handle_def handleTxn_def handleBackend_def Let_def)
qed

lemma finishCmd_presents:
  "finishCmd N name (Ok v) s = thenE (observe name (outcome v)) (reply N (presented name (db s) v)) s"
  by (simp add: finishCmd_def presented_def outcome_def)

lemma execCmd_follows:
  assumes net: "cluster_net N K" and R: "synced K (rt s)"
    and b: "b \<noteq> []" "wf_argv b" "\<not> control b" "\<not> IsBlocking (args b)" "ClassifyPubSub (sl (b ! 0)) = PubSubNone"
    and frame: "frame \<noteq> [] \<Longrightarrow> meaning frame b"
    and pick: "pickAddr slot (KindOf (sl (b ! 0)) = KindRead) [] (rt s) = Some (Ok addr, rt s)"
    and spec: "follow (serve K) (rewriteAddr (rt s)) (nat (MovedHopLimit (rcfg (rt s)))) addr False b zeroValue (data K (world (rt s))) = (v, d, ms)"
  shows "\<exists>R'. execCmd N b frame slot s = Some (Ok v, s\<lparr>rt := R'\<rparr>) \<and> synced K R' \<and> data K (world R') = d \<and>
    moveAll (slots (rt s)) ms = Ok (slots R')"
proof -
  let ?read = "KindOf (sl (b ! 0)) = KindRead" and ?to = "ReadTimeout (cfg s)"
  have pick': "pickAddr slot (?read \<and> \<not> False) [] (rt s) = Some (Ok addr, rt s)" using pick by simp
  have hops: "\<exists>R'. execFrame N slot f a ?read ?to False (rt s) = Some (Ok v, R') \<and> synced K R' \<and>
      data K (world R') = d \<and> moveAll (slots (rt s)) ms = Ok (slots R')" if "carries f a b" for f a
    using hops_follow [OF net that R pick' spec] by (simp add: execFrame_def)
  have nr: "needsRewrite b = Ok False" using b(1,5) by (simp add: needsRewrite_def)
  show ?thesis
  proof (cases "frame = []")
    case True
    have "carries None b b" using b by (simp add: carries_def)
    from hops [OF this] obtain R' where "Exec N slot b ?read ?to (rt s) = Some (Ok v, R')" "synced K R'"
      "data K (world R') = d" "moveAll (slots (rt s)) ms = Ok (slots R')" by (auto simp: Exec_def)
    then show ?thesis using True b(4) by (intro exI [of _ R']) (simp add: execCmd_def Let_def zoom_def [of rt])
  next
    case False
    then have "carries (Some frame) [] b" using b frame by (simp add: carries_def)
    from hops [OF this] obtain R' where "ExecRaw N slot (Some frame) ?read ?to (rt s) = Some (Ok v, R')" "synced K R'"
      "data K (world R') = d" "moveAll (slots (rt s)) ms = Ok (slots R')" by (auto simp: ExecRaw_def)
    then show ?thesis using False b(4) nr by (intro exI [of _ R']) (simp add: execCmd_def Let_def zoom_def [of rt])
  qed
qed

text \<open>
  C1. A forwarded command, end to end. Over a cluster that works, a command of a client in
  database \<open>db\<close> that the proxy does not treat itself is answered with what the abstract
  client \<open>follow\<close> gets for the command with its keys moved to the database, redirects
  followed and the prefix taken off the keys of the reply; the nodes' data change by exactly
  that command, the slot map by the moves met, and the router is ready for the next command.
\<close>

theorem command_end_to_end:
  assumes "cluster_net N K" and "synced K (rt s)" and "forwarded a" and "sub s = None" and "authed s" and "\<not> multi s"
    and "RewriteArgv a (db s) = Ok rewritten" and "b = (if db s > 0 then rewritten else a)"
    and "b \<noteq> []" and "wf_argv b" and "\<not> control b" and "\<not> IsBlocking (args b)" and "ClassifyPubSub (sl (b ! 0)) = PubSubNone"
    and "db s \<le> 0 \<Longrightarrow> frame \<noteq> [] \<Longrightarrow> meaning frame a"
    and "ExtractKeys b = Ok keys" and "length keys > 1 \<Longrightarrow> \<not> CrossSlot (rt s) (args keys)"
    and "pickAddr (slotFor (rt s) keys) (KindOf (sl (b ! 0)) = KindRead) [] (rt s) = Some (Ok addr, rt s)"
    and "follow (serve K) (rewriteAddr (rt s)) (nat (MovedHopLimit (rcfg (rt s)))) addr False b zeroValue (data K (world (rt s))) = (v, d, ms)"
  shows "\<exists>R'. handle N a frame s =
      thenE (observe (nameOf a) (outcome v)) (reply N (presented (nameOf a) (db s) v)) (s\<lparr>rt := R'\<rparr>) \<and>
    synced K R' \<and> data K (world R') = d \<and> moveAll (slots (rt s)) ms = Ok (slots R')"
proof -
  let ?f = "if db s > 0 then [] else frame"
  have frame: "?f \<noteq> [] \<Longrightarrow> meaning ?f b" using assms(8,14) by (auto split: if_splits)
  from execCmd_follows [OF assms(1,2,9-13) frame assms(17,18)] obtain R' where
    run: "execCmd N b ?f (slotFor (rt s) keys) s = Some (Ok v, s\<lparr>rt := R'\<rparr>)" and
    R': "synced K R'" "data K (world R') = d" "moveAll (slots (rt s)) ms = Ok (slots R')" by blast
  have "runCommand N a frame (nameOf a) s = tryE (execCmd N b ?f (slotFor (rt s) keys)) (finishCmd N (nameOf a)) s"
    using assms(7,8,15,16) by (auto simp: runCommand_def Let_def)
  also have "\<dots> = finishCmd N (nameOf a) (Ok v) (s\<lparr>rt := R'\<rparr>)" using run by (simp add: tryE_def)
  finally show ?thesis
    using forwarded_handle [OF assms(3-6), of N frame] R' by (auto simp: finishCmd_presents)
qed

text \<open>The client of database 3 reads a key of a slot that has moved.\<close>

definition db3 :: "nat sim session" where
  "db3 = newSession demoConfig simRouter 0 (\<lambda>n. [0..<n]) 1\<lparr>db := 3\<rparr>"

theorem command_end_to_end_witness:
  "\<exists>R'. handle (simNet movedServe) [Some ''GET'', Some ''k''] [] db3 =
      thenE (observe ''GET'' ''ok'') (reply (simNet movedServe) (StripReplyKeys ''GET'' 3 (got (Integer 1)))) (db3\<lparr>rt := R'\<rparr>) \<and>
    sdata (world R') = 1"
proof -
  let ?a = "[Some ''GET'', Some ''k'']" and ?b = "[Some ''GET'', Some (DBPrefix 3 @ ''k'')]"
  have name: "nameOf ?a = ''GET''" by (simp add: nameOf_def upperName_def UpperASCII_map upper_byte_def)
  have fw: "forwarded ?a" unfolding forwarded_def name by (simp add: ownNames_def) code_simp
  have s: "sub db3 = None" "authed db3" "\<not> multi db3" "db db3 = 3" "rt db3 = simRouter"
    by (simp_all add: db3_def newSession_def demoConfig_def Defaults_def)
  have rwr: "RewriteArgv ?a (db db3) = Ok ?b" unfolding s by code_simp
  have b: "?b = (if db db3 > 0 then ?b else ?a)" by (simp add: s)
  have plain: "\<not> control ?b" by (simp add: control_def)
  have len: "length (DBPrefix 3) \<le> 100" by code_simp
  then have wf: "wf_argv ?b" by (simp add: wf_argv_def)
  have kind: "\<not> IsBlocking (args ?b)" "ClassifyPubSub (sl (?b ! 0)) = PubSubNone" by code_simp+
  have keys: "ExtractKeys ?b = Ok [Some (DBPrefix 3 @ ''k'')]" by code_simp
  have net: "cluster_net (simNet movedServe) (simCluster movedServe)"
    by (rule cluster_net_sim) (auto simp: movedServe_def wireable.simps SimpleString_def Error_def Integer_def line_type_def int64_def)
  have R: "synced (simCluster movedServe) (rt db3)"
    by (simp add: s synced_def simRouter_def routerOK_def poolsOK_def heapOK_def optsOK_def poolOptions_def mapOK_def demoConfig_def Defaults_def)
  have pick: "pickAddr slot read [] (rt db3) = Some (Ok ''a:1'', rt db3)" for slot read
    by (simp add: s pickAddr_def RouteSlot_def AnyMaster_def simRouter_def demoConfig_def Load_def)
  have red: "ParseRedirect ''MOVED 5 b:1'' = Some \<lparr>Kind = ''MOVED'', Slot = 5, Addr = ''b:1''\<rparr>" by code_simp
  have rw: "rewriteAddr (rt db3) = (\<lambda>a. a)"
    by (rule ext) (simp add: s rewriteAddr_def simRouter_def demoConfig_def Defaults_def)
  have f: "follow (serve (simCluster movedServe)) (rewriteAddr (rt db3)) (nat (MovedHopLimit (rcfg (rt db3)))) ''a:1'' False ?b zeroValue
      (data (simCluster movedServe) (world (rt db3))) = (got (Integer 1), 1, [\<lparr>Kind = ''MOVED'', Slot = 5, Addr = ''b:1''\<rparr>])"
    unfolding rw using plain by (simp add: s simRouter_def simCluster_def movedServe_def redirectOf_def got_def
      numeral_3_eq_3 canon.simps IsError_def line_type_def red Error_def Integer_def clone_def)
  have ok: "\<not> IsError (got (Integer 1))" by (simp add: got_def IsError_def Integer_def canon.simps line_type_def)
  have "\<exists>R'. handle (simNet movedServe) ?a [] db3 = thenE (observe (nameOf ?a) (outcome (got (Integer 1))))
        (reply (simNet movedServe) (presented (nameOf ?a) (db db3) (got (Integer 1)))) (db3\<lparr>rt := R'\<rparr>) \<and>
      synced (simCluster movedServe) R' \<and> data (simCluster movedServe) (world R') = 1 \<and>
      moveAll (slots (rt db3)) [\<lparr>Kind = ''MOVED'', Slot = 5, Addr = ''b:1''\<rparr>] = Ok (slots R')"
    by (rule command_end_to_end [OF net R fw s(1,2,3) rwr b _ wf plain kind _ keys _ pick f]) simp_all
  then show ?thesis using ok by (auto simp: simCluster_def name outcome_def presented_def s)
qed

end
