(* ===== verification/Pipeline_Net.thy ===== *)
theory Pipeline_Net
  imports Proxy_Pipeline
begin

text \<open>
  A pipeline over a cluster that works: the commands of a batch that go to one node travel as
  one burst, and their replies are read back one by one and put in the places of the commands.
\<close>

section \<open>Replies under way\<close>

text \<open>A connection to \<open>a\<close> on which the replies \<open>rs\<close> are still to be read.\<close>

definition awaiting :: "('w, 'd) cluster \<Rightarrow> 'w \<Rightarrow> bytes \<Rightarrow> Conn \<Rightarrow> Value list \<Rightarrow> bool" where
  "awaiting K w a c rs \<longleftrightarrow> peer K w (nc c) = Some a \<and> inp (rd c) @ sent K w (nc c) = encs rs \<and> (\<forall>r \<in> set rs. wireable r)"

lemma awaiting_Nil: "awaiting K w a c [] = connOK K w a c"
  by (auto simp: awaiting_def connOK_def)

lemma ReadConn_awaiting:
  assumes net: "cluster_net N K" and c: "awaiting K w a c (r # rs)"
  obtains c' w' where "ReadConn N c t w = Some (Ok (Ok (got r), c'), w')" "nc c' = nc c" "awaiting K w' a c' rs"
    "asked K w' = asked K w" "data K w' = data K w" "others K (nc c) w w'"
proof -
  have p: "peer K w (nc c) = Some a" and b: "inp (rd c) @ sent K w (nc c) = enc r @ encs rs" and wire: "wireable r" "\<forall>r \<in> set rs. wireable r"
    using c by (auto simp: awaiting_def)
  have recv: "delivers N K" using net by (simp add: cluster_net_def)
  obtain e w' where w': "netRecv N (nc c) t w = (Inr (sent K w (nc c), e), w')" "peer K w' = peer K w" "asked K w' = asked K w"
    "data K w' = data K w" "sent K w' = (sent K w)(nc c := [])"
    using recv [unfolded delivers_def, rule_format, OF p, of t] by auto
  let ?r = "(rd c)\<lparr>inp := inp (rd c) @ sent K w (nc c), fin := e\<rparr>"
  have read: "ReadValue ?r = (Ok (got r), ?r\<lparr>inp := encs rs, raw := []\<rparr>)"
    using ReadValue_enc [OF wire(1), of ?r "encs rs"] b by (simp add: got_def)
  show thesis
    by (rule that [of "c\<lparr>rd := ?r\<lparr>inp := encs rs, raw := []\<rparr>\<rparr>" w'])
       (use w' p wire(2) read in \<open>simp_all add: ReadConn_def awaiting_def others_def\<close>)
qed

text \<open>One connection of pool \<open>i\<close>, to address \<open>a\<close>, is out, with \<open>rs\<close> still to be read.\<close>

definition reading :: "('w, 'd) cluster \<Rightarrow> 'w Router \<Rightarrow> bytes \<Rightarrow> nat \<Rightarrow> Conn \<Rightarrow> Value list \<Rightarrow> bool" where
  "reading K R a i c rs \<longleftrightarrow> routerOK R \<and> optsOK (poolOptions R [] False) \<and> (a, i) \<in> set (rpools R) \<and>
     (\<forall>(b, j) \<in> set (rpools R). idleOK K (world R) (heap R ! j) \<and> optsOK (opts (heap R ! j)) \<and>
        active (heap R ! j) = (if j = i then 1 else 0)) \<and>
     awaiting K (world R) a c rs \<and> nc c \<notin> nc ` set (conns (heap R ! i)) \<and>
     int (length (conns (heap R ! i))) < oMaxSize (opts (heap R ! i))"

lemma reading_Nil: "reading K R a i c [] = lent K R a i c"
  by (simp add: reading_def lent_def awaiting_Nil)

lemma reading_world:
  assumes R: "reading K R a i c rs" and w: "others K (nc c) (world R) w'" and c': "awaiting K w' a c' rs'" "nc c' = nc c"
  shows "reading K (R\<lparr>world := w'\<rparr>) a i c' rs'"
proof -
  have ok: "routerOK R" and i: "(a, i) \<in> set (rpools R)" and p: "peer K (world R) (nc c) = Some a"
    using R by (simp_all add: reading_def awaiting_def)
  have "idleOK K w' (heap R ! j)" if j: "(b, j) \<in> set (rpools R)" for b j
  proof (rule idleOK_others [OF _ w])
    show idle: "idleOK K (world R) (heap R ! j)" using R j by (auto simp: reading_def)
    show "nc c \<notin> nc ` set (conns (heap R ! j))"
    proof (cases "j = i")
      case False
      then have "b \<noteq> a" using ok i j by (auto simp: routerOK_def poolsOK_def dest: eq_key_imp_eq_value)
      then show ?thesis using idle_peer [OF idle, of "nc c"] p pools_index(2) [OF ok j] by auto
    qed (use R in \<open>simp add: reading_def\<close>)
  qed
  moreover have "poolOptions (R\<lparr>world := w'\<rparr>) [] False = poolOptions R [] False"
    by (rule poolOptions_same) (simp add: sameCore_def)
  ultimately show ?thesis using R c' by (auto simp: reading_def)
qed

lemma WriteRaw_burst:
  assumes net: "cluster_net N K" and R: "lent K R a i c" and k: "\<not> asked K (world R) (nc c)" and fs: "list_all2 meaning fs xs"
    and S: "serveAll (serve K) (data K (world R)) a False xs = (rs, k', d)"
  shows "\<exists>R'. onNet (WriteRaw N c (concat fs) t) R = Some (Ok (), R') \<and> reading K R' a i c rs \<and>
    asked K (world R') (nc c) = k' \<and> data K (world R') = d \<and> sameCore R R'"
proof -
  have c: "peer K (world R) (nc c) = Some a" "inp (rd c) = []" "sent K (world R) (nc c) = []"
    using R by (simp_all add: lent_def connOK_def)
  have wire: "wireable (fst (serve K d a k x))" for d a k x
    using net by (simp add: cluster_net_def)
  have wires: "\<forall>r \<in> set (fst (serveAll (serve K) d a k xs)). wireable r" for d k xs
  proof (induction xs arbitrary: d k)
    case (Cons x xs)
    obtain v d1 where v: "serve K d a k x = (v, d1)" by fastforce
    obtain rs k2 d2 where "serveAll (serve K) d1 a (x = askingCmd) xs = (rs, k2, d2)" by (metis prod_cases3)
    then show ?case using Cons.IH [of d1 "x = askingCmd"] wire [of d a k x] v by simp
  qed simp
  have ans: "answers_in_order N K" using net by (simp add: cluster_net_def)
  obtain w' where w': "netWrite N (nc c) (concat fs) t (world R) = (None, w')" "peer K w' = peer K (world R)"
    "asked K w' = (asked K (world R))(nc c := k')" "data K w' = d" "sent K w' = (sent K (world R))(nc c := encs rs)"
    using ans [unfolded answers_in_order_def, rule_format, OF c(1) fs, of t] S k c(3) by auto
  have "awaiting K w' a c rs"
    using w' c wires [of "data K (world R)" False xs] S by (simp add: awaiting_def)
  moreover have "others K (nc c) (world R) w'" using w' by (simp add: others_def)
  ultimately have "reading K (R\<lparr>world := w'\<rparr>) a i c rs"
    using R reading_world [of K R a i c "[]"] by (simp add: reading_Nil)
  then show ?thesis
    using w' by (intro exI [of _ "R\<lparr>world := w'\<rparr>"]) (simp add: WriteRaw_def zoom_def sameCore_def)
qed

lemma ReadConn_reading:
  assumes net: "cluster_net N K" and R: "reading K R a i c (r # rs)"
  shows "\<exists>c' R'. onNet (ReadConn N c t) R = Some (Ok (Ok (got r), c'), R') \<and> reading K R' a i c' rs \<and> nc c' = nc c \<and>
    asked K (world R') = asked K (world R) \<and> data K (world R') = data K (world R) \<and> sameCore R R'"
proof -
  have "awaiting K (world R) a c (r # rs)" using R by (simp add: reading_def)
  from ReadConn_awaiting [OF net this, of t] obtain c' w' where
    rd: "ReadConn N c t (world R) = Some (Ok (Ok (got r), c'), w')" and
    c': "nc c' = nc c" "awaiting K w' a c' rs" "asked K w' = asked K (world R)" "data K w' = data K (world R)" "others K (nc c) (world R) w'"
    by metis
  have "reading K (R\<lparr>world := w'\<rparr>) a i c' rs" by (rule reading_world [OF R c'(5,2,1)])
  then show ?thesis
    using rd c' by (intro exI [of _ c'] exI [of _ "R\<lparr>world := w'\<rparr>"]) (simp add: zoom_def sameCore_def)
qed

section \<open>A group\<close>

text \<open>The replies put in the places of their commands.\<close>

fun place :: "nat list \<Rightarrow> Value list \<Rightarrow> pipeItem list \<Rightarrow> pipeItem list" where
  "place (k # ks) (v # vs) items = place ks vs (items[k := (items ! k)\<lparr>pReply := v\<rparr>])"
| "place _ _ items = items"

lemma length_place [simp]: "length (place ks vs items) = length items"
  by (induction ks vs items rule: place.induct) simp_all

lemma place_nth:
  assumes "distinct ks" "length ks = length vs" "j < length items"
  shows "place ks vs items ! j = (case map_of (zip ks vs) j of Some v \<Rightarrow> (items ! j)\<lparr>pReply := v\<rparr> | None \<Rightarrow> items ! j)"
  using assms
proof (induction ks vs items rule: place.induct)
  case (1 k ks v vs items)
  let ?items = "items[k := (items ! k)\<lparr>pReply := v\<rparr>]"
  have k: "map_of (zip ks vs) k = None" using "1.prems" by (simp add: map_of_zip_is_None)
  have "place ks vs ?items ! j = (case map_of (zip ks vs) j of Some v \<Rightarrow> (?items ! j)\<lparr>pReply := v\<rparr> | None \<Rightarrow> ?items ! j)"
    using "1.IH" "1.prems" by simp
  then show ?case using k "1.prems"(3) by (cases "k = j") (simp_all cong: option.case_cong)
qed simp_all

text \<open>The state of a session after its router has worked.\<close>

abbreviation withRt :: "'w session \<Rightarrow> 'w Router \<Rightarrow> 'w session" where
  "withRt s R \<equiv> s\<lparr>rt := R\<rparr>"

lemma readReplies_reading:
  assumes net: "cluster_net N K"
  shows "length ks = length rs \<Longrightarrow> reading K (rt s) a i c rs \<Longrightarrow> \<not> asked K (world (rt s)) (nc c) \<Longrightarrow>
    \<exists>R'. readReplies N i ks items c s = Some (Ok (place ks (map got rs) items), withRt s R') \<and> synced K R' \<and>
      data K (world R') = data K (world (rt s)) \<and> sameCore (rt s) R'"
proof (induction ks arbitrary: rs items c s)
  case Nil
  then have "lent K (rt s) a i c" by (simp add: reading_Nil)
  from Put_router [OF this Nil.prems(3), of N] obtain R' where
    "onPool i (Put N c) (rt s) = Some (Ok (), R')" "synced K R'" "sameCore (rt s) R'" "world R' = world (rt s)" by blast
  then show ?case using Nil by (intro exI [of _ R']) (simp add: zoom_def [of rt])
next
  case (Cons k ks)
  then obtain r rs' where rs: "rs = r # rs'" by (cases rs) auto
  from ReadConn_reading [OF net Cons.prems(2) [unfolded rs], of "ReadTimeout (cfg s)"] obtain c' R1 where
    rd: "onNet (ReadConn N c (ReadTimeout (cfg s))) (rt s) = Some (Ok (Ok (got r), c'), R1)" and
    R1: "reading K R1 a i c' rs'" "nc c' = nc c" "asked K (world R1) = asked K (world (rt s))"
      "data K (world R1) = data K (world (rt s))" "sameCore (rt s) R1"
    by blast
  have "\<not> asked K (world (rt (withRt s R1))) (nc c')" using R1(2,3) Cons.prems(3) by simp
  from Cons.IH [of rs' "withRt s R1" c' "items[k := (items ! k)\<lparr>pReply := got r\<rparr>]", OF _ _ this] Cons.prems(1) R1(1) rs obtain R' where
    "readReplies N i ks (items[k := (items ! k)\<lparr>pReply := got r\<rparr>]) c' (withRt s R1) =
      Some (Ok (place ks (map got rs') (items[k := (items ! k)\<lparr>pReply := got r\<rparr>])), withRt s R')"
    "synced K R'" "data K (world R') = data K (world R1)" "sameCore R1 R'"
    by auto
  then show ?case
    using rd rs R1 by (intro exI [of _ R']) (auto simp: zoom_def [of rt] intro: sameCore_trans)
qed

lemma followRedirects_none:
  "(\<And>k. k \<in> set ks \<Longrightarrow> \<not> isRedirect (pReply (items ! k))) \<Longrightarrow> followRedirects N ks items s = Some (Ok items, s)"
  by (induction ks) simp_all

lemma serveAll_plain:
  "(\<And>x. x \<in> set xs \<Longrightarrow> \<not> control x) \<Longrightarrow> serveAll S d a False xs = (rs, k, d') \<Longrightarrow> \<not> k \<and> length rs = length xs"
proof (induction xs arbitrary: d rs)
  case (Cons x xs)
  have "x \<noteq> askingCmd" using Cons.prems(1) [of x] by (auto simp: control_def)
  with Cons.prems(2) obtain v d1 rs' where "serveAll S d1 a False xs = (rs', k, d')" "rs = v # rs'"
    by (auto simp: Let_def split: prod.splits)
  with Cons show ?case by auto
qed simp

lemma flushGroup_serves:
  assumes net: "cluster_net N K" and R: "synced K (rt s)"
    and idx: "distinct idx" "\<And>k. k \<in> set idx \<Longrightarrow> k < length items"
    and x: "\<And>k. k \<in> set idx \<Longrightarrow> meaning (pFrame (items ! k)) (x k) \<and> \<not> control (x k)"
    and S: "serveAll (serve K) (data K (world (rt s))) (rewriteAddr (rt s) addr) False (map x idx) = (rs, k', d)"
    and red: "\<And>r. r \<in> set rs \<Longrightarrow> \<not> isRedirect (got r)"
  shows "\<exists>R'. flushGroup N addr idx items s = Some (Ok (place idx (map got rs) items), withRt s R') \<and> synced K R' \<and>
    data K (world R') = d \<and> sameCore (rt s) R'"
proof -
  let ?a = "rewriteAddr (rt s) addr"
  from poolFor_synced [OF net R, of addr False] obtain i R1 where
    p: "poolFor N addr False (rt s) = Some (Ok i, R1)" and
    R1: "synced K R1" "(?a, i) \<in> set (rpools R1)" "sameCore (rt s) R1" "data K (world R1) = data K (world (rt s))" by blast
  from Get_router [OF net R1(1,2)] obtain c R2 where
    g: "onPool i (Get N) R1 = Some (Ok c, R2)" and
    R2: "lent K R2 ?a i c" "\<not> asked K (world R2) (nc c)" "sameCore R1 R2" "data K (world R2) = data K (world R1)" by blast
  have co: "CheckoutAddr N addr (rt s) = Some (Ok (c, i), R2)" using p g by (simp add: CheckoutAddr_def)
  have fs: "list_all2 meaning (map (\<lambda>k. pFrame (items ! k)) idx) (map x idx)" using x by (simp add: list.rel_map list.rel_refl_strong)
  from WriteRaw_burst [OF net R2(1,2) fs, of rs k' d "WriteTimeout (cfg s)"] S R1(4) R2(4) obtain R3 where
    wr: "onNet (WriteRaw N c (concat (map (\<lambda>k. pFrame (items ! k)) idx)) (WriteTimeout (cfg s))) R2 = Some (Ok (), R3)" and
    R3: "reading K R3 ?a i c rs" "asked K (world R3) (nc c) = k'" "data K (world R3) = d" "sameCore R2 R3" by auto
  have k': "\<not> k'" and len: "length rs = length idx"
    using serveAll_plain [OF _ S] x by auto
  from readReplies_reading [OF net, of idx rs "withRt s R3" ?a i c items] R3 k' len obtain R4 where
    rd: "readReplies N i idx items c (withRt s R3) = Some (Ok (place idx (map got rs) items), withRt s R4)" and
    R4: "synced K R4" "data K (world R4) = d" "sameCore R3 R4" by auto
  have "\<not> isRedirect (pReply (place idx (map got rs) items ! k))" if k: "k \<in> set idx" for k
  proof -
    obtain v where v: "map_of (zip idx (map got rs)) k = Some v" using k len by (metis length_map map_of_zip_is_Some)
    then have "v \<in> set (map got rs)" by (metis in_set_zipE map_of_SomeD)
    with v show ?thesis using place_nth [OF idx(1), of "map got rs" k items] len idx(2) [OF k] red by auto
  qed
  then have "followRedirects N idx (place idx (map got rs) items) (withRt s R4) = Some (Ok (place idx (map got rs) items), withRt s R4)"
    by (rule followRedirects_none)
  then have "flushGroup N addr idx items s = Some (Ok (place idx (map got rs) items), withRt s R4)"
    using co wr rd by (simp add: flushGroup_def zoom_def [of rt])
  then show ?thesis using R1 R2 R3 R4 by (auto intro: sameCore_trans)
qed

section \<open>Grouping\<close>

text \<open>The positions of the commands for a node, in the order of the client.\<close>

definition positionsIn :: "pipeItem list \<Rightarrow> nat \<Rightarrow> bytes \<Rightarrow> nat list" where
  "positionsIn items n a = filter (\<lambda>i. \<not> hasLocal (items ! i) \<and> pAddr (items ! i) = a) [0..<n]"

abbreviation positions :: "pipeItem list \<Rightarrow> bytes \<Rightarrow> nat list" where
  "positions items \<equiv> positionsIn items (length items)"

lemma positionsIn_Suc:
  "positionsIn items (Suc n) a = positionsIn items n a @ (if \<not> hasLocal (items ! n) \<and> pAddr (items ! n) = a then [n] else [])"
  by (simp add: positionsIn_def)

definition grouped :: "pipeItem list \<Rightarrow> nat \<Rightarrow> (bytes \<times> nat list) list \<Rightarrow> bool" where
  "grouped items n gs \<longleftrightarrow> distinct (map fst gs) \<and>
     (\<forall>a. map_of gs a = (if positionsIn items n a = [] then None else Some (positionsIn items n a)))"

lemma grouped_step:
  assumes "grouped items n gs"
  shows "grouped items (Suc n) (addToGroup items gs n)"
proof (cases "hasLocal (items ! n)")
  case False
  let ?a = "pAddr (items ! n)"
  show ?thesis
  proof (cases "map_of gs ?a")
    case None
    then have new: "?a \<notin> fst ` set gs" by (simp add: map_of_eq_None_iff)
    have "map_of (gs @ [(?a, [n])]) b = (if b = ?a then Some [n] else map_of gs b)" for b
      using None by (cases "map_of gs b") (auto simp: map_add_def)
    moreover have "positionsIn items n ?a = []" using assms None unfolding grouped_def by (metis option.distinct(1))
    ultimately show ?thesis using assms False None new by (simp add: grouped_def addToGroup_def positionsIn_Suc)
  next
    case (Some idx)
    have "distinct (map fst (AList.update ?a (idx @ [n]) gs))" using assms by (simp add: grouped_def distinct_update)
    then show ?thesis
      using assms False Some by (auto simp: grouped_def addToGroup_def update_conv' positionsIn_Suc split: if_splits)
  qed
qed (use assms in \<open>simp add: grouped_def addToGroup_def positionsIn_Suc\<close>)

lemma grouped_groupsOf: "grouped items (length items) (groupsOf items)"
proof -
  have "grouped items n (foldl (addToGroup items) [] [0..<n])" for n
    by (induction n) (simp_all add: grouped_step, simp add: grouped_def positionsIn_def)
  then show ?thesis by (simp add: groupsOf_def)
qed

lemma groupsOf_positions:
  "distinct (map fst (groupsOf items))"
  "(a, idx) \<in> set (groupsOf items) \<Longrightarrow> idx = positions items a"
  "i < length items \<Longrightarrow> \<not> hasLocal (items ! i) \<Longrightarrow> pAddr (items ! i) \<in> fst ` set (groupsOf items)"
proof -
  note up = grouped_groupsOf [of items, unfolded grouped_def]
  then show d: "distinct (map fst (groupsOf items))" by simp
  show "idx = positions items a" if "(a, idx) \<in> set (groupsOf items)"
    using map_of_is_SomeI [OF d that] up by (simp split: if_splits)
  show "pAddr (items ! i) \<in> fst ` set (groupsOf items)" if "i < length items" "\<not> hasLocal (items ! i)"
  proof -
    have "i \<in> set (positions items (pAddr (items ! i)))" using that by (simp add: positionsIn_def)
    then have "map_of (groupsOf items) (pAddr (items ! i)) \<noteq> None" using up by auto
    then show ?thesis by (simp add: map_of_eq_None_iff)
  qed
qed

text \<open>Items with their replies filled in.\<close>

definition filled :: "pipeItem list \<Rightarrow> (nat \<Rightarrow> Value) \<Rightarrow> pipeItem list" where
  "filled items f = map (\<lambda>i. (items ! i)\<lparr>pReply := f i\<rparr>) [0..<length items]"

lemma filled_simps [simp]:
  "length (filled items f) = length items" "i < length items \<Longrightarrow> filled items f ! i = (items ! i)\<lparr>pReply := f i\<rparr>"
  by (simp_all add: filled_def)

lemma place_filled:
  assumes "distinct idx" "length idx = length vs"
  shows "place idx vs (filled items f) = filled items (\<lambda>i. case map_of (zip idx vs) i of Some v \<Rightarrow> v | None \<Rightarrow> f i)"
proof (rule nth_equalityI)
  fix i
  assume "i < length (place idx vs (filled items f))"
  then show "place idx vs (filled items f) ! i = filled items (\<lambda>i. case map_of (zip idx vs) i of Some v \<Rightarrow> v | None \<Rightarrow> f i) ! i"
    using assms by (cases "map_of (zip idx vs) i") (simp_all add: place_nth del: map_of_zip_is_None)
qed simp

lemma groupsOf_filled: "groupsOf (filled items f) = groupsOf items"
proof -
  have "foldl (addToGroup (filled items f)) gs is = foldl (addToGroup items) gs is" if "\<forall>i \<in> set is. i < length items" for gs "is"
    using that by (induction "is" arbitrary: gs) (simp_all add: addToGroup_def)
  then show ?thesis by (simp add: groupsOf_def)
qed

section \<open>All groups\<close>

text \<open>
  The abstract pipeline: node after node serves its commands of the batch, in the client's
  order; the replies belong to the positions of the commands.
\<close>

fun bursts :: "('d \<Rightarrow> bytes \<Rightarrow> bool \<Rightarrow> argv \<Rightarrow> Value \<times> 'd) \<Rightarrow> (bytes \<Rightarrow> bytes) \<Rightarrow> pipeItem list \<Rightarrow> (nat \<Rightarrow> argv) \<Rightarrow> bytes list \<Rightarrow> 'd \<Rightarrow>
    (nat \<rightharpoonup> Value) \<times> 'd" where
  "bursts S rw items x [] d = (Map.empty, d)"
| "bursts S rw items x (a # as) d =
     (let (rs, k, d1) = serveAll S d (rw a) False (map x (positions items a)); (m, d2) = bursts S rw items x as d1
      in (map_of (zip (positions items a) rs) ++ m, d2))"

lemma bursts_dom:
  assumes plain: "\<And>i. i < length items \<Longrightarrow> \<not> hasLocal (items ! i) \<Longrightarrow> \<not> control (x i)"
  shows "bursts S rw items x as d = (m, d') \<Longrightarrow> dom m = (\<Union>a \<in> set as. set (positions items a))"
proof (induction as arbitrary: d m d')
  case (Cons a as)
  obtain rs k d1 where s: "serveAll S d (rw a) False (map x (positions items a)) = (rs, k, d1)" by (metis prod_cases3)
  obtain m1 d2 where b: "bursts S rw items x as d1 = (m1, d2)" by fastforce
  have "length rs = length (positions items a)"
    using serveAll_plain [OF _ s] plain by (auto simp: positionsIn_def)
  then have "dom (map_of (zip (positions items a) rs)) = set (positions items a)" by simp
  moreover have "m = map_of (zip (positions items a) rs) ++ m1" using Cons.prems s b by simp
  ultimately show ?case using Cons.IH [OF b] by (simp add: dom_map_add Un_commute)
qed auto

lemma flushGroups_bursts:
  assumes net: "cluster_net N K"
    and x: "\<And>i. i < length items \<Longrightarrow> \<not> hasLocal (items ! i) \<Longrightarrow> meaning (pFrame (items ! i)) (x i) \<and> \<not> control (x i)"
  shows "synced K (rt s) \<Longrightarrow> (\<And>g. g \<in> set order \<Longrightarrow> snd (gs ! g) = positions items (fst (gs ! g))) \<Longrightarrow>
    distinct (map (\<lambda>g. fst (gs ! g)) order) \<Longrightarrow>
    bursts (serve K) (rewriteAddr (rt s)) items x (map (\<lambda>g. fst (gs ! g)) order) (data K (world (rt s))) = (m, d) \<Longrightarrow>
    (\<And>v. v \<in> ran m \<Longrightarrow> \<not> isRedirect (got v)) \<Longrightarrow>
    \<exists>R'. flushGroups N gs order (filled items f) [] s =
        Some (Ok (filled items (\<lambda>i. case m i of Some v \<Rightarrow> got v | None \<Rightarrow> f i), []), withRt s R') \<and>
      synced K R' \<and> data K (world R') = d \<and> sameCore (rt s) R'"
proof (induction order arbitrary: s f m)
  case Nil
  then have "m = Map.empty" "d = data K (world (rt s))" by auto
  then show ?case using Nil.prems(1) by (intro exI [of _ "rt s"]) (simp add: sameCore_def)
next
  case (Cons g order)
  let ?a = "fst (gs ! g)" and ?as = "map (\<lambda>g. fst (gs ! g)) order"
  let ?idx = "positions items ?a"
  obtain rs k d1 where S: "serveAll (serve K) (data K (world (rt s))) (rewriteAddr (rt s) ?a) False (map x ?idx) = (rs, k, d1)"
    by (metis prod_cases3)
  obtain m1 d2 where B: "bursts (serve K) (rewriteAddr (rt s)) items x ?as d1 = (m1, d2)" by fastforce
  have m: "m = map_of (zip ?idx rs) ++ m1" "d = d2" using Cons.prems(4) S B by simp_all
  have idx: "distinct ?idx" "\<And>i. i \<in> set ?idx \<Longrightarrow> i < length items \<and> \<not> hasLocal (items ! i)" by (auto simp: positionsIn_def)
  have len: "length rs = length ?idx" using serveAll_plain [OF _ S] x idx(2) by auto
  have off: "m1 i = None" if "i \<in> set ?idx" for i
  proof (rule ccontr)
    assume "m1 i \<noteq> None"
    then obtain b where "b \<in> set ?as" "i \<in> set (positions items b)" using bursts_dom [OF _ B] x by blast
    then show False using Cons.prems(3) that by (auto simp: positionsIn_def)
  qed
  have "\<not> isRedirect (got r)" if r: "r \<in> set rs" for r
  proof -
    obtain j where j: "j < length rs" "r = rs ! j" using r by (metis in_set_conv_nth)
    then have "map_of (zip ?idx rs) (?idx ! j) = Some r" using idx(1) len by (simp add: map_of_zip_nth)
    moreover have "m1 (?idx ! j) = None" using j len by (intro off) simp
    ultimately have "m (?idx ! j) = Some r" by (simp add: m map_add_def)
    then show ?thesis using Cons.prems(5) by (auto simp: ran_def)
  qed
  note red = this
  from flushGroup_serves [OF net Cons.prems(1) idx(1) _ _ S red, of "filled items f"] idx(2) x obtain R1 where
    fl: "flushGroup N ?a ?idx (filled items f) s = Some (Ok (place ?idx (map got rs) (filled items f)), withRt s R1)" and
    R1: "synced K R1" "data K (world R1) = d1" "sameCore (rt s) R1"
    by auto
  let ?f = "\<lambda>i. case map_of (zip ?idx (map got rs)) i of Some v \<Rightarrow> v | None \<Rightarrow> f i"
  have rw: "rewriteAddr R1 = rewriteAddr (rt s)" using R1(3) by (intro rewriteAddr_cfg) (simp add: sameCore_def)
  have B': "bursts (serve K) (rewriteAddr (rt (withRt s R1))) items x ?as (data K (world (rt (withRt s R1)))) = (m1, d)"
    using B rw R1(2) m(2) by simp
  have red1: "\<not> isRedirect (got v)" if v: "v \<in> ran m1" for v
  proof -
    obtain i where "m1 i = Some v" using v by (auto simp: ran_def)
    then have "m i = Some v" by (simp add: m)
    then show ?thesis using Cons.prems(5) by (auto simp: ran_def)
  qed
  from Cons.IH [of "withRt s R1" m1 ?f, OF _ _ _ B' red1] Cons.prems(2,3) R1(1) obtain R' where
    rest: "flushGroups N gs order (filled items ?f) [] (withRt s R1) =
      Some (Ok (filled items (\<lambda>i. case m1 i of Some v \<Rightarrow> got v | None \<Rightarrow> ?f i), []), withRt s R')" and
    R': "synced K R'" "data K (world R') = d" "sameCore R1 R'"
    by auto
  have "(\<lambda>i. case m1 i of Some v \<Rightarrow> got v | None \<Rightarrow> ?f i) = (\<lambda>i. case m i of Some v \<Rightarrow> got v | None \<Rightarrow> f i)"
    by (rule ext) (simp add: m map_add_def zip_map2 map_of_map split: option.split)
  then show ?case
    using fl rest R' R1 Cons.prems(2) [of g] len
    by (intro exI [of _ R']) (auto simp: place_filled idx(1) intro: sameCore_trans)
qed

section \<open>Properties\<close>


text \<open>Two nodes that count together; the second one is reached first.\<close>

definition countServe :: "nat \<Rightarrow> bytes \<Rightarrow> bool \<Rightarrow> argv \<Rightarrow> Value \<times> nat" where
  "countServe d addr asking x = (if control x then (SimpleString ''OK'', d) else (Integer (int (d mod 10)), d + 1))"

definition incrItem :: "bytes \<Rightarrow> pipeItem" where
  "incrItem addr = (newItem \<lparr>cArgv = [Some ''INCR'', Some ''k''], cRaw = [], cName = ''INCR''\<rparr>)
     \<lparr>pAddr := addr, pFrame := EncodeCommand [] [Some ''INCR'', Some ''k'']\<rparr>"

definition twoNodes :: "pipeItem list" where
  "twoNodes = [incrItem ''a:1'', incrItem ''b:1'', incrItem ''a:1'']"

definition pipeSession :: "nat sim session" where
  "pipeSession = newSession demoConfig simRouter 0 (\<lambda>n. rev [0..<n]) 1"


end
