(* ===== verification/Pipeline_Faults.thy ===== *)
theory Pipeline_Faults
  imports Session_Replies Pipeline_Net
begin

text \<open>
  Where the pipeline goes wrong: a node that cannot be reached costs the client the replies of
  the whole batch, and \<open>SELECT\<close> takes effect before the commands in front of it.
\<close>

section \<open>A node that cannot be reached\<close>

lemma silent_classifyAll: "silent l (classifyAll N cs)"
proof (induction cs)
  case (Cons c cs)
  have "silent l (classifyPipe N c)"
    unfolding classifyPipe_def classifySelect_def classifyRoute_def
    by (intro io_rule answer_rule silent_handleLocal silent_modify; simp)
  with Cons show ?case unfolding classifyAll.simps by (intro io_rule)
qed (simp add: ensures_def)

lemma silent_flushGroup: "silent l (flushGroup N addr idx items)"
proof -
  have "silent l (readReplies N i ks items c)" for i ks items c
    by (induction ks arbitrary: items c) (unfold readReplies.simps, (intro io_rule answer_rule, assumption?)+)
  moreover have "silent l (followRedirects N ks items)" for ks items
    by (induction ks arbitrary: items) (unfold followRedirects.simps, (intro io_rule answer_rule, assumption?)+)
  ultimately show ?thesis unfolding flushGroup_def by (intro io_rule answer_rule)
qed

text \<open>The first error stays the first.\<close>

lemma flushGroups_first_error:
  "ensures (at l) (flushGroups N gs order items (e # es)) (\<lambda>r s. at l s \<and> (\<forall>its errs. r = Ok (its, errs) \<longrightarrow> (\<exists>fs. errs = e # fs)))"
proof (induction order arbitrary: items es)
  case Nil
  then show ?case by (simp add: ensures_def)
next
  case (Cons g order)
  show ?case
    unfolding flushGroups.simps
  proof (rule ensures_tryE [OF silent_flushGroup])
    fix r
    show "ensures (at l) (case r of Ok items \<Rightarrow> flushGroups N gs order items (e # es)
        | Err e' \<Rightarrow> flushGroups N gs order items ((e # es) @ [e']) | Panic \<Rightarrow> liftR Panic)
      (\<lambda>r s. at l s \<and> (\<forall>its errs. r = Ok (its, errs) \<longrightarrow> (\<exists>fs. errs = e # fs)))"
      using Cons.IH by (cases r) (simp_all add: ensures_def)
  qed simp
qed

lemma reply_appends: "reply N v s = Some (Ok (), s') \<Longrightarrow> replied s' = replied s @ [v]"
  by (auto simp: reply_def sendClient_def tryE_def zoom_def split: option.splits res.splits prod.splits)

text \<open>
  C39. An unreachable node loses the replies of a whole batch. When the node of the group that is
  flushed first has no connection to give, a batch of two or more commands is answered with
  one error in all, whatever the other nodes have done and answered meanwhile: the client
  waits for the rest, and takes the next reply for the answer of a wrong command.
\<close>

theorem unreachable_node_loses_replies:
  assumes "2 \<le> length batch" and "classifyAll N batch s = Some (Ok items, s1)" and "\<not> list_ex slow items"
    and "sched s1 (length (groupsOf items)) = g # order"
    and "CheckoutAddr N (fst (groupsOf items ! g)) (rt s1) = Some (Err e, R1)"
    and "handleBatch N batch s = Some (Ok (), s')"
  shows "replied s' = replied s @ [Error (''ERR '' @ err_string e)]"
proof -
  let ?items = "map (\<lambda>it. if hasLocal it then it\<lparr>pReply := pLocal it\<rparr> else it) items"
  have gs: "groupsOf ?items = groupsOf items"
  proof -
    have "?items = filled items (\<lambda>i. if hasLocal (items ! i) then pLocal (items ! i) else pReply (items ! i))"
      by (rule nth_equalityI) simp_all
    then show ?thesis by (simp add: groupsOf_filled)
  qed
  have s1: "at (replied s) s1" using ensuresD [OF silent_classifyAll _ assms(2)] by simp
  have run: "execFastPipeline N items s1 = Some (Ok (), s')"
    using assms(1,2,3,6) by (simp add: handleBatch_def)
  let ?s1 = "s1\<lparr>rt := R1\<rparr>" and ?gs = "groupsOf items"
  have "flushGroup N (fst (?gs ! g)) (snd (?gs ! g)) ?items s1 = Some (Err e, ?s1)"
    using assms(5) by (simp add: flushGroup_def zoom_def)
  then have rest: "flushGroups N ?gs (g # order) ?items [] s1 = flushGroups N ?gs order ?items [e] ?s1"
    by (simp add: tryE_def)
  obtain r s2 where fl: "flushGroups N ?gs order ?items [e] ?s1 = Some (r, s2)"
    using run rest assms(4) by (cases "flushGroups N ?gs order ?items [e] ?s1") (auto simp: execFastPipeline_def gs Let_def bindE_def)
  have s2: "at (replied s) s2" "\<And>its errs. r = Ok (its, errs) \<Longrightarrow> \<exists>fs. errs = e # fs"
    using ensuresD [OF flushGroups_first_error _ fl, of "replied s"] s1 by auto
  obtain its errs where r: "r = Ok (its, errs)"
    using run rest assms(4) fl by (cases r) (auto simp: execFastPipeline_def gs Let_def bindE_def)
  then obtain fs where "errs = e # fs" using s2(2) by blast
  then have "replyErr N e s2 = Some (Ok (), s')"
    using run rest assms(4) fl r by (simp add: execFastPipeline_def gs Let_def bindE_def)
  from reply_appends [OF this] s2(1) show ?thesis by simp
qed

definition getK :: clientCmd where
  "getK = \<lparr>cArgv = [Some ''GET'', Some ''k''], cRaw = [], cName = ''GET''\<rparr>"

definition getItem :: pipeItem where
  "getItem = (newItem getK)\<lparr>pSlot := SlotOf demoRouter ''k'', pAddr := ''a:1'', pFrame := EncodeCommand [] [Some ''GET'', Some ''k''],
     pArgv := [Some ''GET'', Some ''k''], pRead := True\<rparr>"

lemma openSession_simps:
  "sub openSession = None" "authed openSession" "wfail openSession = None" "replied openSession = []" "db openSession = 0"
  "rt openSession = demoRouter" "sched openSession = (\<lambda>n. [0..<n])"
  by (simp_all add: openSession_def newSession_def demoConfig_def Defaults_def)

lemma classify_getK: "classifyPipe mutedNet getK openSession = Some (Ok getItem, openSession)"
proof -
  have name: "upperName (Some ''GET'') = ''GET''" by (simp add: upperName_def UpperASCII_map upper_byte_def)
  have loc: "handleLocal mutedNet [Some ''GET'', Some ''k''] openSession = Some (Ok None, openSession)"
    using openSession_simps(2) by (simp add: handleLocal_def name Let_def)
  have keys: "ExtractKeys [Some ''GET'', Some ''k''] = Ok [Some ''k'']" by code_simp
  have slow: "\<not> pipelineSlow ''GET'' [Some ''GET'', Some ''k'']" by code_simp
  have kind: "KindOf ''GET'' = KindRead" by code_simp
  have node: "RouteSlot demoRouter slot r = None" "AnyMaster demoRouter = Some (zeroNode\<lparr>nAddr := ''a:1'', nMaster := True, nHealth := HealthOnline\<rparr>)" for slot r
    by (simp_all add: RouteSlot_def AnyMaster_def demoRouter_def demoConfig_def Load_def)
  show ?thesis
    unfolding classifyPipe_def getK_def classifyRoute_def
    by (simp add: Let_def openSession_simps slow loc keys node frameOf_def kind slotFor_def getItem_def getK_def newItem_def)
qed

lemma muted_checkout: "\<exists>e R. CheckoutAddr mutedNet ''a:1'' demoRouter = Some (Err e, R)"
  by (simp add: CheckoutAddr_def router_eval Get_def checkout_def dial_def connect_def mutedNet_def deadNet_def demoRouter_def demoConfig_def Defaults_def)

theorem unreachable_node_loses_replies_witness:
  "\<exists>s' v. handleBatch mutedNet [getK, getK] openSession = Some (Ok (), s') \<and> replied s' = [v]"
proof -
  have cl: "classifyAll mutedNet [getK, getK] openSession = Some (Ok [getItem, getItem], openSession)"
    using classify_getK by simp
  have slow: "\<not> list_ex slow [getItem, getItem]" by (simp add: getItem_def newItem_def)
  have gs: "groupsOf [getItem, getItem] = [(''a:1'', [0, 1])]"
    by (simp add: groupsOf_def addToGroup_def getItem_def newItem_def upt_rec)
  have sc: "sched openSession (length (groupsOf [getItem, getItem])) = [0]" by (simp add: gs openSession_simps upt_rec)
  obtain e R where co: "CheckoutAddr mutedNet (fst (groupsOf [getItem, getItem] ! 0)) (rt openSession) = Some (Err e, R)"
    using muted_checkout by (auto simp: gs openSession_simps)
  have ok: "\<exists>s'. reply mutedNet v s = Some (Ok (), s')" if "wfail s = None" for v s
    using that by (simp add: reply_def sendClient_def mutedNet_def zoom_def)
  have loc: "\<not> hasLocal getItem" by (simp add: getItem_def newItem_def)
  have "handleBatch mutedNet [getK, getK] openSession = replyErr mutedNet e (openSession\<lparr>rt := R\<rparr>)"
    using cl slow co sc by (simp add: handleBatch_def execFastPipeline_def loc gs flushGroup_def zoom_def Let_def del: classifyAll.simps)
  then obtain s' where run: "handleBatch mutedNet [getK, getK] openSession = Some (Ok (), s')"
    using ok [of "openSession\<lparr>rt := R\<rparr>"] by (auto simp: openSession_simps)
  from unreachable_node_loses_replies [OF _ cl slow sc co run] run show ?thesis by (auto simp: openSession_simps)
qed

section \<open>SELECT in a batch\<close>

text \<open>
  C40. \<open>SELECT\<close> overtakes. When a batch holds a command that needs care, the commands are
  classified first and then handled one by one; the classification of \<open>SELECT\<close> has switched
  the database by then, so a command in front of it is handled in the database that was
  selected after it.
\<close>

theorem select_overtakes:
  assumes "classifyPipe N c s = Some (Ok it, s)" and "sub s = None" and "authed s"
    and "cName sel = ''SELECT''" and "cArgv sel = [Some ''SELECT'', n]" and "ParseDBIndex (sl n) (MaxDatabases (cfg s)) = Ok d"
    and "pipelineSlow (cName p) (cArgv p)"
  shows "handleBatch N [c, sel, p] s = thenE (handle N (cArgv c) (cRaw c))
    (thenE (handle N (cArgv sel) (cRaw sel)) (thenE (handle N (cArgv p) (cRaw p)) (ret ()))) (s\<lparr>db := d\<rparr>)"
proof -
  have "\<not> (case Lookup ''SELECT'' of Some m \<Rightarrow> mKind m = KindBlock | None \<Rightarrow> False)" and "\<not> List.member slowNames ''SELECT''" by code_simp+
  then have "\<not> pipelineSlow ''SELECT'' [Some ''SELECT'', n]"
    by (simp add: pipelineSlow_def IsBlocking_def UpperASCII_map upper_byte_def)
  then have sel: "classifyPipe N sel s = Some (Ok (answered (newItem sel) (SimpleString ''OK'')), s\<lparr>db := d\<rparr>)"
    using assms(2-6) by (simp add: classifyPipe_def classifySelect_def Let_def)
  have p: "classifyPipe N p (s\<lparr>db := d\<rparr>) = Some (Ok ((newItem p)\<lparr>slow := True\<rparr>), s\<lparr>db := d\<rparr>)"
    using assms(7) by (simp add: classifyPipe_def Let_def)
  show ?thesis
    using assms(1) sel p by (simp add: handleBatch_def)
qed

definition select3 :: clientCmd where
  "select3 = \<lparr>cArgv = [Some ''SELECT'', Some ''3''], cRaw = [], cName = ''SELECT''\<rparr>"

definition flush :: clientCmd where
  "flush = \<lparr>cArgv = [Some ''FLUSHDB''], cRaw = [], cName = ''FLUSHDB''\<rparr>"

theorem select_overtakes_witness:
  "db openSession = 0 \<and> handleBatch mutedNet [getK, select3, flush] openSession =
    thenE (handle mutedNet [Some ''GET'', Some ''k''] []) (thenE (handle mutedNet [Some ''SELECT'', Some ''3''] [])
      (thenE (handle mutedNet [Some ''FLUSHDB''] []) (ret ()))) (openSession\<lparr>db := 3\<rparr>)"
proof -
  have n: "ParseDBIndex (sl (Some ''3'')) (MaxDatabases (cfg openSession)) = Ok 3"
  proof -
    have "MaxDatabases (cfg openSession) = 16" by (simp add: openSession_def newSession_def demoConfig_def Defaults_def)
    moreover have "Atoi ''3'' = Some 3" by (simp add: Atoi_def ParseInt_def ParseUint_def is_digit_def)
    ultimately show ?thesis by (simp add: ParseDBIndex_def)
  qed
  have slow: "pipelineSlow (cName flush) (cArgv flush)" by code_simp
  have sel: "cName select3 = ''SELECT''" "cArgv select3 = [Some ''SELECT'', Some ''3'']" by (simp_all add: select3_def)
  from select_overtakes [OF classify_getK openSession_simps(1,2) sel n slow] show ?thesis
    by (simp add: openSession_simps getK_def select3_def flush_def)
qed

end
