(* ===== verification/Spec2Isabelle.thy ===== *)
theory Spec2Isabelle
  imports Resp_Frames Command_Fanout Cluster_Topology Pool_Machine Proxy_Pipeline Session_Auth Session_Replies Session_Ends Proxy_Server
    Session_Cluster Pipeline_Faults
begin

text \<open>
  A verification library for dragon-cluster-resp-proxy, a proxy that shows one standalone
  Redis on a Unix socket to its clients and routes their commands to a Dragonfly or Redis
  cluster.

  \<^bold>\<open>The program.\<close> A server accepts clients and runs one session per client. A session reads
  commands in the RESP protocol, alone or in batches, answers some itself, and sends the
  others to the node of their hash slot through a router, which keeps the slot map, follows
  redirects and has a pool of connections per node. A session can choose one of several
  virtual databases, which are prefixes of the keys; a command with keys in several slots is
  split and its replies are merged; a subscriber has its own connections to the nodes.

  \<^bold>\<open>Foundations.\<close>
  \<^item> \<open>Go_Base\<close>, \<open>Go_Strconv\<close>: byte strings, slices that may be nil, 64-bit integers with
    wrap-around, errors, results \<open>Ok\<close>, \<open>Err\<close>, \<open>Panic\<close>; the parts of \<open>strings\<close>, \<open>bytes\<close>
    and \<open>strconv\<close> the code uses.
  \<^item> \<open>Go_IO\<close>: calls that read and change a state and may fail, panic or never return (the
    value \<open>None\<close>), and a Hoare logic for them (\<open>ensures\<close>, \<open>keeps\<close>) whose rules are collected
    in \<open>io_rule\<close>. \<open>Go_Loop\<close>: loops that may run for ever as partial functions.
  \<^item> \<open>Framing\<close>, \<open>Namespaces\<close>, \<open>Machines\<close>, \<open>Session_Env\<close>: the interfaces, as locales. A
    framed codec (interpreted for values and for commands), separate name spaces (for virtual
    databases), an inductive invariant (for the pool, the router and the server), and a router
    property that sessions keep (for the router's invariant; as a fact for every property
    that the network keeps).

  \<^bold>\<open>The components\<close>, by file under \<open>src/internal\<close>.
  \<^item> \<open>resp/value.go\<close>, \<open>resp/parse.go\<close>: \<open>Resp_Value\<close>, \<open>Resp_Parse\<close>, with the codec in
    \<open>Resp_Codec\<close> and the wire format of commands and replies in \<open>Resp_Frames\<close>.
  \<^item> \<open>cluster/crc16.go\<close>, \<open>cluster/slot.go\<close>: \<open>Cluster_Slot\<close>. \<open>cluster/topology.go\<close>:
    \<open>Cluster_Topology\<close>. \<open>cluster/router.go\<close>: \<open>Cluster_Router\<close>.
  \<^item> \<open>command/\<close>: \<open>Command_Table\<close>, \<open>Command_Keys\<close> (tables and key positions), \<open>Command_DB\<close>
    (virtual databases), \<open>Command_Fanout\<close> (splitting and merging).
  \<^item> \<open>config/\<close>: \<open>Proxy_Config\<close>. \<open>pool/pool.go\<close>: \<open>Backend_Pool\<close> for one caller at a time, and
    \<open>Pool_Machine\<close> with the callers interleaved at every atomic action.
  \<^item> \<open>pubsub/pubsub.go\<close>: \<open>Pubsub_Session\<close>.
  \<^item> \<open>proxy/session.go\<close>: \<open>Proxy_State\<close> (the record \<open>session\<close>, replies, reading from the
    client) and \<open>Proxy_Session\<close> (a definition per handler). \<open>proxy/local.go\<close>: \<open>Proxy_Local\<close>.
    \<open>proxy/pipeline.go\<close> and the loop of a session: \<open>Proxy_Pipeline\<close>.
  \<^item> \<open>proxy/server.go\<close> and \<open>cmd/dragon-cluster-resp-proxy/main.go\<close>: \<open>Proxy_Server\<close>.

  Definitions have the names of the Go functions and types; a name that is taken in HOL or by
  another component has a prefix or suffix (\<open>PoolClose\<close>, \<open>NewServer\<close>, \<open>LoadConfig\<close>). Where a Go
  function is long, its loops and branches are definitions of their own.

  \<^bold>\<open>What is shown.\<close>
  \<^item> End to end: \<open>Session_Cluster\<close> relates a command of a client to an abstract client of the
    cluster; \<open>Cluster_Net\<close> the router's execution to that client; \<open>Pipeline_Net\<close> a batch to
    bursts of commands at the nodes. They hold over \<open>cluster_net\<close>, a network on which dialling
    gives a fresh connection, commands are answered in order and answers arrive; \<open>simNet\<close> is
    such a network for any nodes.
  \<^item> Sessions, over any network: \<open>Session_Auth\<close> (before authentication nothing reaches the
    cluster), \<open>Session_Replies\<close> (one reply per command), \<open>Session_Returns\<close> and \<open>Session_Ends\<close>
    (commands return, sessions end), \<open>Proxy_Server\<close> (the limit on clients, the counters, and
    the validity of the shared router, under every interleaving of sessions).
  \<^item> Components: the reader and the encoder are inverse and keep the bytes on the wire; the CRC
    equals its bitwise definition; virtual databases are isolated; split commands behave like
    unsplit ones; slot-map updates; pools hold each connection once; configuration layers.
  \<^item> Faults of the code, as theorems: a panic by a map header, by a count of keys, negative
    slots; pools above their size, callers that wait for ever; replica reads of a wrong node;
    unsubscribing that subscribes again; batches that lose replies (\<open>Pipeline_Faults\<close>);
    \<open>SELECT\<close> that overtakes; a shutdown that does not wait for its clients.

  \<^bold>\<open>Assumptions and bounds.\<close> The network is a parameter (\<open>net\<close>): its operations are functions
  on a world, so every behaviour of the nodes and every interruption is covered. The order in
  which the goroutines of one command finish is a parameter (\<open>sched\<close>). Loops are recursive
  without fuel, the ones that need not end (\<open>runLoop\<close>, \<open>scanLoop\<close>) are partial functions and
  proved to return under \<open>never_stuck\<close> (a caller of \<open>Get\<close> is woken at some time), \<open>scans_end\<close>
  (a measure that goes down with every turn of a scan) and \<open>finite_client\<close>; \<open>hops\<close> is bounded by
  \<open>MovedHopLimit\<close> and \<open>waitAck\<close> by \<open>patience\<close>, the number of times the reader gets to run before
  the timer. Sessions share the router one turn at a time; within \<open>Get\<close>, \<open>Put\<close>, \<open>Drop\<close> and
  \<open>Close\<close> of a pool, \<open>Pool_Machine\<close> interleaves every atomic action.

  \<^bold>\<open>Not modelled.\<close>
  \<^item> \<open>internal/metrics\<close>, and \<open>metricsMux\<close> and \<open>pprofMux\<close> of \<open>main.go\<close>: registration of
    Prometheus collectors and handlers of \<open>net/http\<close>, third-party or library code without
    decisions of the program. The increments the program makes are recorded in the states.
  \<^item> Logging, the reuse of buffers (\<open>sync.Pool\<close>, \<open>NameUpper\<close>), TCP options, accessors that
    nobody calls, the timer of \<open>RunRefreshLoop\<close> (one turn of it is \<open>refreshTick\<close>).
  \<^item> TLS, YAML, files and the operating system's calls are parameters.
  \<^item> \<open>test/perf\<close>, a load generator.
\<close>

end
